(* ===== verification/Nox_Prelude.thy ===== *)
theory Nox_Prelude
  imports Main "HOL-Library.Word" "HOL-Library.Multiset"
begin

unbundle bit_operations_syntax

text \<open>
  Shared vocabulary of the development: the machine integer types of the C++ sources, the byte
  order primitives of \<^verbatim>\<open>src/src/include/xtoxll.h\<close>, loads and stores of integers in byte memory,
  the errno values the sources test for, and the generic list and word lemmas that the component
  theories use.  The host is little endian, the branch \<^verbatim>\<open>__BYTE_ORDER == __LITTLE_ENDIAN\<close> of the
  sources.
\<close>

section \<open>Types and fact collections\<close>

type_synonym uint8 = "8 word"
type_synonym uint16 = "16 word"
type_synonym uint32 = "32 word"
type_synonym uint64 = "64 word"
type_synonym bytes = "uint8 list"

named_theorems byteorder \<open>byte order conversions and integers in memory\<close>

text \<open>The errno values that the modelled code returns or compares with (Linux numbering).\<close>

type_synonym errno = int

abbreviation EINTR :: errno where "EINTR \<equiv> 4"

abbreviation EAGAIN :: errno where "EAGAIN \<equiv> 11"

abbreviation ENOMEM :: errno where "ENOMEM \<equiv> 12"

abbreviation EPROTO :: errno where "EPROTO \<equiv> 71"

abbreviation EOF_ERR :: errno where "EOF_ERR \<equiv> - 1"

section \<open>Byte order\<close>

text \<open>
  \<^verbatim>\<open>htons\<close> and \<^verbatim>\<open>htonl\<close> of the C library swap the bytes on a little endian host;
  \<^verbatim>\<open>ntohs\<close> and \<^verbatim>\<open>ntohl\<close> are the same functions.
\<close>

definition htons :: "uint16 \<Rightarrow> uint16" where
  "htons n = push_bit 8 (take_bit 8 n) OR take_bit 8 (drop_bit 8 n)"

definition htonl :: "uint32 \<Rightarrow> uint32" where
  "htonl n = push_bit 24 (take_bit 8 n) OR push_bit 16 (take_bit 8 (drop_bit 8 n)) OR
             push_bit 8 (take_bit 8 (drop_bit 16 n)) OR take_bit 8 (drop_bit 24 n)"

abbreviation ntohs :: "uint16 \<Rightarrow> uint16" where "ntohs \<equiv> htons"

abbreviation ntohl :: "uint32 \<Rightarrow> uint32" where "ntohl \<equiv> htonl"

text \<open>\<^verbatim>\<open>htonll\<close> and \<^verbatim>\<open>ntohll\<close> of \<^verbatim>\<open>xtoxll.h\<close>; the test \<^verbatim>\<open>htonl(1) == 1\<close> for the host order is kept.\<close>

definition htonll :: "uint64 \<Rightarrow> uint64" where
  "htonll n = (if htonl 1 = 1 then n
               else push_bit 32 (ucast (htonl (ucast n))) OR ucast (htonl (ucast (drop_bit 32 n))))"

definition ntohll :: "uint64 \<Rightarrow> uint64" where
  "ntohll n = (if htonl 1 = 1 then n
               else push_bit 32 (ucast (ntohl (ucast n))) OR ucast (ntohl (ucast (drop_bit 32 n))))"

lemma bit_htons: "bit (htons n) i \<longleftrightarrow> i < 16 \<and> bit n (if i < 8 then i + 8 else i - 8)"
  unfolding htons_def by (auto simp: bit_simps add.commute)

lemma bit_htonl:
  "bit (htonl n) i \<longleftrightarrow> i < 32 \<and>
     bit n (if i < 8 then i + 24 else if i < 16 then i + 8 else if i < 24 then i - 8 else i - 24)"
  unfolding htonl_def by (auto simp: bit_simps add.commute)

lemma htons_htons [simp, byteorder]: "htons (htons n) = n"
  by (rule bit_word_eqI) (auto simp: bit_htons)

lemma htonl_htonl [simp, byteorder]: "htonl (htonl n) = n"
  by (rule bit_word_eqI) (auto simp: bit_htonl)

lemma htons_eq_iff [simp]: "htons a = htons b \<longleftrightarrow> a = b"
  by (metis htons_htons)

lemma htonl_eq_iff [simp]: "htonl a = htonl b \<longleftrightarrow> a = b"
  by (metis htonl_htonl)

lemma htonl_one: "htonl 1 = 0x1000000"
  by (simp add: htonl_def)

lemma htonl_zero [simp]: "htonl 0 = 0" and htons_zero [simp]: "htons 0 = 0"
  by (simp_all add: htonl_def htons_def)

lemma htonll_swaps:
  "htonll n = push_bit 32 (ucast (htonl (ucast n))) OR ucast (htonl (ucast (drop_bit 32 n)))"
  by (simp add: htonll_def htonl_one)

lemma ntohll_htonll_eq [simp]: "ntohll = htonll"
  by (rule ext) (simp add: ntohll_def htonll_def)

lemma htonll_lo: "ucast (htonll n) = htonl (ucast (drop_bit 32 n))"
  unfolding htonll_swaps by (rule bit_word_eqI) (auto simp: bit_simps bit_htonl)

lemma htonll_hi: "ucast (drop_bit 32 (htonll n)) = htonl (ucast n)"
  unfolding htonll_swaps by (rule bit_word_eqI) (auto simp: bit_simps bit_htonl)

lemma htonll_htonll [simp, byteorder]: "htonll (htonll n) = n"
proof -
  have "htonll (htonll n) = push_bit 32 (ucast (ucast (drop_bit 32 n) :: uint32)) OR ucast (ucast n :: uint32)"
    by (subst (1) htonll_swaps) (simp only: htonll_lo htonll_hi htonl_htonl)
  also have "\<dots> = n"
    by (rule bit_word_eqI) (auto simp: bit_simps)
  finally show ?thesis .
qed

section \<open>Integers in memory\<close>

text \<open>
  Memory is a list of bytes.  \<open>load_le\<close> reads a little endian integer, as a dereference of an
  integer pointer does on the host, and \<open>store_le k\<close> writes one of \<open>k\<close> bytes.
\<close>

fun load_le :: "bytes \<Rightarrow> 'a::len word" where
  "load_le [] = 0"
| "load_le (b # bs) = ucast b OR push_bit 8 (load_le bs)"

definition store_le :: "nat \<Rightarrow> 'a::len word \<Rightarrow> bytes" where
  "store_le k w = map (\<lambda>j. ucast (drop_bit (8 * j) w)) [0..<k]"

lemma length_store_le [simp]: "length (store_le k w) = k"
  by (simp add: store_le_def)

lemma bit_load_le:
  "bit (load_le bs :: 'a::len word) i \<longleftrightarrow>
     i < LENGTH('a) \<and> i div 8 < length bs \<and> bit (bs ! (i div 8)) (i mod 8)"
proof (induction bs arbitrary: i)
  case Nil
  then show ?case by simp
next
  case (Cons b bs)
  show ?case
  proof (cases "i < 8")
    case True
    then show ?thesis by (auto simp: bit_simps)
  next
    case False
    then have "i div 8 = Suc ((i - 8) div 8)" and "i mod 8 = (i - 8) mod 8"
      by (simp_all add: div_if mod_if)
    with False show ?thesis by (auto simp: bit_simps Cons.IH dest: bit_imp_le_length)
  qed
qed

lemma load_le_store_le:
  assumes "LENGTH('a) = 8 * k"
  shows "load_le (store_le k (w :: 'a::len word)) = w"
proof (rule bit_word_eqI)
  fix i
  assume "i < LENGTH('a)"
  with assms show "bit (load_le (store_le k w) :: 'a word) i = bit w i"
    by (simp add: bit_load_le store_le_def bit_simps less_mult_imp_div_less mult.commute)
qed

lemma store_le_load_le:
  assumes "8 * length bs \<le> LENGTH('a)"
  shows "store_le (length bs) (load_le bs :: 'a::len word) = bs"
proof (rule nth_equalityI)
  fix j
  assume "j < length (store_le (length bs) (load_le bs :: 'a word))"
  then have j: "j < length bs" by simp
  show "store_le (length bs) (load_le bs :: 'a word) ! j = bs ! j"
  proof (rule bit_word_eqI)
    fix i :: nat
    assume "i < LENGTH(8)"
    with j assms show "bit (store_le (length bs) (load_le bs :: 'a word) ! j) i = bit (bs ! j) i"
      by (simp add: store_le_def bit_simps bit_load_le)
  qed
qed simp

lemma load_le_store_le_take:
  assumes "8 * k \<le> LENGTH('a)"
  shows "load_le (store_le k (w :: 'a::len word)) = take_bit (8 * k) w"
proof (rule bit_word_eqI)
  fix i
  assume "i < LENGTH('a)"
  then show "bit (load_le (store_le k w) :: 'a word) i = bit (take_bit (8 * k) w) i"
    by (cases "i div 8 < k") (auto simp: bit_load_le store_le_def bit_simps div_less_iff_less_mult mult.commute)
qed

text \<open>The accesses of the widths the sources use, at a byte offset of a memory.\<close>

definition load8 :: "nat \<Rightarrow> bytes \<Rightarrow> uint8" where
  "load8 off bs = load_le (take 1 (drop off bs))"

definition load16 :: "nat \<Rightarrow> bytes \<Rightarrow> uint16" where
  "load16 off bs = load_le (take 2 (drop off bs))"

definition load32 :: "nat \<Rightarrow> bytes \<Rightarrow> uint32" where
  "load32 off bs = load_le (take 4 (drop off bs))"

definition load64 :: "nat \<Rightarrow> bytes \<Rightarrow> uint64" where
  "load64 off bs = load_le (take 8 (drop off bs))"

abbreviation store8 :: "uint8 \<Rightarrow> bytes" where "store8 b \<equiv> [b]"

abbreviation store16 :: "uint16 \<Rightarrow> bytes" where "store16 \<equiv> store_le 2"

abbreviation store32 :: "uint32 \<Rightarrow> bytes" where "store32 \<equiv> store_le 4"

abbreviation store64 :: "uint64 \<Rightarrow> bytes" where "store64 \<equiv> store_le 8"

lemma load_after [byteorder]:
  "length xs \<le> off \<Longrightarrow> load8 off (xs @ ys) = load8 (off - length xs) ys"
  "length xs \<le> off \<Longrightarrow> load16 off (xs @ ys) = load16 (off - length xs) ys"
  "length xs \<le> off \<Longrightarrow> load32 off (xs @ ys) = load32 (off - length xs) ys"
  "length xs \<le> off \<Longrightarrow> load64 off (xs @ ys) = load64 (off - length xs) ys"
  by (simp_all add: load8_def load16_def load32_def load64_def)

lemma load_cons [byteorder]:
  "0 < off \<Longrightarrow> load8 off (b # ys) = load8 (off - 1) ys"
  "0 < off \<Longrightarrow> load16 off (b # ys) = load16 (off - 1) ys"
  "0 < off \<Longrightarrow> load32 off (b # ys) = load32 (off - 1) ys"
  "0 < off \<Longrightarrow> load64 off (b # ys) = load64 (off - 1) ys"
  by (simp_all add: load8_def load16_def load32_def load64_def drop_Cons')

lemma load_here [byteorder]:
  "load8 0 (b # ys) = b"
  "load16 0 (store16 w16 @ ys) = w16"
  "load32 0 (store32 w32 @ ys) = w32"
  "load64 0 (store64 w64 @ ys) = w64"
  by (simp_all add: load8_def load16_def load32_def load64_def load_le_store_le)

lemma load_here_end [byteorder]:
  "load16 0 (store16 w16) = w16"
  "load32 0 (store32 w32) = w32"
  "load64 0 (store64 w64) = w64"
  by (simp_all add: load16_def load32_def load64_def load_le_store_le)

section \<open>Lists\<close>

lemma sorted_wrt_insort_step:
  assumes "sorted_wrt (\<lambda>a b. f a \<le> f b) xs"
  shows "sorted_wrt (\<lambda>a b. (f a :: 'b::linorder) \<le> f b)
           (takeWhile (\<lambda>y. f y < f x) xs @ x # dropWhile (\<lambda>y. f y < f x) xs)"
  using assms
proof (induction xs)
  case Nil
  then show ?case by simp
next
  case (Cons y ys)
  then show ?case
    by (auto dest: set_takeWhileD set_dropWhileD intro: less_imp_le order_trans)
qed

lemma set_remove1_distinct: "distinct xs \<Longrightarrow> set (remove1 x xs) = set xs - {x}"
  by (rule set_remove1_eq)

section \<open>Counting with machine words\<close>

lemma unat_lt32: "unat (w :: uint32) < 4294967296"
  using unsigned_less [of w, where 'a = nat] by simp

lemma unat_plus_one: "w \<noteq> - 1 \<Longrightarrow> unat (w + 1) = Suc (unat w)" for w :: "'a :: len word"
  by (metis add.commute add.right_inverse add_left_cancel unatSuc)

section \<open>Decimal printing\<close>

text \<open>The conversions \<^verbatim>\<open>%u\<close> and \<^verbatim>\<open>%d\<close> of a non-negative number.\<close>

fun dec :: "nat \<Rightarrow> string" where
  "dec n = (if n < 10 then [char_of (48 + n)] else dec (n div 10) @ [char_of (48 + n mod 10)])"

declare dec.simps [simp del]

lemma length_dec: "n < 10 ^ Suc k \<Longrightarrow> length (dec n) \<le> Suc k"
proof (induction k arbitrary: n)
  case 0
  then show ?case by (simp add: dec.simps)
next
  case (Suc k)
  then have "n div 10 < 10 ^ Suc k" by (simp add: less_mult_imp_div_less)
  from Suc.IH [OF this] show ?case by (subst dec.simps) auto
qed

end
