(* ===== verification/Nox_Cnode.thy ===== *)
theory Nox_Cnode
  imports Nox_Prelude
begin

unbundle bit_operations_syntax

text \<open>
  The classifier's rules and its decision tree: \<^verbatim>\<open>class Rule\<close> of \<^verbatim>\<open>src/src/include/rule.hh\<close> and
  \<^verbatim>\<open>class Cnode\<close> of \<^verbatim>\<open>src/src/include/cnode.hh\<close>.  The class template parameter \<^verbatim>\<open>Expr\<close> is the
  record \<open>expr_ops\<close> of the operations a \<open>Cnode\<close> asks of its expressions.

  Rules are heap objects shared between the tree and the classifier's \<^verbatim>\<open>Id_map\<close>.  A rule pointer
  is the rule's id, the key of the \<open>store\<close>; the store holds the object, so that a change of a
  priority or of a \<^verbatim>\<open>node\<close> pointer through one alias is seen through the other.  Nodes carry their
  address, and the operations that allocate take the next free address and return the new one.
\<close>

section \<open>Rules and the rule store\<close>

record 'e expr_ops =
  NUM_FIELDS :: nat
  LEAF_THRESHOLD :: nat
  splittable :: "'e \<Rightarrow> uint32 \<Rightarrow> bool"
  get_field :: "nat \<Rightarrow> 'e \<Rightarrow> uint32 option"

record ('e, 'a) rule =
  rule_id :: uint32
  priority :: uint32
  expr :: 'e
  action :: 'a
  node :: "nat option"

type_synonym ('e, 'a) store = "uint32 \<Rightarrow> ('e, 'a) rule option"

definition prio :: "('e, 'a) store \<Rightarrow> uint32 \<Rightarrow> uint32" where
  "prio st r = priority (the (st r))"

definition ex :: "('e, 'a) store \<Rightarrow> uint32 \<Rightarrow> 'e" where
  "ex st r = expr (the (st r))"

definition set_node :: "nat option \<Rightarrow> uint32 \<Rightarrow> ('e, 'a) store \<Rightarrow> ('e, 'a) store" where
  "set_node n r st = st(r := map_option (\<lambda>rl. rl\<lparr>node := n\<rparr>) (st r))"

section \<open>Nodes\<close>

text \<open>
  A leaf is a node with \<^verbatim>\<open>bucket_mask < 0\<close>.  An inner node has \<^verbatim>\<open>bucket_mask + 1\<close> buckets, each
  the chain of its children along their \<^verbatim>\<open>next\<close> pointers.
\<close>

datatype cnode =
    Leaf (addr: nat) (cvalue: uint32) (crules: "uint32 list")
  | Node (addr: nat) (cvalue: uint32) (crules: "uint32 list")
      (buckets: "cnode list list") (split_field: nat) (any_node: "cnode option")

definition children :: "cnode list list \<Rightarrow> cnode option \<Rightarrow> cnode list" where
  "children bs any = concat bs @ (case any of None \<Rightarrow> [] | Some c \<Rightarrow> [c])"

lemma set_children [simp]:
  "set (children bs any) = (\<Union>ch \<in> set bs. set ch) \<union> set_option any"
  by (auto simp: children_def split: option.splits)

lemma size_bucket_child [termination_simp]:
  "ch \<in> set bs \<Longrightarrow> c \<in> set ch \<Longrightarrow> size c < Suc (size_list (size_list size) bs + k)"
proof -
  assume "ch \<in> set bs" and "c \<in> set ch"
  then have "size c \<le> size_list size ch" and "size_list size ch \<le> size_list (size_list size) bs"
    by (auto intro: size_list_estimation' )
  then show ?thesis by linarith
qed

lemma size_children [termination_simp]:
  assumes "c \<in> set (children bs any)"
  shows "size c < size (Node n v rs bs f any)"
proof -
  from assms consider ch where "ch \<in> set bs" "c \<in> set ch" | "any = Some c"
    by auto
  then show ?thesis
  proof cases
    case 1
    from size_bucket_child [OF this, of "size_option size any"] show ?thesis by simp
  next
    case 2
    then show ?thesis by simp
  qed
qed

lemma cnode_induct [case_names Leaf Node]:
  assumes leaf: "\<And>n v rs. P (Leaf n v rs)"
    and node: "\<And>n v rs bs f any. (\<And>c. c \<in> set (children bs any) \<Longrightarrow> P c) \<Longrightarrow> P (Node n v rs bs f any)"
  shows "P t"
proof (induct t rule: cnode.induct)
  case (Leaf n v rs)
  show ?case by (rule leaf)
next
  case (Node n v rs bs f any)
  show ?case by (rule node) (use Node in auto)
qed

section \<open>Hashing and field masks\<close>

definition MASKS :: "nat \<Rightarrow> uint32" where
  "MASKS i = push_bit i 1"

definition get_bucket :: "uint32 \<Rightarrow> nat \<Rightarrow> nat" where
  "get_bucket v bucket_mask = unat ((v * 2654435761) AND of_nat bucket_mask)"

section \<open>Adding a rule\<close>

fun add_rule_to_list :: "('e, 'a) store \<Rightarrow> uint32 \<Rightarrow> uint32 list \<Rightarrow> uint32 list" where
  "add_rule_to_list st r [] = [r]"
| "add_rule_to_list st r (x # xs) =
     (if prio st r \<le> prio st x then r # x # xs else x # add_rule_to_list st r xs)"

text \<open>
  \<open>add_rule\<close> returns the changed node, the next free address and the address of the node that took
  the rule, which the caller stores in the rule's \<^verbatim>\<open>node\<close> pointer when \<^verbatim>\<open>set_pointer\<close> is true.
  \<open>add_rule_chain\<close> is the search along a bucket's chain; \<open>None\<close> when no child has the value.
  \<open>add_rule_buckets\<close> goes to the bucket with the given index.
\<close>

fun add_rule :: "'e expr_ops \<Rightarrow> ('e, 'a) store \<Rightarrow> uint32 \<Rightarrow> uint32 \<Rightarrow> nat \<Rightarrow> cnode \<Rightarrow> cnode \<times> nat \<times> nat"
  and add_rule_chain :: "'e expr_ops \<Rightarrow> ('e, 'a) store \<Rightarrow> uint32 \<Rightarrow> uint32 \<Rightarrow> nat \<Rightarrow> uint32 \<Rightarrow>
        cnode list \<Rightarrow> (cnode list \<times> nat \<times> nat) option"
  and add_rule_buckets :: "'e expr_ops \<Rightarrow> ('e, 'a) store \<Rightarrow> uint32 \<Rightarrow> uint32 \<Rightarrow> nat \<Rightarrow> uint32 \<Rightarrow> nat \<Rightarrow>
        cnode list list \<Rightarrow> cnode list list \<times> nat \<times> nat"
  where
  "add_rule ops st r path nx (Leaf n v rs) = (Leaf n v (add_rule_to_list st r rs), nx, n)"
| "add_rule ops st r path nx (Node n v rs bs f any) =
     (if \<not> splittable ops (ex st r) path
      then (Node n v (add_rule_to_list st r rs) bs f any, nx, n)
      else case get_field ops f (ex st r) of
        Some rv \<Rightarrow>
          (case add_rule_buckets ops st r (path OR MASKS f) nx rv (get_bucket rv (length bs - 1)) bs of
             (bs', nx', k) \<Rightarrow> (Node n v rs bs' f any, nx', k))
      | None \<Rightarrow>
          (case any of
             None \<Rightarrow> (Node n v rs bs f (Some (Leaf nx 0 (add_rule_to_list st r []))), Suc nx, nx)
           | Some c \<Rightarrow>
               (case add_rule ops st r (path OR MASKS f) nx c of
                  (c', nx', k) \<Rightarrow> (Node n v rs bs f (Some c'), nx', k))))"
| "add_rule_chain ops st r path nx rv [] = None"
| "add_rule_chain ops st r path nx rv (c # cs) =
     (if cvalue c = rv
      then (case add_rule ops st r path nx c of (c', nx', k) \<Rightarrow> Some (c' # cs, nx', k))
      else (case add_rule_chain ops st r path nx rv cs of
              None \<Rightarrow> None
            | Some (cs', nx', k) \<Rightarrow> Some (c # cs', nx', k)))"
| "add_rule_buckets ops st r path nx rv b [] = ([], nx, 0)"
| "add_rule_buckets ops st r path nx rv 0 (ch # bs) =
     (case add_rule_chain ops st r path nx rv ch of
        Some (ch', nx', k) \<Rightarrow> (ch' # bs, nx', k)
      | None \<Rightarrow> ((Leaf nx rv (add_rule_to_list st r []) # ch) # bs, Suc nx, nx))"
| "add_rule_buckets ops st r path nx rv (Suc b) (ch # bs) =
     (case add_rule_buckets ops st r path nx rv b bs of (bs', nx', k) \<Rightarrow> (ch # bs', nx', k))"

section \<open>Where the rules are\<close>

text \<open>The rules of a subtree with the address of the node that holds each, and the addresses in use.\<close>

fun placements :: "cnode \<Rightarrow> (uint32 \<times> nat) list" where
  "placements (Leaf n v rs) = map (\<lambda>r. (r, n)) rs"
| "placements (Node n v rs bs f any) =
     map (\<lambda>r. (r, n)) rs @ concat (map placements (children bs any))"

definition tree_rules :: "cnode \<Rightarrow> uint32 list" where
  "tree_rules t = map fst (placements t)"

fun addrs :: "cnode \<Rightarrow> nat list" where
  "addrs (Leaf n v rs) = [n]"
| "addrs (Node n v rs bs f any) = n # concat (map addrs (children bs any))"

section \<open>Removing a rule and changing a priority at a node\<close>

text \<open>
  Both are called through a node pointer: they act on the node of the tree with that address, and
  return \<^verbatim>\<open>false\<close> when that node does not hold the rule.
\<close>

fun update_at :: "nat \<Rightarrow> (uint32 list \<Rightarrow> uint32 list) \<Rightarrow> cnode \<Rightarrow> cnode" where
  "update_at k g (Leaf n v rs) = Leaf n v (if n = k then g rs else rs)"
| "update_at k g (Node n v rs bs f any) =
     Node n v (if n = k then g rs else rs) (map (map (update_at k g)) bs) f (map_option (update_at k g) any)"

definition set_priority :: "uint32 \<Rightarrow> uint32 \<Rightarrow> ('e, 'a) store \<Rightarrow> ('e, 'a) store" where
  "set_priority r p st = st(r := map_option (\<lambda>rl. rl\<lparr>priority := p\<rparr>) (st r))"

definition node_remove_rule ::
    "nat \<Rightarrow> uint32 \<Rightarrow> cnode \<Rightarrow> ('e, 'a) store \<Rightarrow> bool \<times> cnode \<times> ('e, 'a) store" where
  "node_remove_rule k r t st =
     (if (r, k) \<in> set (placements t)
      then (True, update_at k (remove1 r) t,
            if node (the (st r)) = Some k then set_node None r st else st)
      else (False, t, st))"

definition node_change_rule_priority ::
    "nat \<Rightarrow> uint32 \<Rightarrow> uint32 \<Rightarrow> cnode \<Rightarrow> ('e, 'a) store \<Rightarrow> bool \<times> cnode \<times> ('e, 'a) store" where
  "node_change_rule_priority k r p t st =
     (if (r, k) \<in> set (placements t)
      then (let st' = set_priority r p st
            in (True, update_at k (\<lambda>rs. add_rule_to_list st' r (remove1 r rs)) t, st'))
      else (False, t, st))"

section \<open>Choosing a field to split on\<close>

text \<open>
  \<open>grow\<close> is the loop \<^verbatim>\<open>while (n_buckets < limit) n_buckets = n_buckets << 1\<close>.  \<open>exp_loop\<close> is the loop
  of \<^verbatim>\<open>exp_rules_with_split\<close> over the rules; its state is \<open>(n_anys, n_def, n_distinct, tmp_buckets)\<close>.
\<close>

function grow :: "nat \<Rightarrow> nat \<Rightarrow> nat" where
  "grow n limit = (if 0 < n \<and> n < limit then grow (2 * n) limit else n)"
  by pat_completeness auto
termination
  by (relation "measure (\<lambda>(n, limit). limit - n)") auto

declare grow.simps [simp del]

fun exp_loop :: "'e expr_ops \<Rightarrow> ('e, 'a) store \<Rightarrow> nat \<Rightarrow> nat \<Rightarrow> nat \<times> nat \<times> nat \<times> bool list \<Rightarrow>
    uint32 list \<Rightarrow> nat \<times> nat \<times> nat \<times> bool list" where
  "exp_loop ops st field bm s [] = s"
| "exp_loop ops st field bm (n_anys, n_def, n_distinct, tmp) (r # rs) =
     (case get_field ops field (ex st r) of
        Some rv \<Rightarrow>
          (let b = get_bucket rv bm
           in exp_loop ops st field bm
                (n_anys, Suc n_def, if tmp ! b then n_distinct else Suc n_distinct, tmp[b := True]) rs)
      | None \<Rightarrow> exp_loop ops st field bm (Suc n_anys, n_def, n_distinct, tmp) rs)"

definition exp_rules_with_split ::
    "'e expr_ops \<Rightarrow> ('e, 'a) store \<Rightarrow> nat \<Rightarrow> nat \<Rightarrow> uint32 list \<Rightarrow> nat \<times> nat" where
  "exp_rules_with_split ops st field bm rs =
     (case exp_loop ops st field bm (0, 0, 0, replicate (Suc bm) False) rs of
        (n_anys, n_def, n_distinct, _) \<Rightarrow>
          (if n_distinct = 0 then n_anys else n_anys + n_def div n_distinct, n_distinct))"

text \<open>
  The loop of \<^verbatim>\<open>best_split\<close> over the fields, with state \<open>(best_field, min_rules, min_distinct)\<close>.
  \<^verbatim>\<open>MASKS\<close> is an array of 32 entries, so only fields below 32 can be tested.
\<close>

fun best_loop :: "'e expr_ops \<Rightarrow> ('e, 'a) store \<Rightarrow> uint32 \<Rightarrow> nat \<Rightarrow> uint32 list \<Rightarrow>
    nat \<times> nat \<times> nat \<Rightarrow> nat list \<Rightarrow> nat \<times> nat \<times> nat" where
  "best_loop ops st path bm rs s [] = s"
| "best_loop ops st path bm rs (best, min_rules, min_distinct) (i # is) =
     (if i < 32 \<and> path AND MASKS i = 0
      then (case exp_rules_with_split ops st i bm rs of
              (e, n_distinct) \<Rightarrow>
                if best = NUM_FIELDS ops \<or> e < min_rules
                then best_loop ops st path bm rs (i, e, n_distinct) is
                else best_loop ops st path bm rs (best, min_rules, min_distinct) is)
      else best_loop ops st path bm rs (best, min_rules, min_distinct) is)"

definition best_split :: "'e expr_ops \<Rightarrow> ('e, 'a) store \<Rightarrow> uint32 \<Rightarrow> uint32 list \<Rightarrow> nat \<times> nat \<times> nat" where
  "best_split ops st path rs =
     best_loop ops st path (grow 1 (3 * length rs) - 1) rs (NUM_FIELDS ops, 0, 0) [0..<NUM_FIELDS ops]"

section \<open>Splitting and building\<close>

fun add_rules :: "'e expr_ops \<Rightarrow> ('e, 'a) store \<Rightarrow> uint32 \<Rightarrow> nat \<Rightarrow> cnode \<Rightarrow> uint32 list \<Rightarrow> cnode \<times> nat" where
  "add_rules ops st path nx t [] = (t, nx)"
| "add_rules ops st path nx t (r # rs) =
     (case add_rule ops st r path nx t of (t', nx', _) \<Rightarrow> add_rules ops st path nx' t' rs)"

text \<open>
  \<open>split\<close> is called on a leaf.  With \<open>is_copy\<close> the leaf itself becomes an inner node
  (\<^verbatim>\<open>split_node\<close>), otherwise a new node is allocated.
\<close>

definition split :: "'e expr_ops \<Rightarrow> ('e, 'a) store \<Rightarrow> uint32 \<Rightarrow> bool \<Rightarrow> nat \<Rightarrow> nat \<Rightarrow> uint32 \<Rightarrow> uint32 list \<Rightarrow>
    cnode \<times> nat" where
  "split ops st path is_copy nx n v rs =
     (case best_split ops st path rs of
        (field, n_branch_rules, n_distinct) \<Rightarrow>
          if field = NUM_FIELDS ops \<or> length rs - n_branch_rules < LEAF_THRESHOLD ops
          then (Leaf n v rs, nx)
          else (let empty = replicate (grow 1 (3 * n_distinct)) [] in
            if is_copy then add_rules ops st path nx (Node n v [] empty field None) rs
            else add_rules ops st path (Suc nx) (Node nx v [] empty field None) rs))"

definition set_node_pointers :: "cnode \<Rightarrow> ('e, 'a) store \<Rightarrow> ('e, 'a) store" where
  "set_node_pointers t st = fold (\<lambda>(r, n). set_node (Some n) r) (placements t) st"

text \<open>The destructor: rules of a destroyed node that still point to it get a null pointer.\<close>

definition destroy :: "cnode \<Rightarrow> ('e, 'a) store \<Rightarrow> ('e, 'a) store" where
  "destroy t st =
     fold (\<lambda>(r, n) s. if node (the (s r)) = Some n then set_node None r s else s) (placements t) st"

fun map_state :: "('x \<Rightarrow> 's \<Rightarrow> 'y \<times> 's) \<Rightarrow> 'x list \<Rightarrow> 's \<Rightarrow> 'y list \<times> 's" where
  "map_state g [] s = ([], s)"
| "map_state g (x # xs) s =
     (case g x s of (y, s') \<Rightarrow> (case map_state g xs s' of (ys, s'') \<Rightarrow> (y # ys, s'')))"

lemma map_state_cong [fundef_cong]:
  assumes "xs = ys" and "s = s'" and "\<And>x s. x \<in> set ys \<Longrightarrow> g x s = h x s"
  shows "map_state g xs s = map_state h ys s'"
proof -
  from assms(3) have "map_state g ys s' = map_state h ys s'" for s'
    by (induction ys arbitrary: s') (simp_all split: prod.splits)
  with assms(1,2) show ?thesis by simp
qed

text \<open>
  \<open>build_children\<close> takes the recursive call \<open>build1\<close>.  A child that was replaced by a new node is
  destroyed, which only happens outside a copied tree.
\<close>

definition build_child ::
    "(cnode \<Rightarrow> nat \<times> ('e, 'a) store \<Rightarrow> cnode \<times> nat \<times> ('e, 'a) store) \<Rightarrow> bool \<Rightarrow>
     cnode \<Rightarrow> nat \<times> ('e, 'a) store \<Rightarrow> cnode \<times> nat \<times> ('e, 'a) store" where
  "build_child build1 is_copy c s =
     (case build1 c s of
        (c', nx, st) \<Rightarrow> (c', nx, if is_copy \<or> addr c' = addr c then st else destroy c st))"

definition build_children ::
    "(cnode \<Rightarrow> nat \<times> ('e, 'a) store \<Rightarrow> cnode \<times> nat \<times> ('e, 'a) store) \<Rightarrow> bool \<Rightarrow>
     cnode list list \<Rightarrow> cnode option \<Rightarrow> nat \<times> ('e, 'a) store \<Rightarrow>
     cnode list list \<times> cnode option \<times> nat \<times> ('e, 'a) store" where
  "build_children build1 is_copy bs any s =
     (case map_state (map_state (build_child build1 is_copy)) bs s of
        (bs', s1) \<Rightarrow>
          (case any of
             None \<Rightarrow> (bs', None, s1)
           | Some c \<Rightarrow> (case build_child build1 is_copy c s1 of (c', s2) \<Rightarrow> (bs', Some c', s2))))"

lemma build_children_cong [fundef_cong]:
  assumes "bs = bs'" and "any = any'" and "s = s'" and "cp = cp'"
    and eq: "\<And>c s. c \<in> set (children bs' any') \<Longrightarrow> g c s = h c s"
  shows "build_children g cp bs any s = build_children h cp' bs' any' s'"
proof -
  have bc: "build_child g cp' c s = build_child h cp' c s" if "c \<in> set (children bs' any')" for c s
    using eq [OF that] by (simp add: build_child_def)
  have "map_state (map_state (build_child g cp')) bs' s' = map_state (map_state (build_child h cp')) bs' s'"
    by (intro map_state_cong refl bc) auto
  then show ?thesis
    using assms(1-4) bc by (auto simp: build_children_def split: prod.splits option.splits)
qed

lemma masks_and_eq_0 [simp]: "path AND MASKS f = 0 \<longleftrightarrow> f \<ge> 32 \<or> \<not> bit path f" for path :: uint32
  using bit_imp_le_length [of path f]
  by (auto simp: MASKS_def push_bit_of_1 and_exp_eq_0_iff_not_bit)

definition free_fields :: "uint32 \<Rightarrow> nat" where
  "free_fields path = card {i. i < 32 \<and> \<not> bit path i}"

lemma free_fields_or_le: "free_fields (path OR m) \<le> free_fields path"
  unfolding free_fields_def by (rule card_mono) (auto simp: bit_simps)

lemma free_fields_less:
  assumes "f < 32" and "\<not> bit path f"
  shows "free_fields (path OR MASKS f) < free_fields path"
  unfolding free_fields_def
  by (rule psubset_card_mono) (use assms in \<open>auto simp: bit_simps MASKS_def\<close>)

lemma best_loop_field:
  assumes "best_loop ops st path bm rs (b, m, d) is = (b', m', d')"
    and "b = NUM_FIELDS ops \<or> b < 32 \<and> \<not> bit path b"
  shows "b' = NUM_FIELDS ops \<or> b' < 32 \<and> \<not> bit path b'"
  using assms
  by (induction "is" arbitrary: b m d) (auto split: if_splits prod.splits)

lemma add_rule_keeps_split:
  assumes "add_rule ops st r path nx t = (t', nx', k)"
  shows "is_Leaf t' = is_Leaf t" and "\<not> is_Leaf t \<Longrightarrow> split_field t' = split_field t"
    and "addr t' = addr t" and "cvalue t' = cvalue t"
  using assms by (cases t; auto split: if_splits option.splits prod.splits)+

lemma add_rules_keeps_split:
  assumes "add_rules ops st path nx t rs = (t', nx')"
  shows "is_Leaf t' = is_Leaf t \<and> (\<not> is_Leaf t \<longrightarrow> split_field t' = split_field t) \<and>
         addr t' = addr t \<and> cvalue t' = cvalue t"
  using assms
proof (induction rs arbitrary: t nx)
  case (Cons r rs)
  then obtain t1 nx1 k where "add_rule ops st r path nx t = (t1, nx1, k)"
    by (cases "add_rule ops st r path nx t") auto
  with Cons add_rule_keeps_split [OF this] show ?case by auto
qed auto

lemma split_Node_field:
  assumes "split ops st path is_copy nx n v rs = (Node n' v' rs' bs f any, nx')"
  shows "f < 32" and "\<not> bit path f"
proof -
  obtain b m d where b: "best_split ops st path rs = (b, m, d)"
    by (cases "best_split ops st path rs") auto
  from best_loop_field [OF this [unfolded best_split_def]]
  have "b = NUM_FIELDS ops \<or> b < 32 \<and> \<not> bit path b" by simp
  moreover from assms b have "b \<noteq> NUM_FIELDS ops" and "f = b"
    by (auto simp: split_def Let_def split: if_splits dest!: add_rules_keeps_split)
  ultimately show "f < 32" and "\<not> bit path f" by auto
qed

function build :: "'e expr_ops \<Rightarrow> uint32 \<Rightarrow> bool \<Rightarrow> cnode \<Rightarrow> nat \<times> ('e, 'a) store \<Rightarrow>
    cnode \<times> nat \<times> ('e, 'a) store" where
  "build ops path is_copy (Leaf n v rs) (nx, st) =
     (if length rs \<le> LEAF_THRESHOLD ops then (Leaf n v rs, nx, st)
      else case split ops st path is_copy nx n v rs of
        (Leaf n' v' rs', nx1) \<Rightarrow> (Leaf n' v' rs', nx1, st)
      | (Node n' v' rs' bs f any, nx1) \<Rightarrow>
          (case build_children (build ops (path OR MASKS f) True) True bs any (nx1, st) of
             (bs', any', nx2, st2) \<Rightarrow>
               (Node n' v' rs' bs' f any', nx2,
                if is_copy then st2 else set_node_pointers (Node n' v' rs' bs' f any') st2)))"
| "build ops path is_copy (Node n v rs bs f any) s =
     (case build_children (build ops (path OR MASKS f) is_copy) is_copy bs any s of
        (bs', any', nx, st) \<Rightarrow> (Node n v rs bs' f any', nx, st))"
  by pat_completeness auto
termination
proof (relation "measures [\<lambda>(ops, path, is_copy, t, s). free_fields path, \<lambda>(ops, path, is_copy, t, s). size t]",
    goal_cases)
  case 1
  show ?case by simp
next
  case (2 ops path is_copy n v rs nx st t nx1 n' v' rs' bs f any c s)
  then have "split ops st path is_copy nx n v rs = (Node n' v' rs' bs f any, nx1)" by simp
  from split_Node_field [OF this] show ?case by (simp add: free_fields_less)
next
  case (3 ops path is_copy n v rs bs f any s c s')
  then show ?case
    using free_fields_or_le [of path "MASKS f"] size_children [of c bs any n v rs f]
    by (auto simp: le_less)
qed

section \<open>Unbuilding and cleaning\<close>

text \<open>\<open>lmerge\<close> is \<^verbatim>\<open>std::list::merge\<close> with \<^verbatim>\<open>Rule::list_compare\<close>, which is stable.\<close>

definition list_compare :: "('e, 'a) store \<Rightarrow> uint32 \<Rightarrow> uint32 \<Rightarrow> bool" where
  "list_compare st a b \<longleftrightarrow> prio st a < prio st b"

fun lmerge :: "('e, 'a) store \<Rightarrow> uint32 list \<Rightarrow> uint32 list \<Rightarrow> uint32 list" where
  "lmerge st [] ys = ys"
| "lmerge st xs [] = xs"
| "lmerge st (x # xs) (y # ys) =
     (if list_compare st y x then y # lmerge st (x # xs) ys else x # lmerge st xs (y # ys))"

fun add_node_rules :: "('e, 'a) store \<Rightarrow> cnode \<Rightarrow> uint32 list \<Rightarrow> uint32 list" where
  "add_node_rules st (Leaf n v rs) acc = lmerge st acc rs"
| "add_node_rules st (Node n v rs bs f any) acc =
     fold (add_node_rules st) (children bs any) (lmerge st acc rs)"

fun unbuild :: "cnode \<Rightarrow> nat \<times> ('e, 'a) store \<Rightarrow> cnode \<times> nat \<times> ('e, 'a) store" where
  "unbuild (Leaf n v rs) (nx, st) = (Leaf n v rs, nx, st)"
| "unbuild (Node n v rs bs f any) (nx, st) =
     (let t' = Leaf nx v (add_node_rules st (Node n v rs bs f any) [])
      in (t', Suc nx, set_node_pointers t' st))"

text \<open>\<open>clean\<close> returns whether the node is empty, and the node without its empty subtrees.\<close>

fun clean :: "cnode \<Rightarrow> bool \<times> cnode" where
  "clean (Leaf n v rs) = (rs = [], Leaf n v rs)"
| "clean (Node n v rs bs f any) =
     (let bs' = map (\<lambda>ch. map snd (filter (\<lambda>p. \<not> fst p) (map clean ch))) bs;
          any' = (case any of
                    None \<Rightarrow> None
                  | Some c \<Rightarrow> (case clean c of (b, c') \<Rightarrow> if b then None else Some c'))
      in (rs = [] \<and> concat bs' = [] \<and> any' = None, Node n v rs bs' f any'))"

end
