(* ===== verification/Nox_Cnode_Inv.thy ===== *)
theory Nox_Cnode_Inv
  imports Nox_Cnode
begin

unbundle bit_operations_syntax

text \<open>
  The invariant of the classifier tree and its preservation.  \<open>wf_cnode\<close> says that every rule list is
  ordered by priority and that every rule below a child has the child's value in the field the
  parent splits on (no value below \<^verbatim>\<open>any_node\<close>).  \<open>ptr_ok\<close> says that the \<^verbatim>\<open>node\<close> pointer of every rule
  is the address of the node that holds it.
\<close>

named_theorems cnode_simps

section \<open>The invariant\<close>

definition sorted_prio :: "('e, 'a) store \<Rightarrow> uint32 list \<Rightarrow> bool" where
  "sorted_prio st rs \<longleftrightarrow> sorted (map (prio st) rs)"

definition chain_ok :: "'e expr_ops \<Rightarrow> ('e, 'a) store \<Rightarrow> nat \<Rightarrow> nat \<Rightarrow> nat \<Rightarrow> cnode list \<Rightarrow> bool" where
  "chain_ok ops st f bm i ch \<longleftrightarrow>
     distinct (map cvalue ch) \<and>
     (\<forall>c \<in> set ch. get_bucket (cvalue c) bm = i \<and>
        (\<forall>r \<in> set (tree_rules c). get_field ops f (ex st r) = Some (cvalue c)))"

fun chains_ok :: "'e expr_ops \<Rightarrow> ('e, 'a) store \<Rightarrow> nat \<Rightarrow> nat \<Rightarrow> nat \<Rightarrow> cnode list list \<Rightarrow> bool" where
  "chains_ok ops st f bm i [] = True"
| "chains_ok ops st f bm i (ch # bs) = (chain_ok ops st f bm i ch \<and> chains_ok ops st f bm (Suc i) bs)"

definition any_ok :: "'e expr_ops \<Rightarrow> ('e, 'a) store \<Rightarrow> nat \<Rightarrow> cnode option \<Rightarrow> bool" where
  "any_ok ops st f any \<longleftrightarrow>
     (\<forall>c \<in> set_option any. \<forall>r \<in> set (tree_rules c). get_field ops f (ex st r) = None)"

fun wf_cnode :: "'e expr_ops \<Rightarrow> ('e, 'a) store \<Rightarrow> cnode \<Rightarrow> bool" where
  "wf_cnode ops st (Leaf n v rs) = sorted_prio st rs"
| "wf_cnode ops st (Node n v rs bs f any) =
     (sorted_prio st rs \<and> bs \<noteq> [] \<and> chains_ok ops st f (length bs - 1) 0 bs \<and> any_ok ops st f any \<and>
      (\<forall>c \<in> set (children bs any). wf_cnode ops st c))"

fun split_fields :: "cnode \<Rightarrow> nat set" where
  "split_fields (Leaf n v rs) = {}"
| "split_fields (Node n v rs bs f any) = insert f (\<Union>c \<in> set (children bs any). split_fields c)"

definition ptr_ok :: "('e, 'a) store \<Rightarrow> cnode \<Rightarrow> bool" where
  "ptr_ok st t \<longleftrightarrow> (\<forall>(r, n) \<in> set (placements t). \<exists>rl. st r = Some rl \<and> node rl = Some n)"

definition addrs_ok :: "nat \<Rightarrow> cnode \<Rightarrow> bool" where
  "addrs_ok nx t \<longleftrightarrow> distinct (addrs t) \<and> (\<forall>a \<in> set (addrs t). a < nx)"

lemma tree_rules_simps [simp, cnode_simps]:
  "tree_rules (Leaf n v rs) = rs"
  "tree_rules (Node n v rs bs f any) = rs @ concat (map tree_rules (children bs any))"
  by (simp_all add: tree_rules_def [abs_def] map_concat comp_def)

lemma children_append [simp]:
  "children (B1 @ ch # B2) any = concat B1 @ ch @ concat B2 @ (case any of None \<Rightarrow> [] | Some c \<Rightarrow> [c])"
  by (simp add: children_def)

lemma chains_ok_append [simp]:
  "chains_ok ops st f bm i (xs @ ys) \<longleftrightarrow>
     chains_ok ops st f bm i xs \<and> chains_ok ops st f bm (i + length xs) ys"
  by (induction xs arbitrary: i) auto

lemma chains_ok_replicate [simp]: "chains_ok ops st f bm i (replicate m [])"
  by (induction m arbitrary: i) (auto simp: chain_ok_def)

lemma get_bucket_le: "get_bucket v bm \<le> bm"
proof -
  have "unat ((v * 2654435761) AND of_nat bm) \<le> unat (of_nat bm :: uint32)"
    by (simp add: word_and_le1 flip: word_le_nat_alt)
  also have "\<dots> \<le> bm"
    by (simp add: unat_of_nat)
  finally show ?thesis by (simp add: get_bucket_def)
qed

section \<open>The list of a node\<close>

lemma mset_add_rule_to_list [simp]: "mset (add_rule_to_list st r rs) = add_mset r (mset rs)"
  by (induction rs) auto

lemma set_add_rule_to_list [simp]: "set (add_rule_to_list st r rs) = insert r (set rs)"
  by (induction rs) auto

lemma sorted_add_rule_to_list [simp]:
  "sorted_prio st rs \<Longrightarrow> sorted_prio st (add_rule_to_list st r rs)"
  by (induction rs) (auto simp: sorted_prio_def)

section \<open>The cases of adding a rule\<close>

lemma add_rule_chain_cases:
  assumes "add_rule_chain ops st r path nx rv ch = res"
  obtains (miss) "res = None" and "rv \<notin> cvalue ` set ch"
  | (hit) c1 c c2 c' nx' k where "ch = c1 @ c # c2" and "cvalue c = rv"
      and "add_rule ops st r path nx c = (c', nx', k)" and "res = Some (c1 @ c' # c2, nx', k)"
proof -
  have "(res = None \<and> rv \<notin> cvalue ` set ch) \<or>
    (\<exists>c1 c c2 c' nx' k. ch = c1 @ c # c2 \<and> cvalue c = rv \<and> add_rule ops st r path nx c = (c', nx', k) \<and>
       res = Some (c1 @ c' # c2, nx', k))"
    using assms
  proof (induction ch arbitrary: res)
    case (Cons x xs)
    show ?case
    proof (cases "cvalue x = rv")
      case True
      obtain c' nx' k where *: "add_rule ops st r path nx x = (c', nx', k)"
        by (cases "add_rule ops st r path nx x") auto
      then have "x # xs = [] @ x # xs \<and> res = Some ([] @ c' # xs, nx', k)"
        using Cons.prems True by auto
      with True * show ?thesis by blast
    next
      case False
      from Cons.IH [OF refl] show ?thesis
      proof (elim disjE exE conjE)
        assume "add_rule_chain ops st r path nx rv xs = None" and "rv \<notin> cvalue ` set xs"
        then show ?thesis using False Cons.prems by auto
      next
        fix c1 c c2 c' nx' k
        assume h: "xs = c1 @ c # c2" "cvalue c = rv" "add_rule ops st r path nx c = (c', nx', k)"
          "add_rule_chain ops st r path nx rv xs = Some (c1 @ c' # c2, nx', k)"
        then have "x # xs = (x # c1) @ c # c2" and "res = Some ((x # c1) @ c' # c2, nx', k)"
          using False Cons.prems by auto
        with h show ?thesis by blast
      qed
    qed
  qed auto
  with that show ?thesis by blast
qed

lemma add_rule_buckets_nth:
  assumes "b = length B1"
  shows "add_rule_buckets ops st r path nx rv b (B1 @ ch # B2) =
     (case add_rule_chain ops st r path nx rv ch of
        Some (ch', nx', k) \<Rightarrow> (B1 @ ch' # B2, nx', k)
      | None \<Rightarrow> (B1 @ (Leaf nx rv (add_rule_to_list st r []) # ch) # B2, Suc nx, nx))"
  using assms by (induction B1 arbitrary: b) (auto split: option.splits prod.splits)

lemma add_rule_Node_cases:
  assumes "add_rule ops st r path nx (Node n v rs bs f any) = (t', nx', k)" and "bs \<noteq> []"
  obtains (own) "t' = Node n v (add_rule_to_list st r rs) bs f any" and "nx' = nx" and "k = n"
  | (miss) B1 ch B2 rv where "get_field ops f (ex st r) = Some rv" and "bs = B1 @ ch # B2"
      and "length B1 = get_bucket rv (length bs - 1)" and "rv \<notin> cvalue ` set ch"
      and "t' = Node n v rs (B1 @ (Leaf nx rv [r] # ch) # B2) f any" and "nx' = Suc nx" and "k = nx"
  | (hit) B1 c1 c c2 B2 c' where "get_field ops f (ex st r) = Some (cvalue c)"
      and "bs = B1 @ (c1 @ c # c2) # B2"
      and "length B1 = get_bucket (cvalue c) (length bs - 1)"
      and "add_rule ops st r (path OR MASKS f) nx c = (c', nx', k)"
      and "t' = Node n v rs (B1 @ (c1 @ c' # c2) # B2) f any"
  | (new_any) "get_field ops f (ex st r) = None" and "any = None"
      and "t' = Node n v rs bs f (Some (Leaf nx 0 [r]))" and "nx' = Suc nx" and "k = nx"
  | (old_any) c c' where "get_field ops f (ex st r) = None" and "any = Some c"
      and "add_rule ops st r (path OR MASKS f) nx c = (c', nx', k)"
      and "t' = Node n v rs bs f (Some c')"
proof (cases "splittable ops (ex st r) path")
  case False
  then show ?thesis by (intro own) (use assms in auto)
next
  case sp: True
  show ?thesis
  proof (cases "get_field ops f (ex st r)")
    case None
    show ?thesis
    proof (cases any)
      case None
      with sp \<open>get_field ops f (ex st r) = None\<close> show ?thesis by (intro new_any) (use assms in auto)
    next
      case (Some c)
      obtain c' nx2 k2 where "add_rule ops st r (path OR MASKS f) nx c = (c', nx2, k2)"
        by (cases "add_rule ops st r (path OR MASKS f) nx c") auto
      with sp None Some show ?thesis by (intro old_any [of c c']) (use assms in auto)
    qed
  next
    case (Some rv)
    let ?b = "get_bucket rv (length bs - 1)"
    have "?b < length bs" using get_bucket_le [of rv "length bs - 1"] assms(2) by (cases bs) auto
    then obtain B1 ch B2 where bs: "bs = B1 @ ch # B2" and b: "length B1 = ?b"
      by (metis id_take_nth_drop length_take min.absorb4)
    from sp Some assms(1) have
      "(case add_rule_buckets ops st r (path OR MASKS f) nx rv ?b (B1 @ ch # B2) of
          (bs', nx', k) \<Rightarrow> (Node n v rs bs' f any, nx', k)) = (t', nx', k)"
      by (simp add: bs)
    note step = this [unfolded add_rule_buckets_nth [OF b [symmetric]]]
    show ?thesis
    proof (cases rule: add_rule_chain_cases [OF refl, of ops st r "path OR MASKS f" nx rv ch])
      case 1
      with step show ?thesis by (intro miss [OF Some bs b]) auto
    next
      case (2 c1 c c2 c' nx2 k2)
      with step show ?thesis
        by (intro hit [of c B1 c1 c2 B2 c']) (use Some bs b in auto)
    qed
  qed
qed

section \<open>Adding a rule keeps the invariant\<close>

lemma add_rule_placements:
  assumes "add_rule ops st r path nx t = (t', nx', k)" and "wf_cnode ops st t"
  shows "mset (placements t') = add_mset (r, k) (mset (placements t))"
  using assms
proof (induction t arbitrary: path t' nx' k rule: cnode_induct)
  case (Node n v rs bs f any)
  from Node.prems(2) have "bs \<noteq> []" by simp
  with Node.prems(1) show ?case
  proof (cases rule: add_rule_Node_cases)
    case (hit B1 c1 c c2 B2 c')
    from hit(2) Node.prems(2) have "mset (placements c') = add_mset (r, k) (mset (placements c))"
      by (intro Node.IH [OF _ hit(4)]) auto
    with hit(2,5) show ?thesis by simp
  next
    case (old_any c c')
    then have "mset (placements c') = add_mset (r, k) (mset (placements c))"
      using Node.IH [of c] Node.prems(2) by auto
    with old_any show ?thesis by (simp add: children_def)
  qed (simp_all add: children_def image_mset.compositionality split: option.splits)
qed auto

lemma add_rule_addrs:
  assumes "add_rule ops st r path nx t = (t', nx', k)" and "wf_cnode ops st t"
  shows "nx' = nx \<and> mset (addrs t') = mset (addrs t) \<or>
         nx' = Suc nx \<and> mset (addrs t') = add_mset nx (mset (addrs t))"
  using assms
proof (induction t arbitrary: path t' nx' k rule: cnode_induct)
  case (Node n v rs bs f any)
  from Node.prems(2) have "bs \<noteq> []" by simp
  with Node.prems(1) show ?case
  proof (cases rule: add_rule_Node_cases)
    case (hit B1 c1 c c2 B2 c')
    from Node.IH [OF _ hit(4)] hit(2) Node.prems(2)
    consider "nx' = nx" "mset (addrs c') = mset (addrs c)"
      | "nx' = Suc nx" "mset (addrs c') = add_mset nx (mset (addrs c))" by auto
    then show ?thesis by cases (simp_all add: hit(2,5))
  next
    case (old_any c c')
    from Node.IH [OF _ old_any(3)] old_any(2) Node.prems(2)
    consider "nx' = nx" "mset (addrs c') = mset (addrs c)"
      | "nx' = Suc nx" "mset (addrs c') = add_mset nx (mset (addrs c))" by auto
    then show ?thesis by cases (simp_all add: old_any(2,4) children_def)
  qed (simp_all add: children_def split: option.splits)
qed auto

lemma add_rule_split_fields:
  assumes "add_rule ops st r path nx t = (t', nx', k)" and "wf_cnode ops st t"
  shows "split_fields t' = split_fields t"
  using assms
proof (induction t arbitrary: path t' nx' k rule: cnode_induct)
  case (Node n v rs bs f any)
  from Node.prems(2) have "bs \<noteq> []" by simp
  with Node.prems(1) show ?case
  proof (cases rule: add_rule_Node_cases)
    case (hit B1 c1 c c2 B2 c')
    from hit(2) Node.prems(2) have "split_fields c' = split_fields c" by (intro Node.IH [OF _ hit(4)]) auto
    with hit(2,5) show ?thesis by simp
  next
    case (old_any c c')
    with Node.prems(2) have "split_fields c' = split_fields c" by (intro Node.IH [OF _ old_any(3)]) auto
    with old_any(2,4) show ?thesis by simp
  qed simp_all
qed auto

lemma tree_rules_placements:
  "mset (placements t') = add_mset (r, k) (mset (placements t)) \<Longrightarrow>
     mset (tree_rules t') = add_mset r (mset (tree_rules t))"
  by (simp add: tree_rules_def)

lemma add_rule_tree_rules:
  assumes "add_rule ops st r path nx t = (t', nx', k)" and "wf_cnode ops st t"
  shows "set (tree_rules t') = insert r (set (tree_rules t))"
  using tree_rules_placements [OF add_rule_placements [OF assms]]
  by (metis set_mset_add_mset_insert set_mset_mset)

lemma chain_ok_update:
  assumes "chain_ok ops st f bm i (c1 @ c # c2)" and "cvalue c' = cvalue c"
    and "\<forall>r \<in> set (tree_rules c'). get_field ops f (ex st r) = Some (cvalue c)"
  shows "chain_ok ops st f bm i (c1 @ c' # c2)"
  using assms unfolding chain_ok_def by auto

lemma add_rule_wf:
  assumes "add_rule ops st r path nx t = (t', nx', k)" and "wf_cnode ops st t"
  shows "wf_cnode ops st t'"
  using assms
proof (induction t arbitrary: path t' nx' k rule: cnode_induct)
  case (Node n v rs bs f any)
  note wf_bs = Node.prems(2)
  from wf_bs have "bs \<noteq> []" by simp
  with Node.prems(1) show ?case
  proof (cases rule: add_rule_Node_cases)
    case own
    with wf_bs show ?thesis by simp
  next
    case (miss B1 ch B2 rv)
    from wf_bs have "chain_ok ops st f (length bs - 1) (length B1) ch" by (simp add: miss(2))
    with miss(1,3,4) have "chain_ok ops st f (length bs - 1) (length B1) (Leaf nx rv [r] # ch)"
      by (simp add: chain_ok_def)
    with wf_bs show ?thesis by (auto simp: miss(2,5) sorted_prio_def)
  next
    case (hit B1 c1 c c2 B2 c')
    from wf_bs have wf: "wf_cnode ops st c" by (simp add: hit(2))
    have c': "wf_cnode ops st c'" by (rule Node.IH [OF _ hit(4) wf]) (simp add: hit(2))
    have c'_rules: "set (tree_rules c') = insert r (set (tree_rules c))"
      using hit(4) wf by (rule add_rule_tree_rules)
    from wf_bs have ch: "chain_ok ops st f (length bs - 1) (length B1) (c1 @ c # c2)" by (simp add: hit(2))
    then have "chain_ok ops st f (length bs - 1) (length B1) (c1 @ c' # c2)"
      by (rule chain_ok_update) (use c'_rules hit(1) ch add_rule_keeps_split(4) [OF hit(4)] in \<open>auto simp: chain_ok_def\<close>)
    with wf_bs c' show ?thesis by (auto simp: hit(2,5))
  next
    case new_any
    with wf_bs show ?thesis by (auto simp: any_ok_def sorted_prio_def)
  next
    case (old_any c c')
    from wf_bs have wf: "wf_cnode ops st c" by (simp add: old_any(2))
    have c': "wf_cnode ops st c'" by (rule Node.IH [OF _ old_any(3) wf]) (simp add: old_any(2))
    have "set (tree_rules c') = insert r (set (tree_rules c))"
      using old_any(3) wf by (rule add_rule_tree_rules)
    with wf_bs c' old_any(1) show ?thesis by (auto simp: any_ok_def old_any(2,4))
  qed
qed auto

lemma add_rule_root_addr: "add_rule ops st r path nx t = (t', nx', k) \<Longrightarrow> addr t' = addr t"
  by (rule add_rule_keeps_split(3))

text \<open>The node that takes the rule is in the tree or is the new one.\<close>

lemma add_rule_addrs_ok:
  assumes "add_rule ops st r path nx t = (t', nx', k)" and "wf_cnode ops st t" and "addrs_ok nx t"
  shows "addrs_ok nx' t'" and "nx \<le> nx'"
proof -
  have "distinct (addrs t')"
    using add_rule_addrs [OF assms(1,2)] assms(3) unfolding addrs_ok_def
    by (auto dest: mset_eq_imp_distinct_iff) (metis distinct.simps(2) less_irrefl mset.simps(2) mset_eq_imp_distinct_iff)
  moreover have "\<forall>a \<in> set (addrs t'). a < nx'"
    using add_rule_addrs [OF assms(1,2)] assms(3) unfolding addrs_ok_def
    by (metis insert_iff less_Suc_eq set_mset_add_mset_insert set_mset_mset)
  ultimately show "addrs_ok nx' t'" by (simp add: addrs_ok_def)
  show "nx \<le> nx'" using add_rule_addrs [OF assms(1,2)] by auto
qed

lemma add_rules_props:
  assumes "add_rules ops st path nx t rs = (t', nx')" and "wf_cnode ops st t" and "addrs_ok nx t"
  shows "wf_cnode ops st t' \<and> mset (tree_rules t') = mset rs + mset (tree_rules t) \<and>
    split_fields t' = split_fields t \<and> addrs_ok nx' t' \<and> nx \<le> nx' \<and>
    set (addrs t') \<subseteq> set (addrs t) \<union> {nx..<nx'}"
  using assms
proof (induction rs arbitrary: t nx)
  case (Cons r rs)
  obtain t1 nx1 k where *: "add_rule ops st r path nx t = (t1, nx1, k)"
    by (cases "add_rule ops st r path nx t") auto
  with Cons.prems have "add_rules ops st path nx1 t1 rs = (t', nx')" by simp
  note IH = Cons.IH [OF this add_rule_wf [OF * Cons.prems(2)] add_rule_addrs_ok(1) [OF * Cons.prems(2,3)]]
  have a: "set (addrs t1) \<subseteq> set (addrs t) \<union> {nx..<nx1}"
    using add_rule_addrs [OF * Cons.prems(2)]
    by (metis Un_insert_right atLeastLessThan_singleton insert_is_Un set_mset_add_mset_insert
        set_mset_mset subset_refl sup.cobounded1 sup_commute)
  from IH a add_rule_addrs_ok(2) [OF * Cons.prems(2,3)] add_rule_split_fields [OF * Cons.prems(2)]
    tree_rules_placements [OF add_rule_placements [OF * Cons.prems(2)]]
  show ?case by fastforce
qed auto

section \<open>Stores that differ in node pointers only\<close>

definition same_rules :: "('e, 'a) store \<Rightarrow> ('e, 'a) store \<Rightarrow> bool" where
  "same_rules st st' \<longleftrightarrow>
     (\<forall>r. map_option (\<lambda>rl. rl\<lparr>node := None\<rparr>) (st' r) = map_option (\<lambda>rl. rl\<lparr>node := None\<rparr>) (st r))"

lemma same_rules_refl [simp]: "same_rules st st"
  by (simp add: same_rules_def)

lemma same_rules_trans: "same_rules st st' \<Longrightarrow> same_rules st' st'' \<Longrightarrow> same_rules st st''"
  by (simp add: same_rules_def)

lemma same_rules_set_node [simp]: "same_rules st (set_node n r st)"
  by (cases "st r") (auto simp: same_rules_def set_node_def)

lemma same_rules_fold:
  "(\<And>x s. same_rules s (g x s)) \<Longrightarrow> same_rules st (fold g xs st)"
proof (induction xs arbitrary: st)
  case (Cons x xs)
  from Cons.prems have "same_rules st (g x st)" .
  moreover from Cons have "same_rules (g x st) (fold g xs (g x st))" by simp
  ultimately show ?case by (simp add: same_rules_trans [of st "g x st"])
qed simp

lemma same_rules_ptrs [simp]: "same_rules st (set_node_pointers t st)"
  unfolding set_node_pointers_def by (rule same_rules_fold) (simp split: prod.split)

lemma same_rules_dom: "same_rules st st' \<Longrightarrow> dom st' = dom st"
proof -
  assume s: "same_rules st st'"
  have "st' r = None \<longleftrightarrow> st r = None" for r
    using s [unfolded same_rules_def, rule_format, of r] by (cases "st r"; cases "st' r") simp_all
  then show ?thesis by (simp add: dom_def)
qed

lemma rule_node_upd_eq:
  "b\<lparr>node := None\<rparr> = a\<lparr>node := None\<rparr> \<Longrightarrow> priority b = priority a \<and> expr b = expr a" for a b :: "('e, 'a) rule"
  by (cases a; cases b) simp

lemma same_rules_sel:
  assumes "same_rules st st'"
  shows "prio st' = prio st" and "ex st' = ex st"
proof -
  have "prio st' r = prio st r \<and> ex st' r = ex st r" for r
    using assms [unfolded same_rules_def, rule_format, of r]
    by (cases "st r"; cases "st' r") (auto simp: prio_def ex_def dest: rule_node_upd_eq)
  then show "prio st' = prio st" and "ex st' = ex st" by auto
qed

lemma chains_ok_cong: "ex st' = ex st \<Longrightarrow> chains_ok ops st' f bm i bs = chains_ok ops st f bm i bs"
  by (induction bs arbitrary: i) (auto simp: chain_ok_def)

lemma wf_cnode_cong:
  "prio st' = prio st \<Longrightarrow> ex st' = ex st \<Longrightarrow> wf_cnode ops st' t = wf_cnode ops st t"
  by (induction t rule: cnode_induct) (simp_all add: sorted_prio_def any_ok_def chains_ok_cong [of st' st])

lemma wf_cnode_same: "same_rules st st' \<Longrightarrow> wf_cnode ops st' t = wf_cnode ops st t"
  by (rule wf_cnode_cong) (auto dest: same_rules_sel)

lemma placements_addrs: "(r, n) \<in> set (placements t) \<Longrightarrow> n \<in> set (addrs t)"
  by (induction t rule: cnode_induct) auto

lemma placements_rules: "(r, n) \<in> set (placements t) \<Longrightarrow> r \<in> set (tree_rules t)"
  by (force simp: tree_rules_def)

lemma rules_placements: "r \<in> set (tree_rules t) \<Longrightarrow> \<exists>n. (r, n) \<in> set (placements t)"
  by (auto simp: tree_rules_def)

lemma ptr_ok_frame: "(\<And>r. r \<in> set (tree_rules t) \<Longrightarrow> st' r = st r) \<Longrightarrow> ptr_ok st' t = ptr_ok st t"
  unfolding ptr_ok_def by (rule ball_cong) (auto dest!: placements_rules)

lemma destroy_noop:
  assumes "\<And>r n. (r, n) \<in> set (placements t) \<Longrightarrow> node (the (st r)) \<noteq> Some n"
  shows "destroy t st = st"
proof -
  have "fold (\<lambda>(r, n) s. if node (the (s r)) = Some n then set_node None r s else s) ps st = st"
    if "\<And>r n. (r, n) \<in> set ps \<Longrightarrow> node (the (st r)) \<noteq> Some n" for ps
    using that by (induction ps) auto
  with assms show ?thesis by (simp add: destroy_def)
qed

lemma fold_set_node_frame:
  "r \<notin> fst ` set ps \<Longrightarrow> fold (\<lambda>(r, n). set_node (Some n) r) ps st r = st r"
  by (induction ps arbitrary: st) (auto simp: set_node_def)

lemma set_node_pointers_frame: "r \<notin> set (tree_rules t) \<Longrightarrow> set_node_pointers t st r = st r"
  by (simp add: set_node_pointers_def tree_rules_def fold_set_node_frame)

lemma fold_set_node_ptr:
  assumes "distinct (map fst ps)" and "(r, n) \<in> set ps" and "st r \<noteq> None"
  shows "\<exists>rl. fold (\<lambda>(r, n). set_node (Some n) r) ps st r = Some rl \<and> node rl = Some n"
  using assms
proof (induction ps arbitrary: st)
  case (Cons p ps)
  show ?case
  proof (cases "p = (r, n)")
    case True
    with Cons.prems(1) have "r \<notin> fst ` set ps" by auto
    then have "fold (\<lambda>(r, n). set_node (Some n) r) (p # ps) st r = set_node (Some n) r st r"
      by (simp add: True fold_set_node_frame)
    also have "\<dots> = Some ((the (st r))\<lparr>node := Some n\<rparr>)"
      using Cons.prems(3) by (auto simp: set_node_def)
    finally show ?thesis by simp
  next
    case False
    with Cons.prems have "(r, n) \<in> set ps" by auto
    moreover have "(case p of (r, n) \<Rightarrow> set_node (Some n) r) st r \<noteq> None"
      using Cons.prems(3) by (cases p) (auto simp: set_node_def)
    ultimately show ?thesis using Cons by simp
  qed
qed simp

lemma set_node_pointers_ptr_ok:
  assumes "distinct (tree_rules t)" and "\<And>r. r \<in> set (tree_rules t) \<Longrightarrow> st r \<noteq> None"
  shows "ptr_ok (set_node_pointers t st) t"
  unfolding ptr_ok_def
proof (clarsimp)
  fix r n
  assume "(r, n) \<in> set (placements t)"
  then show "\<exists>rl. set_node_pointers t st r = Some rl \<and> node rl = Some n"
    using assms placements_rules [OF \<open>(r, n) \<in> _\<close>]
    unfolding set_node_pointers_def tree_rules_def by (intro fold_set_node_ptr) auto
qed

section \<open>The field a node is split on\<close>

lemma grow_power: "\<exists>k. grow (2 ^ j) l = 2 ^ k"
proof (induction "(2::nat) ^ j" l arbitrary: j rule: grow.induct)
  case (1 l)
  then show ?case
    by (subst grow.simps) (metis power_Suc zero_less_numeral zero_less_power)
qed

lemma grow_bounds:
  "0 < n \<Longrightarrow> l \<le> grow n l \<and> (grow n l = n \<or> grow n l < 2 * l)"
proof (induction n l rule: grow.induct)
  case (1 n l)
  then show ?case using grow.simps [of n l] by (cases "n < l") auto
qed

lemma exp_loop_counts:
  assumes "exp_loop ops st field bm (n_anys, n_def, n_distinct, tmp) rs = (a, d, k, tmp')"
    and "n_distinct \<le> n_def"
  shows "a + d = n_anys + n_def + length rs \<and> k \<le> d \<and>
    ((\<forall>r \<in> set rs. get_field ops field (ex st r) = None) \<longrightarrow> k = n_distinct \<and> d = n_def)"
  using assms
proof (induction rs arbitrary: n_anys n_def n_distinct tmp)
  case (Cons r rs)
  show ?case
  proof (cases "get_field ops field (ex st r)")
    case None
    with Cons.IH [of "Suc n_anys" n_def n_distinct tmp] Cons.prems show ?thesis by auto
  next
    case (Some rv)
    let ?b = "get_bucket rv bm"
    let ?k = "if tmp ! ?b then n_distinct else Suc n_distinct"
    from Some Cons.prems(1) have "exp_loop ops st field bm (n_anys, Suc n_def, ?k, tmp[?b := True]) rs = (a, d, k, tmp')"
      by (simp add: Let_def)
    from Cons.IH [OF this] Cons.prems(2) Some show ?thesis by auto
  qed
qed auto

lemma exp_rules_with_split_bound:
  assumes "exp_rules_with_split ops st field bm rs = (e, k)"
  shows "e \<le> length rs"
    and "(\<forall>r \<in> set rs. get_field ops field (ex st r) = None) \<Longrightarrow> e = length rs"
proof -
  obtain a d k' tmp' where l: "exp_loop ops st field bm (0, 0, 0, replicate (Suc bm) False) rs = (a, d, k', tmp')"
    by (metis prod_cases4)
  note c = exp_loop_counts [OF l]
  from assms l have e: "e = (if k' = 0 then a else a + d div k')"
    by (auto simp: exp_rules_with_split_def simp del: replicate_Suc split: if_splits)
  have "d div k' \<le> d" by (rule div_le_dividend)
  moreover have "a + d = length rs" using c by simp
  ultimately show "e \<le> length rs" unfolding e by (simp only: split: if_split) linarith
  show "(\<forall>r \<in> set rs. get_field ops field (ex st r) = None) \<Longrightarrow> e = length rs" using c e by simp
qed

lemma best_loop_exp:
  assumes "best_loop ops st path bm rs (b, m, d) is = (b', m', d')"
    and "b = NUM_FIELDS ops \<or> b < NUM_FIELDS ops \<and> exp_rules_with_split ops st b bm rs = (m, d)"
    and "\<forall>i \<in> set is. i < NUM_FIELDS ops"
  shows "b' = NUM_FIELDS ops \<or> b' < NUM_FIELDS ops \<and> exp_rules_with_split ops st b' bm rs = (m', d')"
  using assms
proof (induction "is" arbitrary: b m d)
  case (Cons i "is")
  then show ?case by (cases "exp_rules_with_split ops st i bm rs") (auto split: if_splits)
qed auto

text \<open>The heuristic's average is at most the number of rules, so the savings never wrap around.\<close>

lemma best_split_exp:
  assumes "best_split ops st path rs = (b, m, d)" and "b \<noteq> NUM_FIELDS ops"
  shows "b < NUM_FIELDS ops \<and> m \<le> length rs \<and>
    (m < length rs \<longrightarrow> (\<exists>r \<in> set rs. get_field ops b (ex st r) \<noteq> None))"
proof -
  from best_loop_exp [OF assms(1) [unfolded best_split_def]] assms(2)
  have "b < NUM_FIELDS ops" and "exp_rules_with_split ops st b (grow 1 (3 * length rs) - 1) rs = (m, d)" by auto
  with exp_rules_with_split_bound [OF this(2)] show ?thesis by force
qed

lemma split_Node_defined:
  assumes "split ops st path cp nx n v rs = (Node n' v' rs' bs f any, nx')" and "0 < LEAF_THRESHOLD ops"
  shows "f < NUM_FIELDS ops" and "\<exists>r \<in> set rs. get_field ops f (ex st r) \<noteq> None"
proof -
  obtain b m d where bs: "best_split ops st path rs = (b, m, d)" by (cases "best_split ops st path rs")
  with assms have "b \<noteq> NUM_FIELDS ops" and "f = b" and "\<not> length rs - m < LEAF_THRESHOLD ops"
    by (auto simp: split_def Let_def split: if_splits dest!: add_rules_keeps_split)
  with best_split_exp [OF bs] assms(2) show "f < NUM_FIELDS ops" and "\<exists>r \<in> set rs. get_field ops f (ex st r) \<noteq> None"
    by auto
qed

section \<open>Building keeps the invariant\<close>

text \<open>
  \<open>forest_ok\<close> is the invariant of a list of siblings, the pointers included unless the trees are
  copies.  \<open>built\<close> relates the siblings and the state before and after building.
\<close>

definition forest_ok :: "'e expr_ops \<Rightarrow> bool \<Rightarrow> nat \<Rightarrow> ('e, 'a) store \<Rightarrow> cnode list \<Rightarrow> bool" where
  "forest_ok ops cp nx st cs \<longleftrightarrow>
     (\<forall>c \<in> set cs. wf_cnode ops st c) \<and> distinct (concat (map addrs cs)) \<and>
     (\<forall>a \<in> set (concat (map addrs cs)). a < nx) \<and> distinct (concat (map tree_rules cs)) \<and>
     (\<not> cp \<longrightarrow> (\<forall>c \<in> set cs. ptr_ok st c))"

definition same_node :: "cnode \<Rightarrow> cnode \<Rightarrow> bool" where
  "same_node c c' \<longleftrightarrow> cvalue c' = cvalue c \<and> mset (tree_rules c') = mset (tree_rules c)"

text \<open>A build only splits on fields that some rule of the tree defines.\<close>

definition defd :: "'e expr_ops \<Rightarrow> ('e, 'a) store \<Rightarrow> cnode list \<Rightarrow> nat set" where
  "defd ops st cs =
     {f. f < NUM_FIELDS ops \<and> (\<exists>r \<in> set (concat (map tree_rules cs)). get_field ops f (ex st r) \<noteq> None)}"

definition all_splits :: "cnode list \<Rightarrow> nat set" where
  "all_splits cs = (\<Union>c \<in> set cs. split_fields c)"

definition new_splits_ok :: "'e expr_ops \<Rightarrow> ('e, 'a) store \<Rightarrow> cnode list \<Rightarrow> cnode list \<Rightarrow> bool" where
  "new_splits_ok ops st cs cs' \<longleftrightarrow>
     (0 < LEAF_THRESHOLD ops \<longrightarrow> all_splits cs' \<subseteq> all_splits cs \<union> defd ops st cs)"

definition built :: "'e expr_ops \<Rightarrow> bool \<Rightarrow> nat \<Rightarrow> ('e, 'a) store \<Rightarrow> cnode list \<Rightarrow>
    nat \<Rightarrow> ('e, 'a) store \<Rightarrow> cnode list \<Rightarrow> bool" where
  "built ops cp nx st cs nx' st' cs' \<longleftrightarrow>
     list_all2 same_node cs cs' \<and> forest_ok ops cp nx' st' cs' \<and> nx \<le> nx' \<and>
     set (concat (map addrs cs')) \<subseteq> set (concat (map addrs cs)) \<union> {nx..<nx'} \<and>
     same_rules st st' \<and> (\<forall>r. r \<notin> set (concat (map tree_rules cs)) \<longrightarrow> st' r = st r) \<and>
     (cp \<longrightarrow> st' = st) \<and> new_splits_ok ops st cs cs'"

lemma same_node_rules:
  "list_all2 same_node cs cs' \<Longrightarrow> mset (concat (map tree_rules cs')) = mset (concat (map tree_rules cs))"
  by (induction cs cs' rule: list_all2_induct) (auto simp: same_node_def)

lemma same_node_set:
  "list_all2 same_node cs cs' \<Longrightarrow> set (concat (map tree_rules cs')) = set (concat (map tree_rules cs))"
  using same_node_rules by (metis set_mset_mset)

lemma new_splits_refl [simp]: "new_splits_ok ops st cs cs"
  by (simp add: new_splits_ok_def)

lemma defd_same: "same_rules st st' \<Longrightarrow> list_all2 same_node cs cs' \<Longrightarrow> defd ops st' cs' = defd ops st cs"
  by (simp add: defd_def same_node_set same_rules_sel del: set_concat)

lemma new_splits_trans:
  assumes "new_splits_ok ops st cs cs1" and "new_splits_ok ops st1 cs1 cs2"
    and "same_rules st st1" and "list_all2 same_node cs cs1"
  shows "new_splits_ok ops st cs cs2"
  using assms(1,2) defd_same [OF assms(3,4), of ops] by (auto simp: new_splits_ok_def)

lemma splits_append:
  "all_splits (cs @ ds) = all_splits cs \<union> all_splits ds" "defd ops st (cs @ ds) = defd ops st cs \<union> defd ops st ds"
  by (auto simp: all_splits_def defd_def)

lemma new_splits_append:
  assumes "new_splits_ok ops st cs cs'" and "new_splits_ok ops st1 ds ds'" and "same_rules st st1"
  shows "new_splits_ok ops st (cs @ ds) (cs' @ ds')"
proof -
  have "defd ops st1 ds = defd ops st ds" by (simp add: defd_def same_rules_sel [OF assms(3)])
  with assms(1,2) show ?thesis by (auto simp: new_splits_ok_def splits_append)
qed

lemma splits_Node:
  "all_splits [Node n v rs bs f any] = insert f (all_splits (children bs any))"
  "defd ops st (children bs any) \<subseteq> defd ops st [Node n v rs bs f any]"
  by (auto simp: all_splits_def defd_def simp del: set_children)

lemma new_splits_Node:
  "new_splits_ok ops st (children bs any) (children bs' any') \<Longrightarrow>
     new_splits_ok ops st [Node n v rs bs f any] [Node n v rs bs' f any']"
  using splits_Node(2) [of ops st bs any n v rs f] by (auto simp: new_splits_ok_def splits_Node(1))

lemma forest_ok_append:
  "forest_ok ops cp nx st (cs @ ds) \<longleftrightarrow> forest_ok ops cp nx st cs \<and> forest_ok ops cp nx st ds \<and>
     set (concat (map addrs cs)) \<inter> set (concat (map addrs ds)) = {} \<and>
     set (concat (map tree_rules cs)) \<inter> set (concat (map tree_rules ds)) = {}"
  unfolding forest_ok_def by (auto simp del: set_concat)

lemma forest_ok_frame:
  assumes "forest_ok ops cp nx st cs" and "same_rules st st'" and "nx \<le> nx'"
    and "\<And>r. r \<in> set (concat (map tree_rules cs)) \<Longrightarrow> st' r = st r"
  shows "forest_ok ops cp nx' st' cs"
proof -
  have "ptr_ok st' c = ptr_ok st c" if "c \<in> set cs" for c
    by (rule ptr_ok_frame) (use assms(4) that in auto)
  moreover have "wf_cnode ops st' c = wf_cnode ops st c" for c
    using assms(2) by (rule wf_cnode_same)
  ultimately show ?thesis
    using assms(1,3) unfolding forest_ok_def by (auto simp del: set_concat intro: less_le_trans)
qed

lemma built_Nil [simp]: "built ops cp nx st [] nx st []"
  by (simp add: built_def forest_ok_def)

lemma interval_disjoint:
  fixes n n1 n2 :: nat
  assumes "X \<subseteq> A \<union> {n..<n1}" and "Y \<subseteq> B \<union> {n1..<n2}" and "A \<inter> B = {}"
    and "\<forall>a \<in> A \<union> B. a < n" and "n \<le> n1"
  shows "X \<inter> Y = {}"
proof (rule equals0I)
  fix x
  assume "x \<in> X \<inter> Y"
  with assms(1,2) have "x \<in> A \<or> n \<le> x \<and> x < n1" and "x \<in> B \<or> n1 \<le> x" by auto
  moreover from assms(3,4) have "x \<in> A \<Longrightarrow> x < n \<and> x \<notin> B" and "x \<in> B \<Longrightarrow> x < n" by auto
  ultimately show False using assms(5) by linarith
qed

lemma built_append:
  assumes ok: "forest_ok ops cp nx st (cs @ ds)"
    and b1: "built ops cp nx st cs nx1 st1 cs'" and b2: "built ops cp nx1 st1 ds nx2 st2 ds'"
  shows "built ops cp nx st (cs @ ds) nx2 st2 (cs' @ ds')"
proof -
  let ?A = "\<lambda>cs. set (concat (map addrs cs))" and ?R = "\<lambda>cs. set (concat (map tree_rules cs))"
  from ok have disj: "?A cs \<inter> ?A ds = {}" "?R cs \<inter> ?R ds = {}" and lt: "\<forall>a \<in> ?A cs \<union> ?A ds. a < nx"
    unfolding forest_ok_append by (auto simp: forest_ok_def simp del: set_concat)
  from b1 b2 have R: "?R cs' = ?R cs" "?R ds' = ?R ds"
    by (auto simp: built_def simp del: set_concat dest!: same_node_set)
  from b1 b2 have A: "?A cs' \<subseteq> ?A cs \<union> {nx..<nx1}" "?A ds' \<subseteq> ?A ds \<union> {nx1..<nx2}" "nx \<le> nx1" "nx1 \<le> nx2"
    by (auto simp: built_def simp del: set_concat)
  have "?A cs' \<inter> ?A ds' = {}" using A(1,2) disj(1) lt A(3) by (rule interval_disjoint)
  moreover have "forest_ok ops cp nx2 st2 cs'"
    by (rule forest_ok_frame [of ops cp nx1 st1])
      (use b1 b2 R disj(2) in \<open>auto simp: built_def simp del: set_concat\<close>)
  ultimately have "forest_ok ops cp nx2 st2 (cs' @ ds')"
    using b2 disj(2) R unfolding forest_ok_append by (simp add: built_def del: set_concat)
  moreover have "?A (cs' @ ds') \<subseteq> ?A (cs @ ds) \<union> {nx..<nx2}"
    using A by (auto simp del: set_concat)
  moreover have "new_splits_ok ops st (cs @ ds) (cs' @ ds')"
    using b1 b2 unfolding built_def by (blast intro: new_splits_append)
  ultimately show ?thesis
    using b1 b2 unfolding built_def
    by (auto simp del: set_concat intro: list_all2_appendI same_rules_trans)
qed

lemma built_map_state:
  assumes "forest_ok ops cp nx st cs" and "map_state g cs (nx, st) = (cs', nx', st')"
    and step: "\<And>c nx st c' nx' st'. c \<in> set cs \<Longrightarrow> forest_ok ops cp nx st [c] \<Longrightarrow>
      g c (nx, st) = (c', nx', st') \<Longrightarrow> built ops cp nx st [c] nx' st' [c']"
  shows "built ops cp nx st cs nx' st' cs'"
  using assms
proof (induction cs arbitrary: nx st cs')
  case (Cons c cs)
  from Cons.prems(2) obtain c1 nx1 st1 cs1 where
    g: "g c (nx, st) = (c1, nx1, st1)" and m: "map_state g cs (nx1, st1) = (cs1, nx', st')"
    and cs': "cs' = c1 # cs1"
    by (auto split: prod.splits)
  from Cons.prems(1) have ok: "forest_ok ops cp nx st ([c] @ cs)" by simp
  then have "forest_ok ops cp nx st [c]" by (simp add: forest_ok_append del: append.simps)
  from Cons.prems(3) [OF _ this g] have b1: "built ops cp nx st [c] nx1 st1 [c1]" by simp
  have "forest_ok ops cp nx1 st1 cs"
    by (rule forest_ok_frame [of ops cp nx st])
      (use b1 ok in \<open>auto simp: built_def forest_ok_append simp del: append.simps set_concat\<close>)
  from Cons.IH [OF this m] Cons.prems(3) have "built ops cp nx1 st1 cs nx' st' cs1" by simp
  from built_append [OF ok b1 this] show ?case by (simp add: cs')
qed auto

lemma map_state_append:
  "map_state g (xs @ ys) s =
     (case map_state g xs s of (xs', s1) \<Rightarrow> (case map_state g ys s1 of (ys', s2) \<Rightarrow> (xs' @ ys', s2)))"
  by (induction xs arbitrary: s) (auto split: prod.splits)

lemma length_map_state: "map_state g xs s = (ys, s') \<Longrightarrow> length ys = length xs"
  by (induction xs arbitrary: s ys) (auto split: prod.splits)

abbreviation same_length :: "'x list \<Rightarrow> 'y list \<Rightarrow> bool" where
  "same_length xs ys \<equiv> length ys = length xs"

lemma map_state_concat:
  "map_state (map_state g) bs s = (bs', s') \<Longrightarrow>
     map_state g (concat bs) s = (concat bs', s') \<and> list_all2 same_length bs bs'"
  by (induction bs arbitrary: s bs') (auto simp: map_state_append length_map_state split: prod.splits)

lemma build_children_map_state:
  assumes "build_children g cp bs any s = (bs', any', s')"
  shows "map_state (build_child g cp) (children bs any) s = (children bs' any', s')"
    and "list_all2 same_length bs bs'" and "any' = None \<longleftrightarrow> any = None"
proof -
  obtain bs1 s1 where m: "map_state (map_state (build_child g cp)) bs s = (bs1, s1)"
    by (cases "map_state (map_state (build_child g cp)) bs s")
  note c = map_state_concat [OF m]
  show "map_state (build_child g cp) (children bs any) s = (children bs' any', s')"
    using assms m c by (auto simp: build_children_def children_def map_state_append split: option.splits prod.splits)
  show "list_all2 same_length bs bs'" and "any' = None \<longleftrightarrow> any = None"
    using assms m c by (auto simp: build_children_def split: option.splits prod.splits)
qed

lemma list_all2_concat_shape:
  assumes "list_all2 same_length bs bs'" and "list_all2 P (concat bs @ xs) (concat bs' @ ys)"
  shows "list_all2 (list_all2 P) bs bs' \<and> list_all2 P xs ys"
  using assms
proof (induction bs bs' rule: list_all2_induct)
  case (Cons ch bs ch' bs')
  then show ?case by (simp add: list_all2_append)
qed simp

lemma chain_ok_same:
  assumes "list_all2 same_node ch ch'" and "chain_ok ops st f bm i ch"
  shows "chain_ok ops st f bm i ch'"
proof -
  from assms(1) have "map cvalue ch' = map cvalue ch"
    by (induction ch ch' rule: list_all2_induct) (auto simp: same_node_def)
  moreover have "\<exists>c \<in> set ch. same_node c c'" if "c' \<in> set ch'" for c'
    using assms(1) that by (metis in_set_conv_nth list_all2_conv_all_nth)
  moreover have "same_node c c' \<Longrightarrow> cvalue c' = cvalue c \<and> set (tree_rules c') = set (tree_rules c)" for c c'
    unfolding same_node_def by (metis set_mset_mset)
  ultimately show ?thesis using assms(2) unfolding chain_ok_def by metis
qed

lemma chains_ok_same:
  assumes "list_all2 (list_all2 same_node) bs bs'" and "chains_ok ops st f bm i bs"
  shows "chains_ok ops st f bm i bs'"
  using assms by (induction bs bs' arbitrary: i rule: list_all2_induct) (auto intro: chain_ok_same)

lemma any_ok_same:
  assumes "list_all2 same_node (case any of None \<Rightarrow> [] | Some c \<Rightarrow> [c]) (case any' of None \<Rightarrow> [] | Some c \<Rightarrow> [c])"
    and "any_ok ops st f any"
  shows "any_ok ops st f any'"
proof -
  have "same_node c c' \<Longrightarrow> set (tree_rules c') = set (tree_rules c)" for c c'
    unfolding same_node_def by (metis set_mset_mset)
  with assms show ?thesis by (auto simp: any_ok_def split: option.splits)
qed

lemma wf_Node_same:
  assumes "wf_cnode ops st (Node n v rs bs f any)" and "list_all2 same_node (children bs any) (children bs' any')"
    and "list_all2 same_length bs bs'" and "\<And>c. c \<in> set (children bs' any') \<Longrightarrow> wf_cnode ops st c"
  shows "wf_cnode ops st (Node n v rs bs' f any')"
proof -
  note s = list_all2_concat_shape [OF assms(3) assms(2) [unfolded children_def]]
  have "length bs' = length bs" using assms(3) by (simp add: list_all2_lengthD)
  with s assms(1,4) chains_ok_same [of bs bs'] any_ok_same [of any any'] show ?thesis
    by (auto simp del: set_children)
qed

lemma ptr_ok_Node:
  "ptr_ok st (Node n v rs bs f any) \<longleftrightarrow>
     (\<forall>r \<in> set rs. \<exists>rl. st r = Some rl \<and> node rl = Some n) \<and> (\<forall>c \<in> set (children bs any). ptr_ok st c)"
  by (simp add: ptr_ok_def ball_Un del: set_children)

lemma forest_ok_Node:
  "forest_ok ops cp nx st [Node n v rs bs f any] \<longleftrightarrow>
     wf_cnode ops st (Node n v rs bs f any) \<and> forest_ok ops cp nx st (children bs any) \<and>
     n \<notin> set (concat (map addrs (children bs any))) \<and> n < nx \<and>
     distinct rs \<and> set rs \<inter> set (concat (map tree_rules (children bs any))) = {} \<and>
     (\<not> cp \<longrightarrow> (\<forall>r \<in> set rs. \<exists>rl. st r = Some rl \<and> node rl = Some n))"
  unfolding forest_ok_def by (auto simp: ptr_ok_Node simp del: set_children set_concat)

lemma built_Node:
  assumes ok: "forest_ok ops cp nx st [Node n v rs bs f any]"
    and b: "built ops cp nx st (children bs any) nx' st' (children bs' any')"
    and sh: "list_all2 same_length bs bs'"
  shows "built ops cp nx st [Node n v rs bs f any] nx' st' [Node n v rs bs' f any']"
proof -
  let ?A = "\<lambda>cs. set (concat (map addrs cs))" and ?R = "\<lambda>cs. set (concat (map tree_rules cs))"
  let ?cs = "children bs any" and ?cs' = "children bs' any'"
  from b have same: "list_all2 same_node ?cs ?cs'" and ok': "forest_ok ops cp nx' st' ?cs'"
    and sr: "same_rules st st'" and A: "?A ?cs' \<subseteq> ?A ?cs \<union> {nx..<nx'}" and le: "nx \<le> nx'"
    and fr: "\<And>r. r \<notin> ?R ?cs \<Longrightarrow> st' r = st r" and cp: "cp \<longrightarrow> st' = st"
    and ns: "new_splits_ok ops st ?cs ?cs'"
    by (simp_all add: built_def del: set_concat set_children)
  note R = same_node_rules [OF same] same_node_set [OF same]
  from ok have "wf_cnode ops st' (Node n v rs bs f any)"
    by (simp only: forest_ok_Node wf_cnode_same [OF sr])
  then have "wf_cnode ops st' (Node n v rs bs' f any')"
    by (rule wf_Node_same [OF _ same sh]) (use ok' in \<open>simp add: forest_ok_def del: set_children\<close>)
  moreover have "n \<notin> ?A ?cs'" and "n < nx'"
    using ok A le by (auto simp: forest_ok_Node simp del: set_concat set_children)
  moreover have "\<forall>r \<in> set rs. st' r = st r"
    using fr ok by (auto simp: forest_ok_Node simp del: set_concat set_children)
  ultimately have "forest_ok ops cp nx' st' [Node n v rs bs' f any']"
    using ok ok' R(2) by (simp add: forest_ok_Node del: set_concat set_children wf_cnode.simps)
  moreover have "same_node (Node n v rs bs f any) (Node n v rs bs' f any')"
    using R(1) by (simp add: same_node_def)
  ultimately show ?thesis
    using A sr fr le cp new_splits_Node [OF ns] unfolding built_def by (auto simp del: set_concat set_children)
qed

lemma built_refl: "forest_ok ops cp nx st cs \<Longrightarrow> built ops cp nx st cs nx st cs"
  by (auto simp: built_def same_node_def intro: list.rel_refl)

lemma built_trans:
  assumes "built ops cp nx st cs nx1 st1 cs1" and "built ops cp nx1 st1 cs1 nx2 st2 cs2"
  shows "built ops cp nx st cs nx2 st2 cs2"
proof -
  let ?A = "\<lambda>cs. set (concat (map addrs cs))"
  have "same_node a b \<Longrightarrow> same_node b c \<Longrightarrow> same_node a c" for a b c by (simp add: same_node_def)
  then have "list_all2 same_node cs cs2"
    using assms unfolding built_def by (blast intro: list_all2_trans)
  moreover have "?A cs2 \<subseteq> ?A cs \<union> {nx..<nx2}"
    using assms unfolding built_def by (fastforce simp del: set_concat)
  moreover have "set (concat (map tree_rules cs1)) = set (concat (map tree_rules cs))"
    using assms(1) unfolding built_def by (blast dest: same_node_set)
  moreover have "new_splits_ok ops st cs cs2"
    using assms unfolding built_def by (blast intro: new_splits_trans)
  ultimately show ?thesis
    using assms unfolding built_def by (auto simp del: set_concat intro: same_rules_trans)
qed

lemma forest_ok_copy: "forest_ok ops cp nx st cs \<Longrightarrow> forest_ok ops True nx st cs"
  by (simp add: forest_ok_def)

lemma empty_node_ok:
  "a < nx \<Longrightarrow> wf_cnode ops st (Node a v [] (replicate (Suc m) []) f None) \<and>
     addrs_ok nx (Node a v [] (replicate (Suc m) []) f None)"
  by (simp add: sorted_prio_def any_ok_def children_def addrs_ok_def chains_ok_replicate chain_ok_def)

lemma grow_pos: "0 < n \<Longrightarrow> 0 < grow n l"
  by (induction n l rule: grow.induct) (subst grow.simps, auto)

lemma children_empty [simp]: "children (replicate m []) None = []"
  by (simp add: children_def)

lemma add_rules_built:
  assumes add: "add_rules ops st path nx1 (Node a v [] (replicate m []) f None) rs = (t1, nx2)"
    and "0 < m" and "a < nx1" and "distinct rs"
    and fdef: "0 < LEAF_THRESHOLD ops \<longrightarrow> f \<in> defd ops st [Leaf n v rs]"
    and "a = n \<or> nx \<le> a" and "nx \<le> nx1"
  shows "built ops True nx st [Leaf n v rs] nx2 st [t1] \<and> addr t1 = a \<and> nx1 \<le> nx2 \<and>
    set (addrs t1) \<subseteq> insert a {nx1..<nx2} \<and> split_fields t1 = {f}"
proof -
  obtain m' where m: "m = Suc m'" using \<open>0 < m\<close> by (cases m) auto
  note e = empty_node_ok [OF \<open>a < nx1\<close>, of ops st v m' f]
  note p = add_rules_props [OF add [unfolded m] conjunct1 [OF e] conjunct2 [OF e]]
  note k = add_rules_keeps_split [OF add]
  have R: "mset (tree_rules t1) = mset rs" using p by (simp del: replicate_Suc)
  then have d: "distinct (tree_rules t1)"
    using \<open>distinct rs\<close> by (simp add: mset_eq_imp_distinct_iff [OF R])
  have A: "set (addrs t1) \<subseteq> insert a {nx1..<nx2}" and ok: "addrs_ok nx2 t1" and le: "nx1 \<le> nx2"
    and wf: "wf_cnode ops st t1" and sf: "split_fields t1 = {f}"
    using p by (simp_all del: replicate_Suc)
  then have "set (addrs t1) \<subseteq> insert n {nx..<nx2}"
    using assms(3,6,7) by auto
  with R d A ok le wf sf k fdef assms(7) show ?thesis
    by (simp add: built_def same_node_def forest_ok_def addrs_ok_def new_splits_ok_def all_splits_def)
qed

lemma split_built:
  assumes ok: "forest_ok ops True nx st [Leaf n v rs]"
    and sp: "split ops st path cp nx n v rs = (t1, nx1)"
  shows "built ops True nx st [Leaf n v rs] nx1 st [t1] \<and>
    (addr t1 = n \<and> set (addrs t1) \<subseteq> insert n {nx..<nx1} \<or> \<not> cp \<and> set (addrs t1) \<subseteq> {nx..<nx1})"
proof -
  obtain field nb nd where bs: "best_split ops st path rs = (field, nb, nd)"
    by (cases "best_split ops st path rs")
  let ?m = "grow 1 (3 * nd)"
  have m: "0 < ?m" by (rule grow_pos) simp
  from ok have d: "distinct rs" and n: "n < nx" by (auto simp: forest_ok_def)
  have fd: "0 < LEAF_THRESHOLD ops \<longrightarrow> field \<in> defd ops st [Leaf n v rs]"
    if "field \<noteq> NUM_FIELDS ops" "\<not> length rs - nb < LEAF_THRESHOLD ops"
    using best_split_exp [OF bs that(1)] that(2) by (auto simp: defd_def)
  have "split ops st path cp nx n v rs =
    (if field = NUM_FIELDS ops \<or> length rs - nb < LEAF_THRESHOLD ops then (Leaf n v rs, nx)
     else if cp then add_rules ops st path nx (Node n v [] (replicate ?m []) field None) rs
     else add_rules ops st path (Suc nx) (Node nx v [] (replicate ?m []) field None) rs)"
    by (simp add: split_def bs)
  with sp consider (leaf) "t1 = Leaf n v rs" "nx1 = nx"
    | (copy) "field \<noteq> NUM_FIELDS ops" "\<not> length rs - nb < LEAF_THRESHOLD ops" "add_rules ops st path nx (Node n v [] (replicate ?m []) field None) rs = (t1, nx1)"
    | (new) "field \<noteq> NUM_FIELDS ops" "\<not> length rs - nb < LEAF_THRESHOLD ops" "\<not> cp" "add_rules ops st path (Suc nx) (Node nx v [] (replicate ?m []) field None) rs = (t1, nx1)"
    by (metis prod.inject)
  then show ?thesis
  proof cases
    case leaf
    with built_refl [OF ok] show ?thesis by simp
  next
    case copy
    from add_rules_built [OF this(3) m n d fd [OF this(1,2)], of nx] show ?thesis by auto
  next
    case new
    from add_rules_built [OF this(4) m _ d fd [OF this(1,2)], of nx] new(3) show ?thesis by auto
  qed
qed

lemma built_set_pointers:
  assumes "forest_ok ops cp nx st [t]" and "built ops True nx st [t] nx' st [t']"
    and "\<And>r. r \<in> set (tree_rules t) \<Longrightarrow> st r \<noteq> None"
  shows "built ops False nx st [t] nx' (set_node_pointers t' st) [t']"
proof -
  have R: "set (tree_rules t') = set (tree_rules t)"
    using assms(2) same_node_set [of "[t]" "[t']"] by (simp add: built_def)
  from assms(2) have "distinct (tree_rules t')" by (simp add: built_def forest_ok_def)
  then have "ptr_ok (set_node_pointers t' st) t'"
    by (rule set_node_pointers_ptr_ok) (simp add: R assms(3))
  moreover have "wf_cnode ops (set_node_pointers t' st) t'"
    using assms(2) wf_cnode_same [OF same_rules_ptrs, of ops t' st t'] by (simp add: built_def forest_ok_def)
  ultimately show ?thesis
    using assms(2) R by (auto simp: built_def forest_ok_def set_node_pointers_frame)
qed

lemma ptr_ok_dom: "ptr_ok st t \<Longrightarrow> r \<in> set (tree_rules t) \<Longrightarrow> st r \<noteq> None"
  by (auto simp: ptr_ok_def dest!: rules_placements)

definition fresh_root :: "bool \<Rightarrow> cnode \<Rightarrow> cnode \<Rightarrow> bool" where
  "fresh_root cp c c' \<longleftrightarrow> addr c' = addr c \<or> \<not> cp \<and> set (addrs c') \<inter> set (addrs c) = {}"

text \<open>The old node is destroyed after the pointers moved away from it, so its destructor resets none.\<close>

lemma destroy_after_build:
  assumes "built ops False nx st [c] nx' st' [c']" and "set (addrs c') \<inter> set (addrs c) = {}"
  shows "destroy c st' = st'"
proof (rule destroy_noop)
  fix r n
  assume rn: "(r, n) \<in> set (placements c)"
  from assms(1) have R: "set (tree_rules c') = set (tree_rules c)" and p: "ptr_ok st' c'"
    using same_node_set [of "[c]" "[c']"] by (simp_all add: built_def forest_ok_def)
  from placements_rules [OF rn] R obtain m where rm: "(r, m) \<in> set (placements c')"
    using rules_placements by blast
  with p have "node (the (st' r)) = Some m" by (auto simp: ptr_ok_def)
  moreover from rm rn assms(2) have "m \<noteq> n" by (auto dest!: placements_addrs)
  ultimately show "node (the (st' r)) \<noteq> Some n" by simp
qed

lemma build_child_built:
  assumes "build_child g cp c (nx, st) = (c', nx', st')"
    and "\<And>c' nx' st'. g c (nx, st) = (c', nx', st') \<Longrightarrow>
      built ops cp nx st [c] nx' st' [c'] \<and> fresh_root cp c c'"
  shows "built ops cp nx st [c] nx' st' [c']"
proof -
  obtain c1 nx1 st1 where g: "g c (nx, st) = (c1, nx1, st1)" by (cases "g c (nx, st)")
  note b = assms(2) [OF this]
  show ?thesis
  proof (cases "cp \<or> addr c1 = addr c")
    case True
    with b g assms(1) show ?thesis by (auto simp: build_child_def)
  next
    case False
    with b have "destroy c st1 = st1"
      by (intro destroy_after_build [of ops nx st c nx1]) (auto simp: fresh_root_def)
    with False b g assms(1) show ?thesis by (auto simp: build_child_def)
  qed
qed

lemma addr_in_addrs [simp]: "addr t \<in> set (addrs t)"
  by (cases t) auto

text \<open>One level of \<open>build\<close>, given that the recursive call \<open>g\<close> is right on the children.\<close>

lemma build_node_built:
  assumes ok: "forest_ok ops cp nx st [Node n v rs bs f any]"
    and bc: "build_children g cp bs any (nx, st) = (bs', any', nx', st')"
    and step: "\<And>c nx st c' nx' st'. c \<in> set (children bs any) \<Longrightarrow> forest_ok ops cp nx st [c] \<Longrightarrow>
      g c (nx, st) = (c', nx', st') \<Longrightarrow> built ops cp nx st [c] nx' st' [c'] \<and> fresh_root cp c c'"
  shows "built ops cp nx st [Node n v rs bs f any] nx' st' [Node n v rs bs' f any']"
proof -
  from ok have okc: "forest_ok ops cp nx st (children bs any)" by (simp add: forest_ok_Node)
  note m = build_children_map_state [OF bc]
  have "built ops cp nx st (children bs any) nx' st' (children bs' any')"
    by (rule built_map_state [OF okc m(1)], rule build_child_built, assumption) (rule step)
  from built_Node [OF ok this m(2)] show ?thesis .
qed

lemma build_split_built:
  assumes ok: "forest_ok ops cp nx st [Leaf n v rs]"
    and sp: "split ops st path cp nx n v rs = (Node n1 v1 rs1 bs f any, nx1)"
    and bc: "build_children g True bs any (nx1, st) = (bs', any', nx2, st2)"
    and step: "\<And>c nx st c' nx' st'. c \<in> set (children bs any) \<Longrightarrow> forest_ok ops True nx st [c] \<Longrightarrow>
      g c (nx, st) = (c', nx', st') \<Longrightarrow> built ops True nx st [c] nx' st' [c'] \<and> fresh_root True c c'"
    and t2: "t2 = Node n1 v1 rs1 bs' f any'"
  shows "st2 = st" and "fresh_root cp (Leaf n v rs) t2"
    and "built ops cp nx st [Leaf n v rs] nx2 (if cp then st else set_node_pointers t2 st) [t2]"
proof -
  let ?t1 = "Node n1 v1 rs1 bs f any"
  from split_built [OF forest_ok_copy [OF ok] sp]
  have b1: "built ops True nx st [Leaf n v rs] nx1 st [?t1]"
    and a1: "n1 = n \<or> \<not> cp \<and> set (addrs ?t1) \<subseteq> {nx..<nx1}" by auto
  have b2: "built ops True nx1 st [?t1] nx2 st2 [t2]"
    unfolding t2 by (rule build_node_built [OF _ bc step]) (use b1 in \<open>simp_all add: built_def\<close>)
  then show st2: "st2 = st" by (simp add: built_def)
  from built_trans [OF b1] b2 st2 have b: "built ops True nx st [Leaf n v rs] nx2 st [t2]" by blast
  show "fresh_root cp (Leaf n v rs) t2"
  proof (cases "n1 = n")
    case False
    with a1 have c: "\<not> cp" and "set (addrs ?t1) \<subseteq> {nx..<nx1}" by auto
    moreover have "set (addrs t2) \<subseteq> set (addrs ?t1) \<union> {nx1..<nx2}" and "nx \<le> nx1" and "nx1 \<le> nx2"
      using b1 b2 by (auto simp: built_def simp del: addrs.simps)
    ultimately have "set (addrs t2) \<subseteq> {nx..<nx1} \<union> {nx1..<nx2}" and "nx \<le> nx1" and "nx1 \<le> nx2" by blast+
    then have "set (addrs t2) \<subseteq> {nx..<nx2}" by auto
    moreover have "n < nx" using ok by (simp add: forest_ok_def)
    ultimately show ?thesis using c by (auto simp: fresh_root_def)
  qed (simp add: fresh_root_def t2)
  show "built ops cp nx st [Leaf n v rs] nx2 (if cp then st else set_node_pointers t2 st) [t2]"
  proof (cases cp)
    case False
    with ok have "ptr_ok st (Leaf n v rs)" by (simp add: forest_ok_def)
    from built_set_pointers [OF ok b ptr_ok_dom [OF this]] False show ?thesis by simp
  qed (use b in simp)
qed

theorem build_built:
  assumes "build ops path cp t (nx, st) = (t', nx', st')" and "forest_ok ops cp nx st [t]"
  shows "built ops cp nx st [t] nx' st' [t'] \<and> fresh_root cp t t'"
  using assms
proof (induction ops path cp t "(nx, st)" arbitrary: nx st t' nx' st' rule: build.induct)
  case (1 ops path cp n v rs nx st)
  obtain t1 nx1 where sp: "split ops st path cp nx n v rs = (t1, nx1)"
    by (cases "split ops st path cp nx n v rs")
  show ?case
  proof (cases "length rs \<le> LEAF_THRESHOLD ops \<or> is_Leaf t1")
    case True
    have "t1 = Leaf n v rs \<and> nx1 = nx" if "is_Leaf t1"
      using sp that by (auto simp: split_def Let_def dest!: add_rules_keeps_split split: if_splits prod.splits)
    with True sp have "build ops path cp (Leaf n v rs) (nx, st) = (Leaf n v rs, nx, st)"
      by (cases "length rs \<le> LEAF_THRESHOLD ops") auto
    with 1(2) built_refl [OF 1(3)] show ?thesis by (simp add: fresh_root_def del: build.simps)
  next
    case False
    then obtain n1 v1 rs1 bs f any where t1: "t1 = Node n1 v1 rs1 bs f any"
      and big: "\<not> length rs \<le> LEAF_THRESHOLD ops" by (cases t1) auto
    obtain bs' any' nx2 st2 where
      bc: "build_children (build ops (path OR MASKS f) True) True bs any (nx1, st) = (bs', any', nx2, st2)"
      by (metis prod_cases4)
    note b = build_split_built [OF 1(3) sp [unfolded t1] bc 1(1) [OF big sp [symmetric] t1] refl]
    have "t' = Node n1 v1 rs1 bs' f any'" "nx' = nx2"
      "st' = (if cp then st else set_node_pointers (Node n1 v1 rs1 bs' f any') st)"
      using 1(2) big sp t1 bc b(1) by auto
    with b(2,3) show ?thesis by simp
  qed
next
  case (2 ops path cp n v rs bs f any nx st)
  obtain bs' any' nx2 st2 where
    bc: "build_children (build ops (path OR MASKS f) cp) cp bs any (nx, st) = (bs', any', nx2, st2)"
    by (metis prod_cases4)
  with 2(2) have res: "t' = Node n v rs bs' f any'" "nx' = nx2" "st' = st2" by auto
  from build_node_built [OF 2(3) bc 2(1)] res show ?case by (simp add: fresh_root_def)
qed

section \<open>Unbuilding and cleaning keep the invariant\<close>

lemma mset_lmerge [simp]: "mset (lmerge st xs ys) = mset xs + mset ys"
  by (induction st xs ys rule: lmerge.induct) auto

lemma set_lmerge [simp]: "set (lmerge st xs ys) = set xs \<union> set ys"
  using mset_lmerge [of st xs ys] by (metis set_mset_mset set_mset_union)

lemma sorted_lmerge: "sorted_prio st xs \<Longrightarrow> sorted_prio st ys \<Longrightarrow> sorted_prio st (lmerge st xs ys)"
  by (induction st xs ys rule: lmerge.induct) (auto simp: sorted_prio_def list_compare_def)

lemma mset_add_node_rules: "mset (add_node_rules st t acc) = mset acc + mset (tree_rules t)"
proof (induction t arbitrary: acc rule: cnode_induct)
  case (Node n v rs bs f any)
  have "mset (fold (add_node_rules st) cs acc) = mset acc + mset (concat (map tree_rules cs))"
    if "set cs \<subseteq> set (children bs any)" for cs acc
    using that Node by (induction cs arbitrary: acc) (simp_all del: set_children)
  then show ?case by simp
qed simp

lemma sorted_add_node_rules:
  "wf_cnode ops st t \<Longrightarrow> sorted_prio st acc \<Longrightarrow> sorted_prio st (add_node_rules st t acc)"
proof (induction t arbitrary: acc rule: cnode_induct)
  case (Node n v rs bs f any)
  have "sorted_prio st (fold (add_node_rules st) cs acc)"
    if "set cs \<subseteq> set (children bs any)" and "sorted_prio st acc" for cs acc
    using that Node.IH Node.prems(1) by (induction cs arbitrary: acc) (simp_all del: set_children)
  with Node.prems show ?case by (simp add: sorted_lmerge)
qed (simp add: sorted_lmerge)

theorem unbuild_built:
  assumes "unbuild t (nx, st) = (t', nx', st')" and ok: "forest_ok ops False nx st [t]"
  shows "built ops False nx st [t] nx' st' [t'] \<and> fresh_root False t t'"
proof (cases t)
  case (Leaf n v rs)
  with assms built_refl [OF ok] show ?thesis by (simp add: fresh_root_def)
next
  case (Node n v rs bs f any)
  let ?rs = "add_node_rules st t []" and ?t' = "Leaf nx v (add_node_rules st t [])"
  from ok have wf: "wf_cnode ops st t" and d: "distinct (tree_rules t)" and p: "ptr_ok st t"
    and a: "\<forall>a \<in> set (addrs t). a < nx"
    by (auto simp: forest_ok_def)
  have R: "mset ?rs = mset (tree_rules t)" by (simp add: mset_add_node_rules)
  with d have "distinct ?rs" by (metis mset_eq_imp_distinct_iff)
  moreover have "sorted_prio st ?rs"
    using wf by (rule sorted_add_node_rules) (simp add: sorted_prio_def)
  ultimately have "built ops True nx st [t] (Suc nx) st [?t']"
    using R Node by (simp add: built_def forest_ok_def same_node_def new_splits_ok_def all_splits_def)
  note b = built_set_pointers [OF ok this ptr_ok_dom [OF p]]
  have "unbuild t (nx, st) = (?t', Suc nx, set_node_pointers ?t' st)" by (simp add: Node Let_def)
  moreover from a have "nx \<notin> set (addrs t)" by blast
  ultimately show ?thesis using assms(1) b by (simp add: fresh_root_def)
qed

lemma clean_placements:
  "placements (snd (clean t)) = placements t \<and> (fst (clean t) \<longleftrightarrow> placements t = [])"
proof (induction t rule: cnode_induct)
  case (Node n v rs bs f any)
  let ?keep = "\<lambda>ch. map snd (filter (\<lambda>p. \<not> fst p) (map clean ch))"
  have ch: "concat (map placements (?keep ch)) = concat (map placements ch) \<and>
      (?keep ch = [] \<longleftrightarrow> concat (map placements ch) = [])"
    if "set ch \<subseteq> set (children bs any)" for ch
    using that Node by (induction ch) (simp_all del: set_children)
  have bs: "concat (map placements (concat (map ?keep B))) = concat (map placements (concat B)) \<and>
      (concat (map ?keep B) = [] \<longleftrightarrow> concat (map placements (concat B)) = [])"
    if "set B \<subseteq> set bs" for B
    using that
  proof (induction B)
    case (Cons ch B)
    then have "set ch \<subseteq> set (children bs any)" by auto
    from ch [OF this] Cons show ?case by simp
  qed simp
  note all = bs [OF subset_refl]
  show ?case
  proof (cases any)
    case None
    with all show ?thesis by (auto simp: Let_def children_def)
  next
    case (Some c)
    obtain b c' where c: "clean c = (b, c')" by (cases "clean c")
    with Node [of c] Some have "placements c' = placements c" and "b \<longleftrightarrow> placements c = []" by simp_all
    with all Some c show ?thesis by (cases b) (auto simp: Let_def children_def)
  qed
qed auto

lemma clean_cvalue: "cvalue (snd (clean t)) = cvalue t \<and> addr (snd (clean t)) = addr t"
  by (cases t) (auto simp: Let_def)

lemma clean_tree_rules: "tree_rules (snd (clean t)) = tree_rules t"
  by (simp add: tree_rules_def clean_placements)

end
