(* ===== verification/Nox_Cnode_Upd.thy ===== *)
theory Nox_Cnode_Upd
  imports Nox_Cnode_Inv
begin

unbundle bit_operations_syntax

text \<open>
  The remaining operations on the classifier tree: \<^verbatim>\<open>clean\<close> and the changes made through a rule's
  \<^verbatim>\<open>node\<close> pointer.
\<close>

section \<open>Pruning and mapping the children of a node\<close>

lemma chain_ok_map:
  assumes "chain_ok ops st f bm i ch" and "ex st' = ex st"
    and "\<And>c. c \<in> set ch \<Longrightarrow> cvalue (h c) = cvalue c \<and> set (tree_rules (h c)) \<subseteq> set (tree_rules c)"
  shows "chain_ok ops st' f bm i (map h (filter P ch))"
proof -
  have "map cvalue (map h (filter P ch)) = map cvalue (filter P ch)" using assms(3) by simp
  moreover have "distinct (map cvalue (filter P ch))"
    using assms(1) by (simp add: chain_ok_def distinct_map_filter)
  ultimately show ?thesis using assms unfolding chain_ok_def by (auto simp del: map_map)
qed

lemma chains_ok_map:
  assumes "chains_ok ops st f bm i bs" and "ex st' = ex st"
    and "\<And>ch c. ch \<in> set bs \<Longrightarrow> c \<in> set ch \<Longrightarrow>
      cvalue (h c) = cvalue c \<and> set (tree_rules (h c)) \<subseteq> set (tree_rules c)"
  shows "chains_ok ops st' f bm i (map (\<lambda>ch. map h (filter P ch)) bs)"
  using assms(1,3)
proof (induction bs arbitrary: i)
  case (Cons ch bs)
  from Cons.prems have "chain_ok ops st' f bm i (map h (filter P ch))"
    by (intro chain_ok_map [OF _ assms(2)]) auto
  moreover have "chains_ok ops st' f bm (Suc i) (map (\<lambda>ch. map h (filter P ch)) bs)"
    by (rule Cons.IH) (use Cons.prems in auto)
  ultimately show ?case by simp
qed simp

lemma wf_Node_map:
  assumes "wf_cnode ops st (Node n v rs bs f any)" and "ex st' = ex st" and "sorted_prio st' rs'"
    and "any' = None \<or> any' = map_option h any"
    and h: "\<And>c. c \<in> set (children bs any) \<Longrightarrow>
      cvalue (h c) = cvalue c \<and> set (tree_rules (h c)) \<subseteq> set (tree_rules c) \<and> wf_cnode ops st' (h c)"
  shows "wf_cnode ops st' (Node n v rs' (map (\<lambda>ch. map h (filter P ch)) bs) f any')"
proof -
  have "chains_ok ops st' f (length bs - 1) 0 (map (\<lambda>ch. map h (filter P ch)) bs)"
    by (rule chains_ok_map [of _ st]) (use assms(1,2) h in auto)
  moreover have "any_ok ops st' f any'"
  proof (cases any')
    case (Some c')
    with assms(4) obtain c where "any = Some c" "c' = h c" by (cases any) auto
    with h [of c] have "set (tree_rules c') \<subseteq> set (tree_rules c)" by simp
    with Some \<open>any = Some c\<close> assms(1,2) show ?thesis by (auto simp: any_ok_def)
  qed (simp add: any_ok_def)
  moreover have "wf_cnode ops st' c" if "c \<in> set (children (map (\<lambda>ch. map h (filter P ch)) bs) any')" for c
    using that assms(4) h by (cases any) auto
  ultimately show ?thesis using assms(1,3) by (simp del: set_children)
qed

section \<open>Cleaning\<close>

lemma distinct_subseteq_mset:
  assumes "distinct xs" and "mset ys \<subseteq># mset xs"
  shows "distinct ys"
proof -
  from assms(2) obtain zs where "mset xs = mset (ys @ zs)"
    by (metis ex_mset mset_append subset_mset.le_iff_add)
  with assms(1) have "distinct (ys @ zs)" by (metis mset_eq_imp_distinct_iff)
  then show ?thesis by simp
qed

lemma clean_Node:
  "snd (clean (Node n v rs bs f any)) =
     Node n v rs (map (\<lambda>ch. map (snd \<circ> clean) (filter (\<lambda>c. \<not> fst (clean c)) ch)) bs) f
       (case any of None \<Rightarrow> None | Some c \<Rightarrow> if fst (clean c) then None else Some (snd (clean c)))"
  by (auto simp: Let_def filter_map comp_def split: option.splits prod.splits)

lemma clean_wf: "wf_cnode ops st t \<Longrightarrow> wf_cnode ops st (snd (clean t))"
proof (induction t rule: cnode_induct)
  case (Node n v rs bs f any)
  show ?case
    unfolding clean_Node
    by (rule wf_Node_map [OF Node.prems])
      (use Node in \<open>auto simp: clean_cvalue clean_tree_rules split: option.splits\<close>)
qed simp

lemma mset_addrs_filter:
  assumes "\<And>c. c \<in> set cs \<Longrightarrow> mset (addrs (h c)) \<subseteq># mset (addrs c)"
  shows "mset (concat (map addrs (map h (filter P cs)))) \<subseteq># mset (concat (map addrs cs))"
  using assms by (induction cs) (auto intro: subset_mset.add_mono subset_mset.order_trans [OF _ mset_subset_eq_add_right])

lemma clean_addrs: "mset (addrs (snd (clean t))) \<subseteq># mset (addrs t)"
proof (induction t rule: cnode_induct)
  case (Node n v rs bs f any)
  have bs: "mset (concat (map addrs (map (snd \<circ> clean) (filter (\<lambda>c. \<not> fst (clean c)) (concat bs)))))
      \<subseteq># mset (concat (map addrs (concat bs)))"
    by (rule mset_addrs_filter) (use Node in auto)
  have eq: "concat (map (\<lambda>ch. map (snd \<circ> clean) (filter (\<lambda>c. \<not> fst (clean c)) ch)) bs) =
      map (snd \<circ> clean) (filter (\<lambda>c. \<not> fst (clean c)) (concat bs))"
    by (simp add: map_concat filter_concat comp_def)
  show ?case
  proof (cases any)
    case None
    with bs show ?thesis unfolding clean_Node by (simp add: children_def eq del: map_map)
  next
    case (Some c)
    with Node [of c] have "mset (addrs (snd (clean c))) \<subseteq># mset (addrs c)" by simp
    with bs Some show ?thesis unfolding clean_Node
      by (auto simp: children_def eq simp del: map_map intro: subset_mset.add_mono
          subset_mset.order_trans [OF _ mset_subset_eq_add_left])
  qed
qed simp

lemma clean_forest_ok:
  assumes "forest_ok ops False nx st [t]"
  shows "forest_ok ops False nx st [snd (clean t)]"
proof -
  have "set (addrs (snd (clean t))) \<subseteq> set (addrs t)"
    using clean_addrs [of t] by (metis set_mset_mono set_mset_mset)
  moreover have "distinct (addrs (snd (clean t)))"
    using assms clean_addrs [of t] by (auto simp: forest_ok_def intro: distinct_subseteq_mset)
  ultimately show ?thesis
    using assms clean_wf [of ops st t]
    by (auto simp: forest_ok_def clean_tree_rules ptr_ok_def clean_placements)
qed

section \<open>Changes through a node pointer\<close>

fun node_lists :: "cnode \<Rightarrow> (nat \<times> uint32 list) list" where
  "node_lists (Leaf n v rs) = [(n, rs)]"
| "node_lists (Node n v rs bs f any) = (n, rs) # concat (map node_lists (children bs any))"

definition node_placements :: "nat \<times> uint32 list \<Rightarrow> (uint32 \<times> nat) list" where
  "node_placements p = map (\<lambda>r. (r, fst p)) (snd p)"

lemma concat_map_concat_cong:
  "(\<And>c. c \<in> set cs \<Longrightarrow> g c = concat (map h (k c))) \<Longrightarrow>
     concat (map g cs) = concat (map h (concat (map k cs)))"
  by (induction cs) auto

lemma placements_node_lists: "placements t = concat (map node_placements (node_lists t))"
  by (induction t rule: cnode_induct)
    (auto simp: node_placements_def simp del: set_children intro: concat_map_concat_cong)

lemma addrs_node_lists: "addrs t = map fst (node_lists t)"
proof (induction t rule: cnode_induct)
  case (Node n v rs bs f any)
  then show ?case by (simp add: map_concat comp_def cong: map_cong del: set_children)
qed simp

definition upd_list :: "nat \<Rightarrow> (uint32 list \<Rightarrow> uint32 list) \<Rightarrow> nat \<times> uint32 list \<Rightarrow> nat \<times> uint32 list" where
  "upd_list k g p = (fst p, if fst p = k then g (snd p) else snd p)"

lemma children_map [simp]:
  "children (map (map h) bs) (map_option h any) = map h (children bs any)"
  by (simp add: children_def map_concat split: option.splits)

lemma node_lists_update_at: "node_lists (update_at k g t) = map (upd_list k g) (node_lists t)"
proof (induction t rule: cnode_induct)
  case (Node n v rs bs f any)
  then show ?case by (simp add: upd_list_def map_concat comp_def cong: map_cong del: set_children)
qed (simp add: upd_list_def)

lemma addrs_update_at [simp]: "addrs (update_at k g t) = addrs t"
  by (simp add: addrs_node_lists node_lists_update_at comp_def upd_list_def)

lemma cvalue_update_at [simp]: "cvalue (update_at k g t) = cvalue t"
  by (cases t) auto

lemma map_upd_list_other: "k \<notin> fst ` set nl \<Longrightarrow> map (upd_list k g) nl = nl"
  by (induction nl) (auto simp: upd_list_def)

lemma update_at_placements:
  assumes "distinct (addrs t)" and "(r, k) \<in> set (placements t)"
  obtains P rs where "(k, rs) \<in> set (node_lists t)" and "r \<in> set rs"
    and "mset (placements t) = P + mset (map (\<lambda>r. (r, k)) rs)"
    and "mset (placements (update_at k g t)) = P + mset (map (\<lambda>r. (r, k)) (g rs))"
proof -
  from assms(2) obtain rs where rs: "(k, rs) \<in> set (node_lists t)" "r \<in> set rs"
    by (auto simp: placements_node_lists node_placements_def)
  then obtain A B where nl: "node_lists t = A @ (k, rs) # B" by (meson split_list)
  with assms(1) have "k \<notin> fst ` set A" and "k \<notin> fst ` set B" by (auto simp: addrs_node_lists)
  then have u: "node_lists (update_at k g t) = A @ (k, g rs) # B"
    by (simp add: node_lists_update_at nl map_upd_list_other) (simp add: upd_list_def)
  let ?P = "mset (concat (map node_placements A)) + mset (concat (map node_placements B))"
  have "mset (placements t) = ?P + mset (map (\<lambda>r. (r, k)) rs)"
    by (simp add: placements_node_lists nl node_placements_def [of "(k, rs)"])
  moreover have "mset (placements (update_at k g t)) = ?P + mset (map (\<lambda>r. (r, k)) (g rs))"
    by (simp add: placements_node_lists u node_placements_def [of "(k, g rs)"])
  ultimately show ?thesis using that rs by blast
qed

lemma wf_node_lists: "wf_cnode ops st t \<Longrightarrow> (n, rs) \<in> set (node_lists t) \<Longrightarrow> sorted_prio st rs"
  by (induction t rule: cnode_induct) auto

lemma node_lists_rules: "(n, rs) \<in> set (node_lists t) \<Longrightarrow> r \<in> set rs \<Longrightarrow> (r, n) \<in> set (placements t)"
  by (force simp: placements_node_lists node_placements_def)

lemma update_at_rules:
  assumes "\<And>rs. (k, rs) \<in> set (node_lists t) \<Longrightarrow> set (g rs) \<subseteq> set rs"
  shows "set (tree_rules (update_at k g t)) \<subseteq> set (tree_rules t)"
  unfolding tree_rules_def placements_node_lists node_lists_update_at
  using assms by (fastforce simp: node_placements_def upd_list_def split: if_splits)

lemma wf_update_at:
  assumes "wf_cnode ops st t" and "ex st' = ex st"
    and "\<And>n rs. (n, rs) \<in> set (node_lists t) \<Longrightarrow> sorted_prio st' (if n = k then g rs else rs)"
    and "\<And>rs. (k, rs) \<in> set (node_lists t) \<Longrightarrow> set (g rs) \<subseteq> set rs"
  shows "wf_cnode ops st' (update_at k g t)"
  using assms(1,3,4)
proof (induction t rule: cnode_induct)
  case (Node n v rs bs f any)
  have "cvalue (update_at k g c) = cvalue c \<and>
      set (tree_rules (update_at k g c)) \<subseteq> set (tree_rules c) \<and> wf_cnode ops st' (update_at k g c)"
    if c: "c \<in> set (children bs any)" for c
  proof (intro conjI)
    show "set (tree_rules (update_at k g c)) \<subseteq> set (tree_rules c)"
      by (rule update_at_rules) (rule Node.prems(3), use c in \<open>auto simp del: set_children\<close>)
    show "wf_cnode ops st' (update_at k g c)"
    proof (rule Node.IH [OF c])
      show "wf_cnode ops st c" using Node.prems(1) c by simp
    next
      fix m rs'
      assume "(m, rs') \<in> set (node_lists c)"
      then show "sorted_prio st' (if m = k then g rs' else rs')"
        by (intro Node.prems(2)) (use c in \<open>auto simp del: set_children\<close>)
    next
      fix rs'
      assume "(k, rs') \<in> set (node_lists c)"
      then show "set (g rs') \<subseteq> set rs'"
        by (intro Node.prems(3)) (use c in \<open>auto simp del: set_children\<close>)
    qed
  qed simp
  moreover have "sorted_prio st' (if n = k then g rs else rs)" by (rule Node.prems(2)) simp
  ultimately show ?case
    using wf_Node_map [OF Node.prems(1) assms(2), of _ "map_option (update_at k g) any" "update_at k g" "\<lambda>_. True"]
    by (simp del: wf_cnode.simps)
qed (use assms(3) in simp)

lemma sorted_prio_cong:
  "(\<And>r. r \<in> set rs \<Longrightarrow> prio st' r = prio st r) \<Longrightarrow> sorted_prio st' rs = sorted_prio st rs"
  by (simp add: sorted_prio_def cong: map_cong)

lemma chain_ok_rules_cong:
  assumes "\<And>c r. c \<in> set ch \<Longrightarrow> r \<in> set (tree_rules c) \<Longrightarrow> ex st' r = ex st r"
  shows "chain_ok ops st' f bm i ch = chain_ok ops st f bm i ch"
  using assms by (auto simp: chain_ok_def)

lemma chains_ok_rules_cong:
  assumes "\<And>ch c r. ch \<in> set bs \<Longrightarrow> c \<in> set ch \<Longrightarrow> r \<in> set (tree_rules c) \<Longrightarrow> ex st' r = ex st r"
  shows "chains_ok ops st' f bm i bs = chains_ok ops st f bm i bs"
  using assms
proof (induction bs arbitrary: i)
  case (Cons ch bs)
  have "chain_ok ops st' f bm i ch = chain_ok ops st f bm i ch"
    by (rule chain_ok_rules_cong) (rule Cons.prems [of ch], auto)
  moreover have "chains_ok ops st' f bm (Suc i) bs = chains_ok ops st f bm (Suc i) bs"
    by (rule Cons.IH) (rule Cons.prems, auto)
  ultimately show ?case by simp
qed simp

lemma wf_cnode_rules_cong:
  assumes "\<And>r. r \<in> set (tree_rules t) \<Longrightarrow> prio st' r = prio st r \<and> ex st' r = ex st r"
  shows "wf_cnode ops st' t = wf_cnode ops st t"
  using assms
proof (induction t rule: cnode_induct)
  case (Leaf n v rs)
  then show ?case by (simp add: sorted_prio_cong [of rs st' st])
next
  case (Node n v rs bs f any)
  have "sorted_prio st' rs = sorted_prio st rs" by (rule sorted_prio_cong) (use Node.prems in simp)
  moreover have "chains_ok ops st' f (length bs - 1) 0 bs = chains_ok ops st f (length bs - 1) 0 bs"
    by (rule chains_ok_rules_cong) (use Node.prems in auto)
  moreover have "any_ok ops st' f any = any_ok ops st f any"
    using Node.prems by (auto simp: any_ok_def)
  moreover have "wf_cnode ops st' c = wf_cnode ops st c" if "c \<in> set (children bs any)" for c
    by (rule Node.IH [OF that]) (use Node.prems that in \<open>auto simp del: set_children\<close>)
  ultimately show ?case by simp
qed

lemma sorted_prio_remove1: "sorted_prio st rs \<Longrightarrow> sorted_prio st (remove1 r rs)"
  by (simp add: sorted_prio_def sorted_map_remove1)

lemma node_remove_rule_ok:
  assumes ok: "forest_ok ops False nx st [t]" and rk: "(r, k) \<in> set (placements t)"
    and res: "node_remove_rule k r t st = (b, t', st')"
  shows "b" and "forest_ok ops False nx (st'(r := None)) [t']"
    and "mset (placements t') = mset (placements t) - {#(r, k)#}" and "r \<notin> set (tree_rules t')"
    and "\<And>x. x \<noteq> r \<Longrightarrow> st' x = st x" and "addr t' = addr t"
proof -
  from res rk show "b" by (auto simp: node_remove_rule_def)
  from res rk have t': "t' = update_at k (remove1 r) t"
    and st': "\<And>x. x \<noteq> r \<Longrightarrow> st' x = st x"
    by (auto simp: node_remove_rule_def set_node_def split: if_splits)
  from ok have d: "distinct (addrs t)" "distinct (tree_rules t)" and wf: "wf_cnode ops st t"
    and p: "ptr_ok st t" and a: "\<forall>a \<in> set (addrs t). a < nx" by (auto simp: forest_ok_def)
  from d(1) rk obtain P rs where "r \<in> set rs" and P: "mset (placements t) = P + mset (map (\<lambda>r. (r, k)) rs)"
    "mset (placements t') = P + mset (map (\<lambda>r. (r, k)) (remove1 r rs))"
    unfolding t' by (rule update_at_placements)
  then show pl: "mset (placements t') = mset (placements t) - {#(r, k)#}"
    by (simp add: image_mset_Diff)
  then have tr: "mset (tree_rules t') = mset (tree_rules t) - {#r#}"
    using rk by (simp add: tree_rules_def image_mset_Diff)
  then have "mset (tree_rules t') = mset (remove1 r (tree_rules t))" by simp
  then have "set (tree_rules t') = set (remove1 r (tree_rules t))"
    and dt: "distinct (tree_rules t')"
    using d(2) by (metis set_mset_mset, metis distinct_remove1 mset_eq_imp_distinct_iff)
  with d(2) show nr: "r \<notin> set (tree_rules t')" by simp
  show "\<And>x. x \<noteq> r \<Longrightarrow> st' x = st x" by (fact st')
  show "addr t' = addr t" unfolding t' by (cases t) auto
  have "wf_cnode ops st t'"
    unfolding t' by (rule wf_update_at [OF wf refl])
      (auto dest: wf_node_lists [OF wf] subsetD [OF set_remove1_subset] intro: sorted_prio_remove1)
  moreover have "wf_cnode ops (st'(r := None)) t' = wf_cnode ops st t'"
    by (rule wf_cnode_rules_cong) (use nr st' in \<open>auto simp: prio_def ex_def\<close>)
  moreover have "ptr_ok (st'(r := None)) t'"
    unfolding ptr_ok_def
  proof clarify
    fix x m
    assume xm: "(x, m) \<in> set (placements t')"
    then have "x \<noteq> r" using nr placements_rules by blast
    moreover have "(x, m) \<in># mset (placements t) - {#(r, k)#}"
      using xm unfolding pl [symmetric] by simp
    then have "(x, m) \<in> set (placements t)" by (auto dest: in_diffD)
    ultimately show "\<exists>rl. (st'(r := None)) x = Some rl \<and> node rl = Some m"
      using p st' by (auto simp: ptr_ok_def)
  qed
  ultimately show "forest_ok ops False nx (st'(r := None)) [t']"
    using d a dt by (simp add: forest_ok_def t')
qed

lemma set_priority_sel:
  "x \<noteq> r \<Longrightarrow> prio (set_priority r p st) x = prio st x"
  "ex (set_priority r p st) = ex st"
  by (auto simp: prio_def ex_def set_priority_def fun_eq_iff map_option_case split: option.splits)

lemma node_change_rule_priority_ok:
  assumes ok: "forest_ok ops False nx st [t]" and rk: "(r, k) \<in> set (placements t)"
    and res: "node_change_rule_priority k r p t st = (b, t', st')"
  shows "b" and "st' = set_priority r p st" and "forest_ok ops False nx st' [t']"
    and "mset (placements t') = mset (placements t)" and "addr t' = addr t"
proof -
  from res rk show "b" and st': "st' = set_priority r p st"
    by (auto simp: node_change_rule_priority_def Let_def)
  define g where "g = (\<lambda>rs. add_rule_to_list st' r (remove1 r rs))"
  from res rk have t': "t' = update_at k g t"
    by (auto simp: node_change_rule_priority_def Let_def g_def)
  from ok have d: "distinct (addrs t)" "distinct (tree_rules t)" and wf: "wf_cnode ops st t"
    and ptr: "ptr_ok st t" and a: "\<forall>a \<in> set (addrs t). a < nx" by (auto simp: forest_ok_def)
  from d(1) rk obtain P rs where rs: "(k, rs) \<in> set (node_lists t)" "r \<in> set rs"
    and P: "mset (placements t) = P + mset (map (\<lambda>r. (r, k)) rs)"
    "mset (placements t') = P + mset (map (\<lambda>r. (r, k)) (g rs))"
    unfolding t' by (rule update_at_placements)
  have "mset (g rs) = mset rs" using rs(2) by (simp add: g_def)
  with P show pl: "mset (placements t') = mset (placements t)" by simp
  then have tr: "mset (tree_rules t') = mset (tree_rules t)" by (simp add: tree_rules_def)
  show "addr t' = addr t" unfolding t' by (cases t) auto
  have only: "n = k \<and> rs' = rs" if nl: "(n, rs') \<in> set (node_lists t)" "r \<in> set rs'" for n rs'
  proof -
    have "(r, n) \<in> set (placements t)" using nl by (rule node_lists_rules)
    with rk d(2) have "n = k" unfolding tree_rules_def by (metis eq_key_imp_eq_value)
    with nl rs(1) d(1) show ?thesis unfolding addrs_node_lists by (metis eq_key_imp_eq_value)
  qed
  have uniq: "rs' = rs" if "(k, rs') \<in> set (node_lists t)" for rs'
    using that rs(1) d(1) unfolding addrs_node_lists by (metis eq_key_imp_eq_value)
  have "distinct rs" using d(2) P(1)
    by (metis distinct_map distinct_subseteq_mset mset_map mset_subset_eq_add_right tree_rules_def)
  then have "sorted_prio st' (remove1 r rs)"
    using sorted_prio_cong [of "remove1 r rs" st' st] sorted_prio_remove1 [OF wf_node_lists [OF wf rs(1)], of r]
    by (auto simp: st' set_priority_sel)
  then have sk: "sorted_prio st' (g rs)" by (simp add: g_def)
  have srt: "sorted_prio st' (if n = k then g rs' else rs')" if nl: "(n, rs') \<in> set (node_lists t)" for n rs'
  proof (cases "n = k")
    case False
    with only nl have "r \<notin> set rs'" by blast
    then have "sorted_prio st' rs' = sorted_prio st rs'"
      by (intro sorted_prio_cong) (metis st' set_priority_sel(1))
    with False wf_node_lists [OF wf nl] show ?thesis by simp
  qed (use uniq nl sk in simp)
  have "wf_cnode ops st' t'"
    unfolding t'
  proof (rule wf_update_at [OF wf _ srt])
    show "ex st' = ex st" by (simp add: st' set_priority_sel)
    fix rs'
    assume "(k, rs') \<in> set (node_lists t)"
    then have "rs' = rs" by (rule uniq)
    with rs(2) show "set (g rs') \<subseteq> set rs'" by (auto simp: g_def dest: subsetD [OF set_remove1_subset])
  qed
  moreover have "ptr_ok st' t'"
    unfolding ptr_ok_def mset_eq_setD [OF pl]
  proof clarify
    fix x m
    assume "(x, m) \<in> set (placements t)"
    with ptr obtain rl where "st x = Some rl" "node rl = Some m" by (auto simp: ptr_ok_def)
    then show "\<exists>rl. st' x = Some rl \<and> node rl = Some m"
      by (cases "x = r") (auto simp: st' set_priority_def)
  qed
  moreover have "distinct (tree_rules t')" using tr d(2) by (metis mset_eq_imp_distinct_iff)
  ultimately show "forest_ok ops False nx st' [t']" using d a by (simp add: forest_ok_def t')
qed

end
