(* ===== verification/Nox_Cnode_Result.thy ===== *)
theory Nox_Cnode_Result
  imports Nox_Cnode_Upd
begin

unbundle bit_operations_syntax

text \<open>
  \<^verbatim>\<open>class Cnode_result\<close> of \<^verbatim>\<open>src/src/include/cnode-result.hh\<close>: the priority queue that a lookup fills
  with rule lists, and \<^verbatim>\<open>next()\<close>, which takes out the matching rules.  A \<^verbatim>\<open>current_rule\<close> is the
  pair of the rules from the iterator to the end of its list and the flag \<^verbatim>\<open>ismatch\<close>; the list
  \<open>traversed\<close> holds the \<^verbatim>\<open>num_lists\<close> entries in use.  \<open>m r\<close> is what \<^verbatim>\<open>matches\<close> returns for rule \<open>r\<close> on
  the data, \<open>None\<close> when it aborts.
\<close>

section \<open>Operations\<close>

type_synonym traversed = "(uint32 list \<times> bool) list"

definition push :: "traversed \<Rightarrow> uint32 list \<Rightarrow> traversed" where
  "push tv rs = (if rs = [] then tv else tv @ [(rs, False)])"

text \<open>\<^verbatim>\<open>current = traversed[--num_lists]\<close>\<close>

definition drop_at :: "nat \<Rightarrow> traversed \<Rightarrow> traversed" where
  "drop_at i tv = butlast (tv[i := last tv])"

definition total :: "traversed \<Rightarrow> nat" where
  "total tv = (\<Sum>p \<in># mset tv. length (fst p))"

lemma mset_drop_at: "i < length tv \<Longrightarrow> mset (drop_at i tv) = mset tv - {#tv ! i#}"
proof -
  assume i: "i < length tv"
  then have ne: "tv[i := last tv] \<noteq> []" by auto
  have "last (tv[i := last tv]) = last tv"
    using ne by (simp add: last_list_update)
  then have "mset (tv[i := last tv]) = add_mset (last tv) (mset (drop_at i tv))"
    using append_butlast_last_id [OF ne] unfolding drop_at_def
    by (metis add.right_neutral add_mset_add_single mset.simps(1) mset.simps(2) mset_append)
  with i show ?thesis by (simp add: mset_update)
qed

lemma drop_at_simps [simp]:
  "length (drop_at i tv) = length tv - 1"
  "j < i \<Longrightarrow> i < length tv \<Longrightarrow> drop_at i tv ! j = tv ! j"
  by (simp_all add: drop_at_def nth_butlast)

lemma sum_mset_nth:
  "i < length tv \<Longrightarrow> (\<Sum>p \<in># mset tv. g p) = g (tv ! i) + (\<Sum>p \<in># mset tv - {#tv ! i#}. g p)"
proof -
  assume "i < length tv"
  then have "(\<Sum>p \<in># mset tv. g p) = (\<Sum>p \<in># add_mset (tv ! i) (mset tv - {#tv ! i#}). g p)" by simp
  also have "\<dots> = g (tv ! i) + (\<Sum>p \<in># mset tv - {#tv ! i#}. g p)"
    by (simp only: image_mset_add_mset sum_mset.add_mset)
  finally show ?thesis .
qed

lemma total_update: "i < length tv \<Longrightarrow> total (tv[i := p]) + length (fst (tv ! i)) = total tv + length (fst p)"
  by (simp add: total_def mset_update sum_mset_nth [of i tv])

lemma total_drop_at: "i < length tv \<Longrightarrow> total (drop_at i tv) + length (fst (tv ! i)) = total tv"
  by (simp add: total_def mset_drop_at sum_mset_nth [of i tv])

text \<open>
  The loop of \<^verbatim>\<open>next()\<close>; \<open>best\<close> holds \<^verbatim>\<open>match\<close> and \<^verbatim>\<open>min_idx\<close>.  Dereferencing an iterator at the end of
  its list gives \<open>None\<close>.
\<close>

function next_loop :: "(uint32 \<Rightarrow> bool option) \<Rightarrow> ('e, 'a) store \<Rightarrow> traversed \<Rightarrow> nat \<Rightarrow>
    (uint32 \<times> nat) option \<Rightarrow> (traversed \<times> (uint32 \<times> nat) option) option" where
  "next_loop m st tv i best =
     (if i < length tv
      then (case tv ! i of
              ([], _) \<Rightarrow> None
            | (r # rs, ismatch) \<Rightarrow>
                if best = None \<or> prio st r < prio st (fst (the best))
                then (case (if ismatch then Some True else m r) of
                        None \<Rightarrow> None
                      | Some True \<Rightarrow> next_loop m st (tv[i := (r # rs, True)]) (Suc i) (Some (r, i))
                      | Some False \<Rightarrow>
                          next_loop m st (if rs = [] then drop_at i tv else tv[i := (rs, ismatch)]) i best)
                else next_loop m st tv (Suc i) best)
      else Some (tv, best))"
  by pat_completeness auto
termination
proof (relation "measure (\<lambda>(m, st, tv, i, best). total tv + (length tv - i))", goal_cases)
  case (2 m st tv i best l im r rs b)
  then show ?case using total_update [of i tv "(r # rs, True)"] by (cases "tv ! i") auto
next
  case (3 m st tv i best l im r rs b)
  then show ?case using total_update [of i tv "(rs, im)"] total_drop_at [of i tv] by (cases "tv ! i") auto
qed auto

declare next_loop.simps [simp del]

definition next_rule :: "(uint32 \<Rightarrow> bool option) \<Rightarrow> ('e, 'a) store \<Rightarrow> traversed \<Rightarrow>
    (traversed \<times> uint32 option) option" where
  "next_rule m st tv =
     (case next_loop m st tv 0 None of
        None \<Rightarrow> None
      | Some (tv', None) \<Rightarrow> Some (tv', None)
      | Some (tv', Some (r, i)) \<Rightarrow>
          (case tv' ! i of
             (rs, _) \<Rightarrow> Some (if tl rs = [] then drop_at i tv' else tv'[i := (tl rs, False)], Some r)))"

section \<open>What \<open>next()\<close> returns\<close>

definition pending :: "(uint32 \<Rightarrow> bool option) \<Rightarrow> traversed \<Rightarrow> uint32 multiset" where
  "pending m tv = (\<Sum>p \<in># mset tv. filter_mset (\<lambda>r. m r = Some True) (mset (fst p)))"

definition entry_ok :: "(uint32 \<Rightarrow> bool option) \<Rightarrow> ('e, 'a) store \<Rightarrow> uint32 list \<times> bool \<Rightarrow> bool" where
  "entry_ok m st p \<longleftrightarrow> fst p \<noteq> [] \<and> sorted_prio st (fst p) \<and> (snd p \<longrightarrow> m (hd (fst p)) = Some True) \<and>
     (\<forall>r \<in> set (fst p). m r \<noteq> None)"

definition result_ok :: "(uint32 \<Rightarrow> bool option) \<Rightarrow> ('e, 'a) store \<Rightarrow> traversed \<Rightarrow> bool" where
  "result_ok m st tv \<longleftrightarrow> (\<forall>p \<in> set tv. entry_ok m st p)"

abbreviation matching :: "(uint32 \<Rightarrow> bool option) \<Rightarrow> uint32 list \<Rightarrow> uint32 multiset" where
  "matching m rs \<equiv> filter_mset (\<lambda>r. m r = Some True) (mset rs)"

lemma pending_update:
  "i < length tv \<Longrightarrow> matching m (fst p) = matching m (fst (tv ! i)) \<Longrightarrow> pending m (tv[i := p]) = pending m tv"
  by (simp add: pending_def mset_update sum_mset_nth [of i tv])

lemma pending_drop_at:
  "i < length tv \<Longrightarrow> matching m (fst (tv ! i)) = {#} \<Longrightarrow> pending m (drop_at i tv) = pending m tv"
  by (simp add: pending_def mset_drop_at sum_mset_nth [of i tv])

lemma pending_pop:
  assumes "i < length tv" and "fst (tv ! i) = r # rs" and "m r = Some True"
  shows "pending m tv = add_mset r (pending m (if rs = [] then drop_at i tv else tv[i := (rs, False)]))"
  using assms by (simp add: pending_def mset_update mset_drop_at sum_mset_nth [of i tv])

lemmas pending_simps = pending_update pending_drop_at

lemma result_ok_update: "result_ok m st tv \<Longrightarrow> entry_ok m st p \<Longrightarrow> result_ok m st (tv[i := p])"
  unfolding result_ok_def using set_update_subset_insert [of tv i p] by blast

lemma result_ok_drop_at: "result_ok m st tv \<Longrightarrow> i < length tv \<Longrightarrow> result_ok m st (drop_at i tv)"
  unfolding result_ok_def using mset_drop_at [of i tv] by (metis in_diffD set_mset_mset)

definition best_ok :: "(uint32 \<Rightarrow> bool option) \<Rightarrow> ('e, 'a) store \<Rightarrow> traversed \<Rightarrow> nat \<Rightarrow> (uint32 \<times> nat) option \<Rightarrow> bool" where
  "best_ok m st tv i best \<longleftrightarrow>
     (case best of
        None \<Rightarrow> i = 0
      | Some (r, j) \<Rightarrow> j < i \<and> i \<le> length tv \<and> hd (fst (tv ! j)) = r \<and> m r = Some True \<and>
          (\<forall>j' < i. prio st r \<le> prio st (hd (fst (tv ! j')))))"

text \<open>The steps of the loop: skip an entry, take it as the best so far, or advance past a mismatch.\<close>

lemma best_ok_skip:
  assumes "best_ok m st tv i best" and "i < length tv" and "tv ! i = (r # rs, im)"
    and "\<not> (best = None \<or> prio st r < prio st (fst (the best)))"
  shows "best_ok m st tv (Suc i) best"
  using assms by (auto simp: best_ok_def less_Suc_eq split: option.splits)

lemma best_ok_take:
  assumes "best_ok m st tv i best" and "i < length tv" and "m r = Some True"
    and "best = None \<or> prio st r < prio st (fst (the best))"
  shows "best_ok m st (tv[i := (r # rs, True)]) (Suc i) (Some (r, i))"
proof (cases best)
  case None
  with assms show ?thesis by (cases tv) (auto simp: best_ok_def)
next
  case (Some p)
  then obtain b j where "best = Some (b, j)" by (cases p) simp
  with assms show ?thesis
    by (auto simp: best_ok_def less_Suc_eq nth_list_update dest: order.strict_implies_order intro: order.trans)
qed

lemma best_ok_frame:
  assumes "best_ok m st tv i best" and "i \<le> length tv'" and "\<And>j. j < i \<Longrightarrow> tv' ! j = tv ! j"
  shows "best_ok m st tv' i best"
  using assms by (auto simp: best_ok_def split: option.splits)

lemma advance_ok:
  assumes ok: "result_ok m st tv" and i: "i < length tv" and tvi: "tv ! i = (r # rs, im)"
    and m: "m r = Some False"
    and tv': "tv' = (if rs = [] then drop_at i tv else tv[i := (rs, im)])"
  shows "result_ok m st tv'" and "pending m tv' = pending m tv" and "i \<le> length tv'"
    and "\<And>j. j < i \<Longrightarrow> tv' ! j = tv ! j"
proof -
  from ok i have e: "entry_ok m st (r # rs, im)" unfolding tvi [symmetric] by (simp add: result_ok_def)
  with m have im: "\<not> im" by (auto simp: entry_ok_def)
  show "result_ok m st tv'"
  proof (cases "rs = []")
    case True
    with result_ok_drop_at [OF ok i] tv' show ?thesis by simp
  next
    case False
    with e im have "entry_ok m st (rs, im)" by (simp add: entry_ok_def sorted_prio_def)
    with False result_ok_update [OF ok] tv' show ?thesis by simp
  qed
  show "pending m tv' = pending m tv"
    using i m by (auto simp: tv' pending_simps tvi)
  show "i \<le> length tv'" and "\<And>j. j < i \<Longrightarrow> tv' ! j = tv ! j"
    using i by (auto simp: tv')
qed

lemma next_loop_correct:
  assumes "result_ok m st tv" and "best_ok m st tv i best"
  shows "\<exists>tv' best'. next_loop m st tv i best = Some (tv', best') \<and> result_ok m st tv' \<and>
    pending m tv' = pending m tv \<and> best_ok m st tv' (length tv') best'"
  using assms
proof (induction m st tv i best rule: next_loop.induct)
  case (1 m st tv i best)
  note ok = 1(4) and best = 1(5) and eq = next_loop.simps [of m st tv i best]
  show ?case
  proof (cases "i < length tv")
    case False
    then have "best_ok m st tv (length tv) best"
      using best by (auto simp: best_ok_def split: option.splits)
    with False ok show ?thesis by (simp add: eq)
  next
    case i: True
    with ok have e: "entry_ok m st (tv ! i)" by (simp add: result_ok_def)
    then obtain r rs im where tvi: "tv ! i = (r # rs, im)"
      by (cases "tv ! i") (auto simp: entry_ok_def neq_Nil_conv)
    show ?thesis
    proof (cases "best = None \<or> prio st r < prio st (fst (the best))")
      case skip: False
      have "next_loop m st tv i best = next_loop m st tv (Suc i) best"
        unfolding eq using i tvi skip by auto
      with 1(3) [OF i tvi [symmetric] refl skip ok best_ok_skip [OF best i tvi skip]]
      show ?thesis by simp
    next
      case take: True
      show ?thesis
      proof (cases "m r = Some True")
        case True
        have "(if im then Some True else m r) = Some True" using True by simp
        note IH = 1(1) [OF i tvi [symmetric] refl take this refl]
        have "result_ok m st (tv[i := (r # rs, True)])"
          by (rule result_ok_update [OF ok]) (use e tvi True in \<open>auto simp: entry_ok_def\<close>)
        note IH' = IH [OF this best_ok_take [OF best i True take]]
        have "next_loop m st tv i best = next_loop m st (tv[i := (r # rs, True)]) (Suc i) (Some (r, i))"
          unfolding eq using i tvi take True by auto
        moreover have "pending m (tv[i := (r # rs, True)]) = pending m tv"
          using i tvi by (simp add: pending_update)
        ultimately show ?thesis using IH' by simp
      next
        case False
        with e tvi have im: "\<not> im" and m: "m r = Some False" by (auto simp: entry_ok_def)
        note adv = advance_ok [OF ok i tvi m refl]
        have "(if im then Some True else m r) = Some False" using im m by simp
        note IH = 1(2) [OF i tvi [symmetric] refl take this refl adv(1) best_ok_frame [OF best adv(3,4)]]
        have "next_loop m st tv i best =
            next_loop m st (if rs = [] then drop_at i tv else tv[i := (rs, im)]) i best"
          unfolding eq using i tvi take im m by auto
        with IH adv(2) show ?thesis by simp
      qed
    qed
  qed
qed


theorem next_rule_correct:
  assumes ok: "result_ok m st tv"
  obtains (none) tv' where "next_rule m st tv = Some (tv', None)" and "pending m tv = {#}"
  | (some) tv' r where "next_rule m st tv = Some (tv', Some r)" and "result_ok m st tv'"
      and "pending m tv = add_mset r (pending m tv')" and "m r = Some True"
      and "\<forall>x \<in># pending m tv. prio st r \<le> prio st x"
proof -
  have "best_ok m st tv 0 None" by (simp add: best_ok_def)
  from next_loop_correct [OF ok this] obtain tv1 best where
    l: "next_loop m st tv 0 None = Some (tv1, best)" and ok1: "result_ok m st tv1"
    and p: "pending m tv1 = pending m tv" and b: "best_ok m st tv1 (length tv1) best" by blast
  show ?thesis
  proof (cases best)
    case None
    with b have "tv1 = []" by (simp add: best_ok_def)
    with p l None show ?thesis by (intro none) (auto simp: next_rule_def pending_def)
  next
    case (Some rj)
    then obtain r j where best: "best = Some (r, j)" by (cases rj) simp
    with b have j: "j < length tv1" "hd (fst (tv1 ! j)) = r" "m r = Some True"
      and min: "\<And>j'. j' < length tv1 \<Longrightarrow> prio st r \<le> prio st (hd (fst (tv1 ! j')))"
      by (auto simp: best_ok_def)
    from ok1 j(1) have e: "entry_ok m st (tv1 ! j)" by (simp add: result_ok_def)
    with j(2) obtain rs im where tvj: "tv1 ! j = (r # rs, im)"
      by (cases "tv1 ! j") (auto simp: entry_ok_def neq_Nil_conv)
    let ?tv' = "if rs = [] then drop_at j tv1 else tv1[j := (rs, False)]"
    show ?thesis
    proof (rule some [of ?tv' r])
      show "next_rule m st tv = Some (?tv', Some r)" by (simp add: next_rule_def l best tvj)
      have "entry_ok m st (rs, False)" if "rs \<noteq> []"
        using e that by (simp add: entry_ok_def tvj sorted_prio_def)
      then show "result_ok m st ?tv'"
        using ok1 j(1) by (auto intro: result_ok_update result_ok_drop_at)
      show "pending m tv = add_mset r (pending m ?tv')"
        unfolding p [symmetric] by (rule pending_pop) (use j tvj in auto)
      show "m r = Some True" by (fact j(3))
      show "\<forall>x \<in># pending m tv. prio st r \<le> prio st x"
      proof
        fix x
        assume "x \<in># pending m tv"
        then obtain q where q: "q \<in> set tv1" "x \<in> set (fst q)"
          unfolding p [symmetric] by (auto simp: pending_def)
        then obtain j' where j': "j' < length tv1" "tv1 ! j' = q" by (metis in_set_conv_nth)
        from ok1 q(1) have "sorted_prio st (fst q)" "fst q \<noteq> []" by (auto simp: result_ok_def entry_ok_def)
        with q(2) have "prio st (hd (fst q)) \<le> prio st x"
          by (cases "fst q") (auto simp: sorted_prio_def)
        with min [OF j'(1)] j'(2) show "prio st r \<le> prio st x" by auto
      qed
    qed
  qed
qed

section \<open>What the queue depends on\<close>

lemma result_ok_cong:
  assumes "\<And>p r. p \<in> set tv \<Longrightarrow> r \<in> set (fst p) \<Longrightarrow> m' r = m r \<and> prio st' r = prio st r"
  shows "result_ok m' st' tv = result_ok m st tv"
proof -
  have "entry_ok m' st' p = entry_ok m st p" if "p \<in> set tv" for p
  proof -
    have "sorted_prio st' (fst p) = sorted_prio st (fst p)"
      by (rule sorted_prio_cong) (use assms that in blast)
    then show ?thesis using assms [OF that] by (cases "fst p") (auto simp: entry_ok_def)
  qed
  then show ?thesis by (simp add: result_ok_def)
qed

lemma pending_cong:
  assumes "\<And>p r. p \<in> set tv \<Longrightarrow> r \<in> set (fst p) \<Longrightarrow> m' r = m r"
  shows "pending m' tv = pending m tv"
proof -
  have "matching m' (fst p) = matching m (fst p)" if "p \<in> set tv" for p
    using assms [OF that] by (intro filter_mset_cong) auto
  then show ?thesis unfolding pending_def by (intro arg_cong [of _ _ sum_mset] image_mset_cong) auto
qed

lemma in_pending: "p \<in> set tv \<Longrightarrow> r \<in> set (fst p) \<Longrightarrow> m r = Some True \<Longrightarrow> r \<in># pending m tv"
  by (force simp: pending_def)

end
