(* ===== verification/Nox_Traverse.thy ===== *)
theory Nox_Traverse
  imports Nox_Cnode_Result
begin

unbundle bit_operations_syntax

text \<open>
  The lookup in a classifier tree: \<^verbatim>\<open>Cnode::traverse\<close> of \<^verbatim>\<open>src/src/include/cnode.hh\<close> and the work list
  of \<^verbatim>\<open>Classifier::get_rules\<close> of \<^verbatim>\<open>src/src/include/classifier.hh\<close>.  The record \<open>data_ops\<close> holds the two
  function templates a data type has to specialise, \<^verbatim>\<open>get_field<Expr, Data>\<close> and
  \<^verbatim>\<open>matches<Expr, Data>\<close>; the outer \<open>None\<close> of their results is an assertion failure.  The locale
  \<open>classifier_data\<close> states what the classifier needs of an expression class and a data class.
\<close>

section \<open>Traversal\<close>

record ('e, 'd) data_ops =
  data_get_field :: "nat \<Rightarrow> 'd \<Rightarrow> uint32 \<Rightarrow> uint32 option option"
  data_matches :: "uint32 \<Rightarrow> 'e \<Rightarrow> 'd \<Rightarrow> bool option"

text \<open>The values of the loop \<^verbatim>\<open>while (get_field(split_field, data, idx, rule_value)) idx++\<close>.\<close>

partial_function (option) field_loop :: "(uint32 \<Rightarrow> uint32 option option) \<Rightarrow> uint32 \<Rightarrow> uint32 list option" where
  "field_loop g idx =
     Option.bind (g idx) (\<lambda>x.
       case x of
         None \<Rightarrow> Some []
       | Some rv \<Rightarrow> Option.bind (field_loop g (idx + 1)) (\<lambda>vs. Some (rv # vs)))"

definition bucket_child :: "cnode list list \<Rightarrow> uint32 \<Rightarrow> cnode list" where
  "bucket_child bs rv =
     (case find (\<lambda>c. cvalue c = rv) (bs ! get_bucket rv (length bs - 1)) of None \<Rightarrow> [] | Some c \<Rightarrow> [c])"

definition traverse :: "('e, 'd) data_ops \<Rightarrow> 'd \<Rightarrow> cnode \<Rightarrow> traversed \<Rightarrow> cnode list \<Rightarrow>
    (traversed \<times> cnode list) option" where
  "traverse dops d t tv to_traverse =
     (case t of
        Leaf n v rs \<Rightarrow> Some (push tv rs, to_traverse)
      | Node n v rs bs f any \<Rightarrow>
          (case field_loop (data_get_field dops f d) 0 of
             None \<Rightarrow> None
           | Some vs \<Rightarrow>
               Some (push tv rs,
                     to_traverse @ (case any of None \<Rightarrow> [] | Some c \<Rightarrow> [c]) @
                       concat (map (bucket_child bs) vs) @ (if vs = [] then concat bs else []))))"

partial_function (option) get_rules_loop ::
    "('e, 'd) data_ops \<Rightarrow> 'd \<Rightarrow> traversed \<Rightarrow> cnode list \<Rightarrow> traversed option" where
  "get_rules_loop dops d tv to_traverse =
     (if to_traverse = [] then Some tv
      else Option.bind (traverse dops d (last to_traverse) tv (butlast to_traverse))
             (\<lambda>(tv', to_traverse'). get_rules_loop dops d tv' to_traverse'))"

definition get_rules :: "('e, 'd) data_ops \<Rightarrow> 'd \<Rightarrow> cnode \<Rightarrow> traversed \<Rightarrow> traversed option" where
  "get_rules dops d root tv =
     Option.bind (traverse dops d root tv []) (\<lambda>(tv', to_traverse). get_rules_loop dops d tv' to_traverse)"

text \<open>The client's loop: the rules that repeated calls of \<^verbatim>\<open>next()\<close> return until it returns NULL.\<close>

partial_function (option) drain :: "(uint32 \<Rightarrow> bool option) \<Rightarrow> ('e, 'a) store \<Rightarrow> traversed \<Rightarrow> uint32 list option" where
  "drain m st tv =
     Option.bind (next_rule m st tv) (\<lambda>(tv', ro).
       case ro of
         None \<Rightarrow> Some []
       | Some r \<Rightarrow> Option.bind (drain m st tv') (\<lambda>rs. Some (r # rs)))"

lemma drain_correct:
  assumes "result_ok m st tv"
  shows "\<exists>rs. drain m st tv = Some rs \<and> mset rs = pending m tv \<and> sorted_prio st rs"
  using assms
proof (induction "size (pending m tv)" arbitrary: tv rule: less_induct)
  case less
  from less.prems show ?case
  proof (cases rule: next_rule_correct)
    case (none tv')
    then show ?thesis by (subst drain.simps) (simp add: sorted_prio_def)
  next
    case (some tv' r)
    then obtain rs where rs: "drain m st tv' = Some rs" "mset rs = pending m tv'" "sorted_prio st rs"
      using less.hyps [of tv'] by auto
    from some(3,5) rs(2) have "\<forall>x \<in> set rs. prio st r \<le> prio st x" by (metis insert_iff set_mset_add_mset_insert set_mset_mset)
    with rs some show ?thesis by (subst drain.simps) (auto simp: sorted_prio_def)
  qed
qed

section \<open>The children a lookup visits\<close>

lemma filter_cvalue_distinct:
  "distinct (map cvalue ch) \<Longrightarrow>
     filter (\<lambda>c. cvalue c = v) ch = (case find (\<lambda>c. cvalue c = v) ch of None \<Rightarrow> [] | Some c \<Rightarrow> [c])"
proof (induction ch)
  case (Cons c ch)
  have "filter (\<lambda>x. cvalue x = v) ch = []" if "cvalue c = v"
    using that Cons.prems by (auto simp: filter_empty_conv) (metis image_eqI)
  with Cons show ?case by auto
qed simp

lemma chains_ok_other:
  "chains_ok ops st f bm i bs \<Longrightarrow> get_bucket v bm < i \<Longrightarrow> filter (\<lambda>c. cvalue c = v) (concat bs) = []"
  by (induction bs arbitrary: i) (fastforce simp: chain_ok_def filter_empty_conv)+

lemma chains_ok_filter:
  assumes "chains_ok ops st f bm i bs" and "i \<le> get_bucket v bm" and "get_bucket v bm < i + length bs"
  shows "filter (\<lambda>c. cvalue c = v) (concat bs) =
    (case find (\<lambda>c. cvalue c = v) (bs ! (get_bucket v bm - i)) of None \<Rightarrow> [] | Some c \<Rightarrow> [c])"
  using assms
proof (induction bs arbitrary: i)
  case (Cons ch bs)
  then have ch: "chain_ok ops st f bm i ch" and bs: "chains_ok ops st f bm (Suc i) bs" by auto
  show ?case
  proof (cases "get_bucket v bm = i")
    case True
    with ch bs show ?thesis by (simp add: chains_ok_other chain_ok_def filter_cvalue_distinct)
  next
    case False
    with ch have "filter (\<lambda>c. cvalue c = v) ch = []" by (auto simp: chain_ok_def filter_empty_conv)
    with False Cons.IH [OF bs] Cons.prems(2,3) show ?thesis by (simp add: nth_Cons')
  qed
qed simp

lemma bucket_child_filter:
  assumes "chains_ok ops st f (length bs - 1) 0 bs" and "bs \<noteq> []"
  shows "bucket_child bs v = filter (\<lambda>c. cvalue c = v) (concat bs)"
proof -
  have "get_bucket v (length bs - 1) < length bs"
    using get_bucket_le [of v "length bs - 1"] assms(2) by (cases bs) auto
  with chains_ok_filter [OF assms(1), of v] show ?thesis by (simp add: bucket_child_def)
qed

lemma mset_bucket_children:
  assumes "chains_ok ops st f (length bs - 1) 0 bs" and "bs \<noteq> []" and "distinct vs"
  shows "mset (concat (map (bucket_child bs) vs)) = filter_mset (\<lambda>c. cvalue c \<in> set vs) (mset (concat bs))"
  using assms(3)
proof (induction vs)
  case (Cons v vs)
  then have "filter_mset (\<lambda>c. cvalue c \<in> set (v # vs)) M =
      filter_mset (\<lambda>c. cvalue c = v) M + filter_mset (\<lambda>c. cvalue c \<in> set vs) M" for M
    by (induction M) auto
  with Cons bucket_child_filter [OF assms(1,2), of v] show ?case by simp
qed simp

section \<open>What a lookup collects\<close>

text \<open>
  \<open>rule_ok\<close> is what the expressions of the rules must satisfy, \<open>split_ok\<close> the fields that a tree may
  split on when it is searched with this data.
\<close>

locale classifier_data =
  fixes ops :: "'e expr_ops"
    and dops :: "('e, 'd) data_ops"
    and rule_ok :: "'e \<Rightarrow> bool"
    and split_ok :: "nat \<Rightarrow> bool"
  assumes fields: "split_ok f \<Longrightarrow> \<exists>vs. field_loop (data_get_field dops f d) 0 = Some vs \<and> distinct vs"
    and total: "rule_ok e \<Longrightarrow> data_matches dops r e d \<noteq> None"
    and agree: "data_matches dops r e d = Some True \<Longrightarrow> get_field ops f e = Some v \<Longrightarrow>
      field_loop (data_get_field dops f d) 0 = Some vs \<Longrightarrow> vs \<noteq> [] \<Longrightarrow> v \<in> set vs"
    and defined: "rule_ok e \<Longrightarrow> f < NUM_FIELDS ops \<Longrightarrow> get_field ops f e \<noteq> None \<Longrightarrow> split_ok f"
    and threshold: "0 < LEAF_THRESHOLD ops"
begin

abbreviation hit :: "('e, 'a) store \<Rightarrow> 'd \<Rightarrow> uint32 \<Rightarrow> bool option" where
  "hit st d r \<equiv> data_matches dops r (ex st r) d"

definition hits :: "('e, 'a) store \<Rightarrow> 'd \<Rightarrow> uint32 list \<Rightarrow> uint32 multiset" where
  "hits st d rs = filter_mset (\<lambda>r. hit st d r = Some True) (mset rs)"

lemma hits_append [simp]: "hits st d (xs @ ys) = hits st d xs + hits st d ys"
  by (simp add: hits_def)

lemma hits_concat: "hits st d (concat xss) = (\<Sum>xs \<in># mset xss. hits st d xs)"
  by (induction xss) (simp_all add: hits_def)

definition tree_ok :: "('e, 'a) store \<Rightarrow> cnode \<Rightarrow> bool" where
  "tree_ok st t \<longleftrightarrow> wf_cnode ops st t \<and> (\<forall>f \<in> split_fields t. split_ok f)"

text \<open>The lists that visiting the subtrees on the top of the stack adds to the result.\<close>

definition visits :: "('e, 'a) store \<Rightarrow> 'd \<Rightarrow> cnode list \<Rightarrow> uint32 list list \<Rightarrow> bool" where
  "visits st d cs rss \<longleftrightarrow>
     (\<forall>tv stack. get_rules_loop dops d tv (stack @ cs) =
        get_rules_loop dops d (tv @ map (\<lambda>rs. (rs, False)) rss) stack) \<and>
     (\<forall>rs \<in> set rss. rs \<noteq> [] \<and> sorted_prio st rs) \<and>
     set (concat rss) \<subseteq> set (concat (map tree_rules cs)) \<and>
     hits st d (concat rss) = hits st d (concat (map tree_rules cs))"

lemma visits_append:
  assumes "visits st d cs rss" and "visits st d ds rss'"
  shows "visits st d (cs @ ds) (rss' @ rss)"
proof -
  have "get_rules_loop dops d tv ((stack @ cs) @ ds) =
      get_rules_loop dops d ((tv @ map (\<lambda>rs. (rs, False)) rss') @ map (\<lambda>rs. (rs, False)) rss) stack" for tv stack
    using assms unfolding visits_def by metis
  with assms show ?thesis unfolding visits_def by (auto simp: add.commute)
qed

lemma visit_stack: "(\<And>c. c \<in> set cs \<Longrightarrow> \<exists>rss. visits st d [c] rss) \<Longrightarrow> \<exists>rss. visits st d cs rss"
proof (induction cs)
  case Nil
  show ?case by (rule exI [of _ "[]"]) (simp add: visits_def)
next
  case (Cons c cs)
  from Cons.prems obtain rss where "visits st d [c] rss" by (meson list.set_intros(1))
  moreover from Cons obtain rss' where "visits st d cs rss'" by (meson list.set_intros(2))
  ultimately show ?case using visits_append by fastforce
qed

lemma misses:
  assumes "field_loop (data_get_field dops f d) 0 = Some vs" and "vs \<noteq> []" and "v \<notin> set vs"
    and "\<forall>r \<in> set rs. get_field ops f (ex st r) = Some v"
  shows "hits st d rs = {#}"
  using agree [OF _ _ assms(1,2)] assms(3,4) unfolding hits_def by fastforce

lemma hits_trees: "hits st d (concat (map tree_rules cs)) = (\<Sum>c \<in># mset cs. hits st d (tree_rules c))"
  by (induction cs) (simp_all add: hits_def)

lemma sum_filter_mset:
  fixes F :: "'x \<Rightarrow> 'y multiset"
  shows "(\<And>c. c \<in># M \<Longrightarrow> \<not> P c \<Longrightarrow> F c = {#}) \<Longrightarrow> (\<Sum>c \<in># filter_mset P M. F c) = (\<Sum>c \<in># M. F c)"
  by (induction M) auto

lemma chains_ok_child:
  "chains_ok ops st f bm i bs \<Longrightarrow> c \<in> set (concat bs) \<Longrightarrow>
     \<forall>r \<in> set (tree_rules c). get_field ops f (ex st r) = Some (cvalue c)"
  by (induction bs arbitrary: i) (auto simp: chain_ok_def)

lemma visited_hits:
  assumes "wf_cnode ops st (Node n v rs bs f any)"
    and vs: "field_loop (data_get_field dops f d) 0 = Some vs" "distinct vs"
    and ps: "ps = (case any of None \<Rightarrow> [] | Some c \<Rightarrow> [c]) @
      concat (map (bucket_child bs) vs) @ (if vs = [] then concat bs else [])"
  shows "set ps \<subseteq> set (children bs any)"
    and "hits st d (concat (map tree_rules ps)) = hits st d (concat (map tree_rules (children bs any)))"
proof -
  from assms(1) have ch: "chains_ok ops st f (length bs - 1) 0 bs" "bs \<noteq> []" by auto
  note kids = mset_bucket_children [OF ch vs(2)]
  then have "set (concat (map (bucket_child bs) vs)) = {c \<in> set (concat bs). cvalue c \<in> set vs}"
    by (metis set_mset_filter set_mset_mset)
  then show "set ps \<subseteq> set (children bs any)" by (auto simp: ps children_def simp del: set_concat)
  have "hits st d (tree_rules c) = {#}" if "c \<in># mset (concat bs)" "cvalue c \<notin> set vs" "vs \<noteq> []" for c
    using misses [OF vs(1) that(3,2), of "tree_rules c" st] chains_ok_child [OF ch(1)] that(1) by simp
  then have "vs \<noteq> [] \<Longrightarrow> (\<Sum>c \<in># filter_mset (\<lambda>c. cvalue c \<in> set vs) (mset (concat bs)). hits st d (tree_rules c)) =
      (\<Sum>c \<in># mset (concat bs). hits st d (tree_rules c))"
    by (intro sum_filter_mset) auto
  then show "hits st d (concat (map tree_rules ps)) = hits st d (concat (map tree_rules (children bs any)))"
    unfolding hits_trees ps children_def
    by (cases "vs = []") (simp_all add: kids add.commute del: mset_concat)
qed

lemma visit_Node:
  assumes ok: "tree_ok st (Node n v rs bs f any)"
    and IH: "\<And>c. c \<in> set (children bs any) \<Longrightarrow> \<exists>rss. visits st d [c] rss"
  shows "\<exists>rss. visits st d [Node n v rs bs f any] rss"
proof -
  from ok have so: "split_ok f" and wf: "wf_cnode ops st (Node n v rs bs f any)" by (auto simp: tree_ok_def)
  from fields [OF so, of d] obtain vs where
    vs: "field_loop (data_get_field dops f d) 0 = Some vs" "distinct vs" by blast
  define ps where "ps = (case any of None \<Rightarrow> [] | Some c \<Rightarrow> [c]) @
      concat (map (bucket_child bs) vs) @ (if vs = [] then concat bs else [])"
  note kids = visited_hits [OF wf vs ps_def]
  with visit_stack [of ps st d] IH obtain rss where rss: "visits st d ps rss" by blast
  have "traverse dops d (Node n v rs bs f any) tv stack = Some (push tv rs, stack @ ps)" for tv stack
    by (simp add: traverse_def vs(1) ps_def)
  then have "get_rules_loop dops d tv (stack @ [Node n v rs bs f any]) = get_rules_loop dops d (push tv rs) (stack @ ps)"
    for tv stack by (subst get_rules_loop.simps) simp
  moreover have "push tv rs = tv @ map (\<lambda>rs. (rs, False)) (if rs = [] then [] else [rs])" for tv
    by (simp add: push_def)
  moreover have "sorted_prio st rs" using wf by simp
  moreover have "set (concat rss) \<subseteq> set (concat (map tree_rules (children bs any)))"
  proof -
    have "set (concat rss) \<subseteq> set (concat (map tree_rules ps))" using rss by (simp add: visits_def)
    also have "\<dots> \<subseteq> set (concat (map tree_rules (children bs any)))" using kids(1) by (simp del: set_children) blast
    finally show ?thesis .
  qed
  ultimately have "visits st d [Node n v rs bs f any] ((if rs = [] then [] else [rs]) @ rss)"
    using rss kids(2) unfolding visits_def by (auto simp del: set_children set_concat)
  then show ?thesis by blast
qed

lemma visit_tree: "tree_ok st t \<Longrightarrow> \<exists>rss. visits st d [t] rss"
proof (induction t rule: cnode_induct)
  case (Leaf n v rs)
  have "get_rules_loop dops d tv (stack @ [Leaf n v rs]) =
      get_rules_loop dops d (tv @ map (\<lambda>rs. (rs, False)) (if rs = [] then [] else [rs])) stack" for tv stack
    by (subst get_rules_loop.simps) (simp add: traverse_def push_def)
  with Leaf have "visits st d [Leaf n v rs] (if rs = [] then [] else [rs])"
    by (auto simp: visits_def tree_ok_def)
  then show ?case by blast
next
  case (Node n v rs bs f any)
  from Node.prems have "tree_ok st c" if "c \<in> set (children bs any)" for c
    using that by (auto simp: tree_ok_def simp del: set_children)
  with Node show ?case by (intro visit_Node) blast+
qed

text \<open>A lookup ends, and the matching rules of its queue are the matching rules of the tree.\<close>

theorem lookup:
  assumes "tree_ok st t" and "\<forall>r \<in> set (tree_rules t). rule_ok (ex st r)"
  shows "\<exists>tv. get_rules dops d t [] = Some tv \<and> result_ok (hit st d) st tv \<and>
    pending (hit st d) tv = hits st d (tree_rules t)"
proof -
  from visit_tree [OF assms(1)] obtain rss where v: "visits st d [t] rss" by blast
  let ?tv = "map (\<lambda>rs. (rs, False)) rss"
  have "get_rules_loop dops d [] ([] @ [t]) = get_rules_loop dops d ([] @ ?tv) []"
    using v unfolding visits_def by blast
  then have "get_rules dops d t [] = Some ?tv"
    unfolding get_rules_def by (subst (asm) get_rules_loop.simps) (simp add: get_rules_loop.simps [of _ _ _ "[]"])
  moreover have "result_ok (hit st d) st ?tv"
    using v assms(2) total unfolding result_ok_def entry_ok_def visits_def by fastforce
  moreover have "pending (hit st d) ?tv = hits st d (concat rss)"
    unfolding hits_concat pending_def by (simp add: hits_def [abs_def] image_mset.compositionality comp_def)
  then have "pending (hit st d) ?tv = hits st d (tree_rules t)"
    using v unfolding visits_def by simp
  ultimately show ?thesis by blast
qed

end

end
