(* ===== verification/Nox_Classifier.thy ===== *)
theory Nox_Classifier
  imports Nox_Traverse
begin

unbundle bit_operations_syntax

text \<open>
  \<^verbatim>\<open>class Classifier\<close> of \<^verbatim>\<open>src/src/include/classifier.hh\<close>: the tree together with the map from rule ids
  to rules.  A classifier that is searched with a data class has the invariant \<open>classifier_ok\<close>; every
  operation keeps it and acts on the map from ids to (priority, expression, action) as its contract
  says, whatever the shape of the tree.
\<close>

section \<open>State and operations\<close>

record ('e, 'a) classifier =
  root :: cnode
  rules :: "('e, 'a) store"
  id_counter :: uint32
  next_addr :: nat

definition new_classifier :: "('e, 'a) classifier" where
  "new_classifier = \<lparr>root = Leaf 0 0 [], rules = Map.empty, id_counter = 1, next_addr = 1\<rparr>"

text \<open>The constructor of an inner node with its two assertions.\<close>

definition Cnode_split :: "nat \<Rightarrow> nat \<Rightarrow> nat \<Rightarrow> cnode option" where
  "Cnode_split nx field n_buckets =
     (if field < 32 \<and> 0 < n_buckets \<and> (of_nat n_buckets AND of_nat (n_buckets - 1) :: uint32) = 0
      then Some (Node nx 0 [] (replicate n_buckets []) field None) else None)"

definition new_classifier_split :: "nat \<Rightarrow> nat \<Rightarrow> ('e, 'a) classifier option" where
  "new_classifier_split field n_buckets =
     map_option (\<lambda>t. \<lparr>root = t, rules = Map.empty, id_counter = 1, next_addr = 1\<rparr>) (Cnode_split 0 field n_buckets)"

definition reset :: "('e, 'a) classifier \<Rightarrow> ('e, 'a) classifier" where
  "reset c = c\<lparr>root := Leaf (next_addr c) 0 [], rules := Map.empty, id_counter := 1, next_addr := Suc (next_addr c)\<rparr>"

definition reset_split :: "nat \<Rightarrow> nat \<Rightarrow> ('e, 'a) classifier \<Rightarrow> ('e, 'a) classifier option" where
  "reset_split field n_buckets c =
     map_option (\<lambda>t. c\<lparr>root := t, rules := Map.empty, id_counter := 1, next_addr := Suc (next_addr c)\<rparr>)
       (Cnode_split (next_addr c) field n_buckets)"

text \<open>\<open>get_id\<close> returns the id or \<^verbatim>\<open>ENOMEM\<close>, and the new value of \<^verbatim>\<open>id_counter\<close>.\<close>

abbreviation max_id :: uint32 where
  "max_id \<equiv> NOT 0"

function get_id_loop :: "('e, 'a) store \<Rightarrow> uint32 \<Rightarrow> bool \<Rightarrow> uint32 option" where
  "get_id_loop st counter loop =
     (if st counter \<noteq> None
      then if counter = max_id
           then (if loop then None else get_id_loop st 1 True)
           else get_id_loop st (counter + 1) loop
      else Some counter)"
  by pat_completeness auto
termination
proof (relation "measure (\<lambda>(st, counter, loop). (if loop then 0 else 2 ^ 32) + (2 ^ 32 - unat counter))", goal_cases)
  case 1
  show ?case by simp
next
  case (2 st counter loop)
  have "unat (1 :: uint32) = 1" by simp
  with 2 unat_lt32 [of counter] show ?case by simp
next
  case (3 st counter loop)
  then have "unat (counter + 1) = Suc (unat counter)" by (intro unat_plus_one) simp
  with unat_lt32 [of counter] show ?case by simp
qed

declare get_id_loop.simps [simp del]

definition get_id :: "('e, 'a) classifier \<Rightarrow> (errno + uint32) \<times> uint32" where
  "get_id c =
     (case get_id_loop (rules c) (id_counter c) False of
        None \<Rightarrow> (Inl ENOMEM, max_id)
      | Some rid \<Rightarrow> (Inr rid, if rid = max_id then 1 else rid))"

definition classifier_add_rule :: "'e expr_ops \<Rightarrow> uint32 \<Rightarrow> 'e \<Rightarrow> 'a \<Rightarrow> ('e, 'a) classifier \<Rightarrow>
    (errno + uint32) \<times> ('e, 'a) classifier" where
  "classifier_add_rule ops p e a c =
     (case get_id c of
        (Inl err, counter) \<Rightarrow> (Inl err, c\<lparr>id_counter := counter\<rparr>)
      | (Inr new_id, counter) \<Rightarrow>
          if rules c new_id \<noteq> None then (Inl ENOMEM, c\<lparr>id_counter := counter\<rparr>)
          else
            (let st = (rules c)(new_id \<mapsto> \<lparr>rule_id = new_id, priority = p, expr = e, action = a, node = None\<rparr>)
             in case add_rule ops st new_id 0 (next_addr c) (root c) of
                  (t, nx, k) \<Rightarrow>
                    (Inr new_id, c\<lparr>root := t, rules := set_node (Some k) new_id st, id_counter := counter, next_addr := nx\<rparr>)))"

definition change_rule_priority :: "uint32 \<Rightarrow> uint32 \<Rightarrow> ('e, 'a) classifier \<Rightarrow> bool \<times> ('e, 'a) classifier" where
  "change_rule_priority rid p c =
     (case rules c rid of
        None \<Rightarrow> (False, c)
      | Some rl \<Rightarrow>
          (case node rl of
             None \<Rightarrow> (False, c)
           | Some k \<Rightarrow>
               (case node_change_rule_priority k rid p (root c) (rules c) of
                  (b, t, st) \<Rightarrow> (b, c\<lparr>root := t, rules := st\<rparr>))))"

definition get_rule :: "uint32 \<Rightarrow> ('e, 'a) classifier \<Rightarrow> ('e, 'a) rule option" where
  "get_rule rid c = rules c rid"

definition delete_rule :: "uint32 \<Rightarrow> ('e, 'a) classifier \<Rightarrow> bool \<times> ('e, 'a) classifier" where
  "delete_rule rid c =
     (case rules c rid of
        None \<Rightarrow> (False, c)
      | Some rl \<Rightarrow>
          (case node rl of
             None \<Rightarrow> (True, c\<lparr>rules := (rules c)(rid := None)\<rparr>)
           | Some k \<Rightarrow>
               (case node_remove_rule k rid (root c) (rules c) of
                  (_, t, st) \<Rightarrow> (True, c\<lparr>root := t, rules := st(rid := None)\<rparr>))))"

text \<open>\<open>replace_root\<close> is \<^verbatim>\<open>if (tmp != root.get()) root.reset(tmp)\<close>, which destroys the old tree.\<close>

definition replace_root :: "cnode \<times> nat \<times> ('e, 'a) store \<Rightarrow> ('e, 'a) classifier \<Rightarrow> ('e, 'a) classifier" where
  "replace_root r c =
     (case r of
        (t, nx, st) \<Rightarrow>
          c\<lparr>root := t, next_addr := nx, rules := if addr t = addr (root c) then st else destroy (root c) st\<rparr>)"

definition classifier_build :: "'e expr_ops \<Rightarrow> ('e, 'a) classifier \<Rightarrow> ('e, 'a) classifier" where
  "classifier_build ops c = replace_root (build ops 0 False (root c) (next_addr c, rules c)) c"

definition classifier_unbuild :: "('e, 'a) classifier \<Rightarrow> ('e, 'a) classifier" where
  "classifier_unbuild c = replace_root (unbuild (root c) (next_addr c, rules c)) c"

definition classifier_clean :: "('e, 'a) classifier \<Rightarrow> ('e, 'a) classifier" where
  "classifier_clean c = c\<lparr>root := snd (clean (root c))\<rparr>"

definition classifier_get_rules ::
    "('e, 'd) data_ops \<Rightarrow> 'd \<Rightarrow> ('e, 'a) classifier \<Rightarrow> traversed \<Rightarrow> traversed option" where
  "classifier_get_rules dops d c result = get_rules dops d (root c) result"

text \<open>
  The loop of \<^verbatim>\<open>delete_rules\<close>.  The iterators of the result point past every rule that was deleted, so
  the lists of the result are the ones read before the deletions.
\<close>

definition rule_matches :: "('e, 'd) data_ops \<Rightarrow> 'd \<Rightarrow> ('e, 'a) store \<Rightarrow> uint32 \<Rightarrow> bool option" where
  "rule_matches dops d st r = data_matches dops r (ex st r) d"

partial_function (option) delete_loop :: "('e, 'd) data_ops \<Rightarrow> 'd \<Rightarrow> uint32 \<Rightarrow> ('e, 'a) classifier \<Rightarrow> traversed \<Rightarrow>
    (uint32 \<times> ('e, 'a) classifier) option" where
  "delete_loop dops d n_del c res =
     Option.bind (next_rule (rule_matches dops d (rules c)) (rules c) res) (\<lambda>(res', ro).
       case ro of
         None \<Rightarrow> Some (n_del, c)
       | Some r \<Rightarrow>
           (case delete_rule r c of
              (b, c') \<Rightarrow> delete_loop dops d (if b then n_del + 1 else n_del) c' res'))"

definition delete_rules :: "('e, 'd) data_ops \<Rightarrow> 'd \<Rightarrow> ('e, 'a) classifier \<Rightarrow> (uint32 \<times> ('e, 'a) classifier) option" where
  "delete_rules dops d c =
     Option.bind (classifier_get_rules dops d c []) (\<lambda>res. delete_loop dops d 0 c res)"

section \<open>Rule ids\<close>

lemma get_id_loop_fresh: "get_id_loop st counter loop = Some rid \<Longrightarrow> st rid = None"
  by (induction st counter loop rule: get_id_loop.induct)
    (subst (asm) (2) get_id_loop.simps, auto split: if_splits)

lemma get_id_loop_scan:
  "get_id_loop st counter True = None \<Longrightarrow> counter \<le> x \<Longrightarrow> st x \<noteq> None"
proof (induction st counter True rule: get_id_loop.induct)
  case (1 st counter)
  from 1(3) have used: "st counter \<noteq> None"
    by (subst (asm) get_id_loop.simps) (auto split: if_splits)
  show ?case
  proof (cases "counter = x")
    case False
    with 1(4) have less: "counter < x" by simp
    then have m: "counter \<noteq> max_id" by auto
    with used 1(3) have "get_id_loop st (counter + 1) True = None"
      by (subst (asm) get_id_loop.simps) auto
    with 1(2) [OF used m] less show ?thesis by (simp add: inc_le)
  qed (use used in simp)
qed

lemma get_id_loop_full:
  "get_id_loop st counter False = None \<Longrightarrow> x \<noteq> 0 \<Longrightarrow> st x \<noteq> None"
proof (induction st counter False rule: get_id_loop.induct)
  case (1 st counter)
  show ?case
  proof (cases "counter = max_id")
    case True
    with 1(3) have "get_id_loop st 1 True = None"
      by (subst (asm) get_id_loop.simps) (auto split: if_splits)
    moreover have "1 \<le> x" using 1(4) by (simp add: word_greater_zero_iff inc_le [of 0 x, simplified])
    ultimately show ?thesis by (rule get_id_loop_scan)
  next
    case False
    from 1(3) have "st counter \<noteq> None" by (subst (asm) get_id_loop.simps) (auto split: if_splits)
    with False 1 show ?thesis by (subst (asm) (3) get_id_loop.simps) auto
  qed
qed

lemma get_id_loop_nonzero: "get_id_loop st counter loop = Some rid \<Longrightarrow> counter \<noteq> 0 \<Longrightarrow> rid \<noteq> 0"
proof (induction st counter loop rule: get_id_loop.induct)
  case (1 st counter loop)
  have "counter + 1 \<noteq> 0" if "counter \<noteq> max_id"
    using that unat_plus_one [of counter] by fastforce
  with 1 show ?case
    using get_id_loop.simps [of st counter loop] by (auto split: if_splits)
qed

section \<open>The invariant and the contract\<close>

definition classifier_ok :: "'e expr_ops \<Rightarrow> ('e, 'a) classifier \<Rightarrow> bool" where
  "classifier_ok ops c \<longleftrightarrow>
     forest_ok ops False (next_addr c) (rules c) [root c] \<and> set (tree_rules (root c)) = dom (rules c) \<and>
     (\<forall>r rl. rules c r = Some rl \<longrightarrow> rule_id rl = r) \<and> id_counter c \<noteq> 0 \<and> rules c 0 = None"

definition contents :: "('e, 'a) classifier \<Rightarrow> uint32 \<Rightarrow> (uint32 \<times> 'e \<times> 'a) option" where
  "contents c r = map_option (\<lambda>rl. (priority rl, expr rl, action rl)) (rules c r)"

lemma forest_ok_store:
  assumes "forest_ok ops cp nx st [t]" and "\<And>r. r \<in> set (tree_rules t) \<Longrightarrow> st' r = st r"
  shows "forest_ok ops cp nx st' [t]"
proof -
  have "wf_cnode ops st' t = wf_cnode ops st t"
    by (rule wf_cnode_rules_cong) (simp add: assms(2) prio_def ex_def)
  moreover have "ptr_ok st' t = ptr_ok st t" by (rule ptr_ok_frame) (rule assms(2))
  ultimately show ?thesis using assms(1) by (simp add: forest_ok_def)
qed

lemma add_rule_forest:
  assumes ok: "forest_ok ops False nx st [t]" and r: "st r \<noteq> None" "r \<notin> set (tree_rules t)"
    and add: "add_rule ops st r path nx t = (t', nx', k)"
  shows "forest_ok ops False nx' (set_node (Some k) r st) [t']"
    and "set (tree_rules t') = insert r (set (tree_rules t))"
proof -
  from ok have wf: "wf_cnode ops st t" and d: "distinct (tree_rules t)" and p: "ptr_ok st t"
    and a: "addrs_ok nx t" by (auto simp: forest_ok_def addrs_ok_def)
  note pl = add_rule_placements [OF add wf]
  show tr: "set (tree_rules t') = insert r (set (tree_rules t))" by (rule add_rule_tree_rules [OF add wf])
  have "mset (tree_rules t') = mset (r # tree_rules t)" using tree_rules_placements [OF pl] by simp
  with d r(2) have "distinct (tree_rules t')" by (metis distinct.simps(2) mset_eq_imp_distinct_iff)
  moreover have "wf_cnode ops (set_node (Some k) r st) t'"
    using add_rule_wf [OF add wf] wf_cnode_same [OF same_rules_set_node] by blast
  moreover have "ptr_ok (set_node (Some k) r st) t'"
    unfolding ptr_ok_def
  proof clarify
    fix x m
    assume "(x, m) \<in> set (placements t')"
    then have "(x, m) \<in># add_mset (r, k) (mset (placements t))" unfolding pl [symmetric] by simp
    then consider "x = r" "m = k" | "(x, m) \<in> set (placements t)" by auto
    then show "\<exists>rl. set_node (Some k) r st x = Some rl \<and> node rl = Some m"
    proof cases
      case 1
      with r(1) show ?thesis by (auto simp: set_node_def)
    next
      case 2
      then have "x \<noteq> r" using r(2) placements_rules by blast
      with 2 p show ?thesis by (auto simp: ptr_ok_def set_node_def)
    qed
  qed
  ultimately show "forest_ok ops False nx' (set_node (Some k) r st) [t']"
    using add_rule_addrs_ok [OF add wf a] by (simp add: forest_ok_def addrs_ok_def)
qed

lemma classifier_add_rule_ok:
  assumes ok: "classifier_ok ops c" and add: "classifier_add_rule ops p e a c = (res, c')"
  shows "classifier_ok ops c' \<and> split_fields (root c') = split_fields (root c) \<and>
    (case res of
       Inl err \<Rightarrow> err = ENOMEM \<and> contents c' = contents c \<and> (\<forall>r. r \<noteq> 0 \<longrightarrow> contents c r \<noteq> None)
     | Inr rid \<Rightarrow> rid \<noteq> 0 \<and> contents c rid = None \<and> contents c' = (contents c)(rid \<mapsto> (p, e, a)))"
proof (cases "get_id_loop (rules c) (id_counter c) False")
  case None
  then have "\<forall>r. r \<noteq> 0 \<longrightarrow> rules c r \<noteq> None" by (blast dest: get_id_loop_full)
  with None add ok show ?thesis
    by (auto simp: classifier_add_rule_def get_id_def classifier_ok_def contents_def [abs_def])
next
  case (Some rid)
  from ok have f: "forest_ok ops False (next_addr c) (rules c) [root c]"
    and tr: "set (tree_rules (root c)) = dom (rules c)" and ic: "id_counter c \<noteq> 0"
    by (auto simp: classifier_ok_def)
  note fresh = get_id_loop_fresh [OF Some] and nz = get_id_loop_nonzero [OF Some ic]
  define st where "st = (rules c)(rid \<mapsto> \<lparr>rule_id = rid, priority = p, expr = e, action = a, node = None\<rparr>)"
  obtain t nx k where t: "add_rule ops st rid 0 (next_addr c) (root c) = (t, nx, k)" by (metis prod_cases3)
  have r: "rid \<notin> set (tree_rules (root c))" using tr fresh by auto
  have "forest_ok ops False (next_addr c) st [root c]"
    by (rule forest_ok_store [OF f]) (use r in \<open>auto simp: st_def\<close>)
  note n = add_rule_forest [OF this _ r t]
  have wf: "wf_cnode ops st (root c)" using \<open>forest_ok ops False (next_addr c) st [root c]\<close> by (simp add: forest_ok_def)
  have res: "res = Inr rid"
    and c': "c' = c\<lparr>root := t, rules := set_node (Some k) rid st, id_counter := if rid = max_id then 1 else rid, next_addr := nx\<rparr>"
    using add fresh t by (auto simp: classifier_add_rule_def get_id_def Some st_def Let_def)
  have "contents c' = (contents c)(rid \<mapsto> (p, e, a))"
    by (auto simp: c' contents_def [abs_def] set_node_def st_def)
  moreover have "classifier_ok ops c'"
    using n tr ok nz by (auto simp: classifier_ok_def c' set_node_def st_def split: if_splits)
  ultimately show ?thesis
    using fresh nz add_rule_split_fields [OF t wf] by (simp add: res c' contents_def)
qed

lemma classifier_ptr:
  assumes "classifier_ok ops c" and "rules c r = Some rl"
  obtains k where "node rl = Some k" and "(r, k) \<in> set (placements (root c))"
proof -
  from assms have "r \<in> set (tree_rules (root c))" by (auto simp: classifier_ok_def)
  then obtain k where k: "(r, k) \<in> set (placements (root c))" using rules_placements by blast
  moreover from k assms have "node rl = Some k" by (auto simp: classifier_ok_def forest_ok_def ptr_ok_def)
  ultimately show ?thesis using that by blast
qed

lemma change_rule_priority_ok:
  assumes ok: "classifier_ok ops c" and ch: "change_rule_priority rid p c = (b, c')"
  shows "classifier_ok ops c' \<and> split_fields (root c') = split_fields (root c) \<and>
    (b \<longleftrightarrow> contents c rid \<noteq> None) \<and>
    contents c' = (contents c)(rid := map_option (\<lambda>(_, e, a). (p, e, a)) (contents c rid))"
proof (cases "rules c rid")
  case None
  with ch ok show ?thesis by (auto simp: change_rule_priority_def contents_def)
next
  case (Some rl)
  from ok Some obtain k where k: "node rl = Some k" "(rid, k) \<in> set (placements (root c))"
    by (rule classifier_ptr)
  obtain b' t st where n: "node_change_rule_priority k rid p (root c) (rules c) = (b', t, st)"
    by (metis prod_cases3)
  from ok have f: "forest_ok ops False (next_addr c) (rules c) [root c]" by (simp add: classifier_ok_def)
  note p = node_change_rule_priority_ok [OF f k(2) n]
  have c': "b" "c' = c\<lparr>root := t, rules := set_priority rid p (rules c)\<rparr>"
    using ch Some k n p(1,2) by (auto simp: change_rule_priority_def)
  have t: "t = update_at k (\<lambda>rs. add_rule_to_list (set_priority rid p (rules c)) rid (remove1 rid rs)) (root c)"
    using n k(2) by (auto simp: node_change_rule_priority_def Let_def)
  have "split_fields (update_at k g t) = split_fields t" for g t
    by (induction t rule: cnode_induct) auto
  then have "split_fields t = split_fields (root c)" by (simp add: t)
  moreover have "contents c' = (contents c)(rid := map_option (\<lambda>(_, e, a). (p, e, a)) (contents c rid))"
    by (auto simp: c' contents_def [abs_def] set_priority_def Some)
  moreover have "set (tree_rules t) = set (tree_rules (root c))"
    using p(4) by (metis mset_eq_setD tree_rules_def list.set_map)
  then have "classifier_ok ops c'"
    using ok p(2,3) by (auto simp: classifier_ok_def c' set_priority_def split: if_splits)
  ultimately show ?thesis using c' Some by (simp add: contents_def)
qed

lemma delete_rule_ok:
  assumes ok: "classifier_ok ops c" and del: "delete_rule rid c = (b, c')"
  shows "classifier_ok ops c' \<and> split_fields (root c') = split_fields (root c) \<and>
    (b \<longleftrightarrow> contents c rid \<noteq> None) \<and> contents c' = (contents c)(rid := None) \<and>
    (\<forall>r. r \<noteq> rid \<longrightarrow> rules c' r = rules c r)"
proof (cases "rules c rid")
  case None
  then have "(contents c)(rid := None) = contents c" by (auto simp: contents_def [abs_def])
  with None del ok show ?thesis by (auto simp: delete_rule_def contents_def)
next
  case (Some rl)
  from ok Some obtain k where k: "node rl = Some k" "(rid, k) \<in> set (placements (root c))"
    by (rule classifier_ptr)
  obtain b' t st where n: "node_remove_rule k rid (root c) (rules c) = (b', t, st)"
    by (metis prod_cases3)
  from ok have f: "forest_ok ops False (next_addr c) (rules c) [root c]" by (simp add: classifier_ok_def)
  note p = node_remove_rule_ok [OF f k(2) n]
  have c': "b" "c' = c\<lparr>root := t, rules := st(rid := None)\<rparr>"
    using del Some k n by (auto simp: delete_rule_def)
  have t: "t = update_at k (remove1 rid) (root c)" using n k(2) by (auto simp: node_remove_rule_def)
  have "split_fields (update_at k g t) = split_fields t" for g t
    by (induction t rule: cnode_induct) auto
  then have "split_fields t = split_fields (root c)" by (simp add: t)
  moreover have "contents c' = (contents c)(rid := None)"
    using p(5) by (auto simp: c' contents_def [abs_def])
  moreover have "set (tree_rules t) = set (tree_rules (root c)) - {rid}"
  proof -
    have "mset (tree_rules t) = mset (tree_rules (root c)) - {#rid#}"
      using p(3) k(2) by (simp add: tree_rules_def image_mset_Diff)
    moreover have "distinct (tree_rules (root c))" using f by (simp add: forest_ok_def)
    ultimately show ?thesis by (metis mset_remove1 set_mset_mset set_remove1_eq)
  qed
  then have "classifier_ok ops c'"
    using ok p(2,5) by (auto simp: classifier_ok_def c' split: if_splits)
  ultimately show ?thesis using c' Some p(5) by (simp add: contents_def)
qed

lemma same_rules_contents:
  assumes "same_rules (rules c) (rules c')"
  shows "contents c' = contents c" and "rules c' r = Some rl \<Longrightarrow> \<exists>rl'. rules c r = Some rl' \<and> rule_id rl' = rule_id rl"
proof -
  have upd: "a\<lparr>node := None\<rparr> = b\<lparr>node := None\<rparr> \<Longrightarrow>
      rule_id a = rule_id b \<and> priority a = priority b \<and> expr a = expr b \<and> action a = action b" for a b :: "('a, 'b) rule"
    by (cases a; cases b) simp
  note s = assms [unfolded same_rules_def, rule_format]
  have "contents c' x = contents c x" for x
    using s [of x] by (cases "rules c x"; cases "rules c' x") (auto simp: contents_def dest: upd)
  then show "contents c' = contents c" by auto
  show "rules c' r = Some rl \<Longrightarrow> \<exists>rl'. rules c r = Some rl' \<and> rule_id rl' = rule_id rl"
    using s [of r] by (cases "rules c r") (auto dest: upd)
qed

lemma replace_root_ok:
  assumes ok: "classifier_ok ops c"
    and b: "built ops False (next_addr c) (rules c) [root c] nx st [t]" and fr: "fresh_root False (root c) t"
  shows "classifier_ok ops (replace_root (t, nx, st) c)" and "contents (replace_root (t, nx, st) c) = contents c"
    and "new_splits_ok ops (rules c) [root c] [root (replace_root (t, nx, st) c)]"
    and "same_rules (rules c) (rules (replace_root (t, nx, st) c))"
proof -
  have "addr t = addr (root c) \<or> destroy (root c) st = st"
    using fr destroy_after_build [OF b] by (auto simp: fresh_root_def)
  then have c': "replace_root (t, nx, st) c = c\<lparr>root := t, next_addr := nx, rules := st\<rparr>"
    by (auto simp: replace_root_def)
  from b show sr: "same_rules (rules c) (rules (replace_root (t, nx, st) c))" by (simp add: built_def c')
  from same_rules_contents(1) [OF sr] show "contents (replace_root (t, nx, st) c) = contents c" .
  from b show "new_splits_ok ops (rules c) [root c] [root (replace_root (t, nx, st) c)]" by (simp add: built_def c')
  have "set (tree_rules t) = set (tree_rules (root c))"
    using b same_node_set [of "[root c]" "[t]"] by (simp add: built_def)
  then show "classifier_ok ops (replace_root (t, nx, st) c)"
    using ok b same_rules_dom [OF sr] same_rules_contents(2) [OF sr]
    by (fastforce simp: classifier_ok_def c' built_def domIff)
qed

lemma classifier_build_ok:
  assumes "classifier_ok ops c"
  shows "classifier_ok ops (classifier_build ops c) \<and> contents (classifier_build ops c) = contents c \<and>
    new_splits_ok ops (rules c) [root c] [root (classifier_build ops c)]"
proof -
  obtain t nx st where b: "build ops 0 False (root c) (next_addr c, rules c) = (t, nx, st)" by (metis prod_cases3)
  from assms have "forest_ok ops False (next_addr c) (rules c) [root c]" by (simp add: classifier_ok_def)
  from build_built [OF b this] replace_root_ok [OF assms, of nx st t] show ?thesis
    by (simp add: classifier_build_def b)
qed

lemma classifier_unbuild_ok:
  assumes "classifier_ok ops c"
  shows "classifier_ok ops (classifier_unbuild c) \<and> contents (classifier_unbuild c) = contents c \<and>
    new_splits_ok ops (rules c) [root c] [root (classifier_unbuild c)]"
proof -
  obtain t nx st where b: "unbuild (root c) (next_addr c, rules c) = (t, nx, st)" by (metis prod_cases3)
  from assms have "forest_ok ops False (next_addr c) (rules c) [root c]" by (simp add: classifier_ok_def)
  from unbuild_built [OF b this] replace_root_ok [OF assms, of nx st t] show ?thesis
    by (simp add: classifier_unbuild_def b)
qed

lemma clean_split_fields: "split_fields (snd (clean t)) \<subseteq> split_fields t"
proof (induction t rule: cnode_induct)
  case (Node n v rs bs f any)
  then show ?case unfolding clean_Node by (fastforce split: option.splits if_splits)
qed simp

lemma classifier_clean_ok:
  assumes "classifier_ok ops c"
  shows "classifier_ok ops (classifier_clean c) \<and> contents (classifier_clean c) = contents c \<and>
    split_fields (root (classifier_clean c)) \<subseteq> split_fields (root c)"
  using assms clean_forest_ok [of ops "next_addr c" "rules c" "root c"] clean_split_fields
  by (auto simp: classifier_ok_def classifier_clean_def clean_tree_rules contents_def [abs_def])

lemma Cnode_split_ok:
  assumes "Cnode_split a field n = Some t" and "a < nx"
  shows "forest_ok ops False nx Map.empty [t] \<and> tree_rules t = [] \<and> split_fields t = {field}"
  using assms
  by (cases n) (auto simp: Cnode_split_def forest_ok_def sorted_prio_def any_ok_def ptr_ok_def
      chain_ok_def chains_ok_replicate children_def split: if_splits)

section \<open>Sequences of operations\<close>

datatype ('e, 'a) classifier_op =
    Add_rule uint32 'e 'a
  | Change_rule_priority uint32 uint32
  | Delete_rule uint32
  | Build
  | Unbuild
  | Clean
  | Reset
  | Reset_split nat nat

fun run_op :: "'e expr_ops \<Rightarrow> ('e, 'a) classifier_op \<Rightarrow> ('e, 'a) classifier \<Rightarrow> ('e, 'a) classifier option" where
  "run_op ops (Add_rule p e a) c = Some (snd (classifier_add_rule ops p e a c))"
| "run_op ops (Change_rule_priority rid p) c = Some (snd (change_rule_priority rid p c))"
| "run_op ops (Delete_rule rid) c = Some (snd (delete_rule rid c))"
| "run_op ops Build c = Some (classifier_build ops c)"
| "run_op ops Unbuild c = Some (classifier_unbuild c)"
| "run_op ops Clean c = Some (classifier_clean c)"
| "run_op ops Reset c = Some (reset c)"
| "run_op ops (Reset_split f n) c = reset_split f n c"

text \<open>
  The contract: a map from ids to (priority, expression, action).  Only the choice of a new id is
  left open, and adding fails only when every id is in use.
\<close>

fun spec_op :: "('e, 'a) classifier_op \<Rightarrow> (uint32 \<Rightarrow> (uint32 \<times> 'e \<times> 'a) option) \<Rightarrow>
    (uint32 \<Rightarrow> (uint32 \<times> 'e \<times> 'a) option) \<Rightarrow> bool" where
  "spec_op (Add_rule p e a) m m' \<longleftrightarrow>
     (\<exists>rid. rid \<noteq> 0 \<and> m rid = None \<and> m' = m(rid \<mapsto> (p, e, a))) \<or> m' = m \<and> (\<forall>r. r \<noteq> 0 \<longrightarrow> m r \<noteq> None)"
| "spec_op (Change_rule_priority rid p) m m' \<longleftrightarrow> m' = m(rid := map_option (\<lambda>(_, e, a). (p, e, a)) (m rid))"
| "spec_op (Delete_rule rid) m m' \<longleftrightarrow> m' = m(rid := None)"
| "spec_op Build m m' \<longleftrightarrow> m' = m"
| "spec_op Unbuild m m' \<longleftrightarrow> m' = m"
| "spec_op Clean m m' \<longleftrightarrow> m' = m"
| "spec_op Reset m m' \<longleftrightarrow> m' = Map.empty"
| "spec_op (Reset_split f n) m m' \<longleftrightarrow> m' = Map.empty"

lemma run_op_refines:
  assumes ok: "classifier_ok ops c" and run: "run_op ops op c = Some c'"
  shows "classifier_ok ops c'" and "spec_op op (contents c) (contents c')"
proof -
  have "classifier_ok ops c' \<and> spec_op op (contents c) (contents c')"
  proof (cases op)
    case (Add_rule p e a)
    obtain res c1 where "classifier_add_rule ops p e a c = (res, c1)" by (metis surj_pair)
    with classifier_add_rule_ok [OF ok this] run Add_rule show ?thesis by (cases res) auto
  next
    case (Change_rule_priority rid p)
    obtain b c1 where "change_rule_priority rid p c = (b, c1)" by (metis surj_pair)
    with change_rule_priority_ok [OF ok this] run Change_rule_priority show ?thesis by auto
  next
    case (Delete_rule rid)
    obtain b c1 where "delete_rule rid c = (b, c1)" by (metis surj_pair)
    with delete_rule_ok [OF ok this] run Delete_rule show ?thesis by auto
  next
    case Reset
    with run ok show ?thesis
      by (auto simp: reset_def classifier_ok_def contents_def [abs_def] forest_ok_def sorted_prio_def ptr_ok_def)
  next
    case (Reset_split f n)
    with run obtain t where t: "Cnode_split (next_addr c) f n = Some t"
      and c': "c' = c\<lparr>root := t, rules := Map.empty, id_counter := 1, next_addr := Suc (next_addr c)\<rparr>"
      by (auto simp: reset_split_def)
    note ok' = Cnode_split_ok [OF t lessI]
    show ?thesis by (simp add: c' classifier_ok_def contents_def [abs_def] Reset_split ok')
  qed (use run classifier_build_ok [OF ok] classifier_unbuild_ok [OF ok] classifier_clean_ok [OF ok] in auto)
  then show "classifier_ok ops c'" and "spec_op op (contents c) (contents c')" by auto
qed

text \<open>The classifiers that a client can reach with operations that satisfy \<open>P\<close>.\<close>

inductive reachable :: "'e expr_ops \<Rightarrow> (('e, 'a) classifier_op \<Rightarrow> bool) \<Rightarrow> ('e, 'a) classifier \<Rightarrow> bool"
  for ops :: "'e expr_ops" and P :: "('e, 'a) classifier_op \<Rightarrow> bool" where
  start: "reachable ops P new_classifier"
| start_split: "P (Reset_split f n) \<Longrightarrow> new_classifier_split f n = Some c \<Longrightarrow> reachable ops P c"
| step: "reachable ops P c \<Longrightarrow> P op \<Longrightarrow> run_op ops op c = Some c' \<Longrightarrow> reachable ops P c'"

lemma new_classifier_ok: "classifier_ok ops new_classifier"
  by (simp add: classifier_ok_def new_classifier_def forest_ok_def sorted_prio_def ptr_ok_def)

lemma new_classifier_split_ok:
  assumes "new_classifier_split f n = Some c"
  shows "classifier_ok ops c" and "split_fields (root c) = {f}" and "rules c = Map.empty"
proof -
  from assms obtain t where t: "Cnode_split 0 f n = Some t"
    and c: "c = \<lparr>root = t, rules = Map.empty, id_counter = 1, next_addr = 1\<rparr>"
    by (auto simp: new_classifier_split_def)
  note ok' = Cnode_split_ok [OF t lessI]
  show "classifier_ok ops c" and "split_fields (root c) = {f}" and "rules c = Map.empty"
    by (simp_all add: c classifier_ok_def ok')
qed

lemma reachable_classifier_ok: "reachable ops P c \<Longrightarrow> classifier_ok ops c"
  by (induction rule: reachable.induct)
    (auto intro: new_classifier_ok new_classifier_split_ok run_op_refines)

section \<open>Searching a classifier\<close>

definition op_ok :: "('e \<Rightarrow> bool) \<Rightarrow> (nat \<Rightarrow> bool) \<Rightarrow> ('e, 'a) classifier_op \<Rightarrow> bool" where
  "op_ok rule_ok split_ok op =
     (case op of Add_rule p e a \<Rightarrow> rule_ok e | Reset_split f n \<Rightarrow> split_ok f | _ \<Rightarrow> True)"

definition matching_rules :: "('e, 'd) data_ops \<Rightarrow> 'd \<Rightarrow> ('e, 'a) classifier \<Rightarrow> uint32 set" where
  "matching_rules dops d c =
     {r. case contents c r of None \<Rightarrow> False | Some (p, e, a) \<Rightarrow> data_matches dops r e d = Some True}"

lemma contents_ex: "contents c r = Some (p, e, a) \<Longrightarrow> ex (rules c) r = e \<and> prio (rules c) r = p \<and> r \<in> dom (rules c)"
  by (auto simp: contents_def ex_def prio_def)

context classifier_data
begin

definition searchable :: "('e, 'a) classifier \<Rightarrow> bool" where
  "searchable c \<longleftrightarrow> classifier_ok ops c \<and>
     (\<forall>r p e a. contents c r = Some (p, e, a) \<longrightarrow> rule_ok e) \<and> (\<forall>f \<in> split_fields (root c). split_ok f)"

lemma new_splits_searchable:
  assumes "searchable c" and "classifier_ok ops c'" and "contents c' = contents c"
    and "new_splits_ok ops (rules c) [root c] [root c']"
  shows "searchable c'"
proof -
  have "split_ok f" if "f \<in> defd ops (rules c) [root c]" for f
  proof -
    from that obtain r where r: "f < NUM_FIELDS ops" "r \<in> dom (rules c)" "get_field ops f (ex (rules c) r) \<noteq> None"
      using assms(1) by (auto simp: defd_def searchable_def classifier_ok_def)
    then obtain rl where "rules c r = Some rl" by auto
    then have "contents c r = Some (priority rl, ex (rules c) r, action rl)" by (simp add: contents_def ex_def)
    with assms(1) have "rule_ok (ex (rules c) r)" by (auto simp: searchable_def)
    with defined r show ?thesis by blast
  qed
  with assms threshold show ?thesis
    by (auto simp: searchable_def new_splits_ok_def all_splits_def)
qed

lemma searchable_step:
  assumes s: "searchable c" and op: "op_ok rule_ok split_ok op" and run: "run_op ops op c = Some c'"
  shows "searchable c'"
proof -
  from s have ok: "classifier_ok ops c" by (simp add: searchable_def)
  note ref = run_op_refines [OF ok run]
  show ?thesis
  proof (cases op)
    case (Add_rule p e a)
    obtain res c1 where a: "classifier_add_rule ops p e a c = (res, c1)" by (metis surj_pair)
    with run Add_rule have "c' = c1" by simp
    with classifier_add_rule_ok [OF ok a] s op Add_rule show ?thesis
      by (auto simp: searchable_def op_ok_def split: sum.splits if_splits)
  next
    case (Change_rule_priority rid p)
    obtain b c1 where ch: "change_rule_priority rid p c = (b, c1)" by (metis surj_pair)
    with run Change_rule_priority have "c' = c1" by simp
    with change_rule_priority_ok [OF ok ch] s show ?thesis
      by (auto simp: searchable_def split: if_splits) blast
  next
    case (Delete_rule rid)
    obtain b c1 where d: "delete_rule rid c = (b, c1)" by (metis surj_pair)
    with run Delete_rule have "c' = c1" by simp
    with delete_rule_ok [OF ok d] s show ?thesis by (auto simp: searchable_def split: if_splits)
  next
    case Build
    with run classifier_build_ok [OF ok] show ?thesis by (auto intro: new_splits_searchable [OF s])
  next
    case Unbuild
    with run classifier_unbuild_ok [OF ok] show ?thesis by (auto intro: new_splits_searchable [OF s])
  next
    case Clean
    with run classifier_clean_ok [OF ok] s show ?thesis by (auto simp: searchable_def)
  next
    case Reset
    with run ref s show ?thesis by (auto simp: searchable_def reset_def)
  next
    case (Reset_split f n)
    with run op obtain t where "Cnode_split (next_addr c) f n = Some t" "root c' = t" and f: "split_ok f"
      by (auto simp: reset_split_def op_ok_def)
    with Cnode_split_ok [OF _ lessI] have "split_fields (root c') = {f}" by blast
    with ref Reset_split f show ?thesis by (simp add: searchable_def)
  qed
qed

lemma reachable_searchable: "reachable ops (op_ok rule_ok split_ok) c \<Longrightarrow> searchable c"
proof (induction rule: reachable.induct)
  case start
  show ?case using new_classifier_ok by (auto simp: searchable_def new_classifier_def contents_def)
next
  case (start_split f n c)
  with new_classifier_split_ok [OF start_split(2)] show ?case
    by (auto simp: searchable_def contents_def op_ok_def)
next
  case (step c op c')
  then show ?case by (blast intro: searchable_step)
qed

lemma finite_matching_rules: "searchable c \<Longrightarrow> finite (matching_rules dops d c)"
proof -
  assume "searchable c"
  then have "finite (dom (rules c))"
    unfolding searchable_def classifier_ok_def by (metis List.finite_set)
  moreover have "matching_rules dops d c \<subseteq> dom (rules c)"
    by (auto simp: matching_rules_def contents_def split: option.splits)
  ultimately show ?thesis by (rule rev_finite_subset)
qed

lemma matching_hits:
  assumes "searchable c"
  shows "hits (rules c) d (tree_rules (root c)) = mset_set (matching_rules dops d c)"
proof -
  from assms have tr: "set (tree_rules (root c)) = dom (rules c)" and "distinct (tree_rules (root c))"
    by (auto simp: searchable_def classifier_ok_def forest_ok_def)
  then have "mset (tree_rules (root c)) = mset_set (dom (rules c))" by (metis mset_set_set)
  moreover have "finite (dom (rules c))" using tr by (metis List.finite_set)
  moreover have "{r \<in> dom (rules c). hit (rules c) d r = Some True} = matching_rules dops d c"
    by (auto simp: matching_rules_def contents_def ex_def split: option.splits)
  ultimately show ?thesis by (simp add: hits_def)
qed

lemma search_queue:
  assumes "searchable c"
  shows "\<exists>tv. classifier_get_rules dops d c [] = Some tv \<and> result_ok (rule_matches dops d (rules c)) (rules c) tv \<and>
    pending (rule_matches dops d (rules c)) tv = mset_set (matching_rules dops d c)"
proof -
  from assms have t: "tree_ok (rules c) (root c)"
    by (auto simp: searchable_def tree_ok_def classifier_ok_def forest_ok_def)
  have "rule_ok (ex (rules c) r)" if "r \<in> set (tree_rules (root c))" for r
  proof -
    from that assms obtain rl where "rules c r = Some rl" by (auto simp: searchable_def classifier_ok_def)
    with assms show ?thesis by (auto simp: searchable_def contents_def ex_def)
  qed
  with lookup [OF t, of d] matching_hits [OF assms, of d] show ?thesis
    by (auto simp: classifier_get_rules_def rule_matches_def [abs_def])
qed

theorem search:
  assumes "searchable c"
  shows "\<exists>tv rs. classifier_get_rules dops d c [] = Some tv \<and>
    drain (rule_matches dops d (rules c)) (rules c) tv = Some rs \<and>
    distinct rs \<and> set rs = matching_rules dops d c \<and> sorted (map (prio (rules c)) rs)"
proof -
  note fin = finite_matching_rules [OF assms, of d]
  from search_queue [OF assms, of d] obtain tv where tv: "classifier_get_rules dops d c [] = Some tv"
    "result_ok (rule_matches dops d (rules c)) (rules c) tv"
    "pending (rule_matches dops d (rules c)) tv = mset_set (matching_rules dops d c)" by blast
  from drain_correct [OF tv(2)] tv(3) obtain rs where rs: "drain (rule_matches dops d (rules c)) (rules c) tv = Some rs"
    "mset rs = mset_set (matching_rules dops d c)" "sorted_prio (rules c) rs" by auto
  then have "set rs = matching_rules dops d c" using fin by (metis finite_set_mset_mset_set set_mset_mset)
  moreover have "distinct rs"
  proof -
    have "size (mset rs) = card (set rs)" using rs(2) calculation by simp
    then show ?thesis by (simp add: card_distinct)
  qed
  ultimately show ?thesis using tv(1) rs by (auto simp: sorted_prio_def)
qed

lemma delete_loop_correct:
  assumes "searchable c" and "result_ok (rule_matches dops d (rules c)) (rules c) tv"
    and "\<forall>x. count (pending (rule_matches dops d (rules c)) tv) x \<le> 1"
    and "\<forall>x \<in># pending (rule_matches dops d (rules c)) tv. x \<in> dom (rules c)"
  shows "\<exists>c'. delete_loop dops d n c tv =
      Some (n + of_nat (size (pending (rule_matches dops d (rules c)) tv)), c') \<and> searchable c' \<and>
    contents c' = (\<lambda>r. if r \<in># pending (rule_matches dops d (rules c)) tv then None else contents c r)"
  using assms
proof (induction "size (pending (rule_matches dops d (rules c)) tv)" arbitrary: c tv n rule: less_induct)
  case less
  let ?m = "\<lambda>c. rule_matches dops d (rules c)"
  from less.prems(2) show ?case
  proof (cases rule: next_rule_correct)
    case (none tv')
    with less.prems(1) show ?thesis by (subst delete_loop.simps) simp
  next
    case (some tv' r)
    obtain b c1 where del: "delete_rule r c = (b, c1)" by (metis surj_pair)
    from less.prems(1) have ok: "classifier_ok ops c" by (simp add: searchable_def)
    note dr = delete_rule_ok [OF ok del]
    have s1: "searchable c1"
      by (rule searchable_step [OF less.prems(1), of "Delete_rule r"]) (simp_all add: op_ok_def del)
    from some(3) less.prems(4) have "r \<in> dom (rules c)" by simp
    with dr have b: "b" by (auto simp: contents_def)
    have "count (pending (?m c) tv') r = 0"
      using less.prems(3) [rule_format, of r] by (simp add: some(3))
    then have nr: "r \<notin># pending (?m c) tv'" by (simp add: not_in_iff)
    have neq: "x \<noteq> r" if "p \<in> set tv'" "x \<in> set (fst p)" for p x
      using that nr some(4) in_pending [of p tv' x "?m c"] by blast
    have same: "?m c1 x = ?m c x \<and> prio (rules c1) x = prio (rules c) x" if "p \<in> set tv'" "x \<in> set (fst p)" for p x
      using neq [OF that] dr by (simp add: rule_matches_def ex_def prio_def)
    have p1: "pending (?m c1) tv' = pending (?m c) tv'" by (rule pending_cong) (use same in blast)
    have "result_ok (?m c1) (rules c1) tv'"
      using result_ok_cong [of tv' "?m c1" "?m c" "rules c1" "rules c"] same some(2) by blast
    moreover have "count (pending (?m c1) tv') x \<le> 1" for x
      using less.prems(3) [rule_format, of x] by (simp add: some(3) p1 split: if_splits)
    moreover have "x \<in> dom (rules c1)" if "x \<in># pending (?m c1) tv'" for x
    proof -
      from that nr p1 have "x \<noteq> r" by auto
      moreover from that have "x \<in> dom (rules c)" using less.prems(4) by (simp add: some(3) p1)
      ultimately show ?thesis using dr by auto
    qed
    ultimately obtain c' where c': "delete_loop dops d (n + 1) c1 tv' = Some (n + 1 + of_nat (size (pending (?m c1) tv')), c')"
      "searchable c'" "contents c' = (\<lambda>r. if r \<in># pending (?m c1) tv' then None else contents c1 r)"
      using less.hyps [of c1 tv' "n + 1"] s1 some(3) p1 by auto
    have "delete_loop dops d n c tv = delete_loop dops d (n + 1) c1 tv'"
      by (subst delete_loop.simps) (simp add: some(1) del b)
    moreover have "contents c' = (\<lambda>r. if r \<in># pending (?m c) tv then None else contents c r)"
      using c'(3) dr by (auto simp: some(3) p1)
    ultimately show ?thesis using c'(1,2) by (simp add: some(3) p1 add.assoc)
  qed
qed

theorem delete_rules_correct:
  assumes s: "searchable c"
  shows "\<exists>c'. delete_rules dops d c = Some (of_nat (card (matching_rules dops d c)), c') \<and> searchable c' \<and>
    contents c' = (\<lambda>r. if r \<in> matching_rules dops d c then None else contents c r)"
proof -
  let ?m = "rule_matches dops d (rules c)" and ?M = "matching_rules dops d c"
  note fin = finite_matching_rules [OF s]
  from search_queue [OF s, of d] obtain tv where tv: "classifier_get_rules dops d c [] = Some tv"
    "result_ok ?m (rules c) tv" "pending ?m tv = mset_set ?M" by blast
  have "?M \<subseteq> dom (rules c)" by (auto simp: matching_rules_def contents_def split: option.splits)
  then have "\<forall>x \<in># pending ?m tv. x \<in> dom (rules c)" using tv(3) fin by auto
  moreover have "\<forall>x. count (pending ?m tv) x \<le> 1" using tv(3) fin by (simp add: count_mset_set')
  ultimately obtain c' where "delete_loop dops d 0 c tv = Some (of_nat (card ?M), c')" "searchable c'"
    "contents c' = (\<lambda>r. if r \<in> ?M then None else contents c r)"
    using delete_loop_correct [OF s tv(2), of 0] tv(3) fin by auto
  then show ?thesis by (simp add: delete_rules_def tv(1))
qed

theorem search_same_contents:
  assumes s: "searchable c" "searchable c'" and eq: "contents c' = contents c"
  shows "\<exists>tv rs tv' rs'.
    classifier_get_rules dops d c [] = Some tv \<and> drain (rule_matches dops d (rules c)) (rules c) tv = Some rs \<and>
    classifier_get_rules dops d c' [] = Some tv' \<and> drain (rule_matches dops d (rules c')) (rules c') tv' = Some rs' \<and>
    set rs' = set rs \<and> map (prio (rules c')) rs' = map (prio (rules c)) rs"
proof -
  from search [OF s(1), of d] obtain tv rs where a: "classifier_get_rules dops d c [] = Some tv"
    "drain (rule_matches dops d (rules c)) (rules c) tv = Some rs"
    "distinct rs" "set rs = matching_rules dops d c" "sorted (map (prio (rules c)) rs)" by blast
  from search [OF s(2), of d] obtain tv' rs' where b: "classifier_get_rules dops d c' [] = Some tv'"
    "drain (rule_matches dops d (rules c')) (rules c') tv' = Some rs'"
    "distinct rs'" "set rs' = matching_rules dops d c'" "sorted (map (prio (rules c')) rs')" by blast
  have set: "set rs' = set rs" using a(4) b(4) eq by (simp add: matching_rules_def)
  have prio: "prio (rules c') r = prio (rules c) r" if "r \<in> set rs" for r
  proof -
    from that a(4) obtain p e x where "contents c r = Some (p, e, x)"
      by (auto simp: matching_rules_def split: option.splits)
    with contents_ex [of c r] contents_ex [of c' r] eq show ?thesis by simp
  qed
  have "mset rs' = mset rs" using a(3) b(3) set by (metis mset_set_set)
  then have "mset (map (prio (rules c')) rs') = mset (map (prio (rules c)) rs)"
    using prio by (metis (no_types, lifting) image_mset_cong mset_map set_mset_mset)
  with a(5) b(5) have "map (prio (rules c')) rs' = map (prio (rules c)) rs"
    by (metis properties_for_sort)
  with a b set show ?thesis by blast
qed

end

lemma placements_exact:
  assumes "classifier_ok ops c"
  shows "distinct (placements (root c))"
    and "set (placements (root c)) = {(r, k). \<exists>rl. rules c r = Some rl \<and> node rl = Some k}"
    and "rules c r = Some rl \<Longrightarrow> node rl \<noteq> None"
proof -
  have "distinct (map fst (placements (root c)))"
    using assms by (simp add: classifier_ok_def forest_ok_def tree_rules_def)
  then show "distinct (placements (root c))" by (simp add: distinct_map)
  show "set (placements (root c)) = {(r, k). \<exists>rl. rules c r = Some rl \<and> node rl = Some k}"
  proof (intro equalityI subsetI)
    fix x
    assume "x \<in> set (placements (root c))"
    with assms show "x \<in> {(r, k). \<exists>rl. rules c r = Some rl \<and> node rl = Some k}"
      by (auto simp: classifier_ok_def forest_ok_def ptr_ok_def)
  next
    fix x
    assume "x \<in> {(r, k). \<exists>rl. rules c r = Some rl \<and> node rl = Some k}"
    then show "x \<in> set (placements (root c))" by (auto elim: classifier_ptr [OF assms])
  qed
  show "rules c r = Some rl \<Longrightarrow> node rl \<noteq> None" by (auto elim: classifier_ptr [OF assms])
qed

end
