(* ===== verification/Nox_Buffer.thy ===== *)
theory Nox_Buffer
  imports Nox_Prelude
begin

text \<open>
  The buffers of \<^verbatim>\<open>src/src/include/buffer.hh\<close> and \<^verbatim>\<open>src/src/lib/buffer.cc\<close>.  A buffer is a window of
  \<^verbatim>\<open>m_size\<close> bytes at \<^verbatim>\<open>m_data\<close> into an array; for an \<^verbatim>\<open>Array_buffer\<close> the array has \<^verbatim>\<open>capacity\<close> bytes at
  \<^verbatim>\<open>base\<close> and \<open>m_data\<close> is the offset of the window.  Operations that assert return \<open>None\<close> when the
  assertion fails.  The locale \<open>buffer_class\<close> is the contract of the abstract class \<^verbatim>\<open>Buffer\<close>.
\<close>

section \<open>Windows into an array\<close>

record buffer =
  base :: bytes
  m_data :: nat
  m_size :: nat

definition capacity :: "buffer \<Rightarrow> nat" where
  "capacity b = length (base b)"

definition buf_data :: "buffer \<Rightarrow> bytes" where
  "buf_data b = take (m_size b) (drop (m_data b) (base b))"

definition wf_buffer :: "buffer \<Rightarrow> bool" where
  "wf_buffer b \<longleftrightarrow> m_data b + m_size b \<le> capacity b"

definition buf_pull :: "nat \<Rightarrow> buffer \<Rightarrow> buffer option" where
  "buf_pull n b = (if n \<le> m_size b then Some (b\<lparr>m_data := m_data b + n, m_size := m_size b - n\<rparr>) else None)"

definition buf_trim :: "nat \<Rightarrow> buffer \<Rightarrow> buffer option" where
  "buf_trim n b = (if n \<le> m_size b then Some (b\<lparr>m_size := n\<rparr>) else None)"

text \<open>\<open>buf_at\<close> gives the \<open>n\<close> bytes of the object at the offset.\<close>

definition buf_at :: "nat \<Rightarrow> nat \<Rightarrow> buffer \<Rightarrow> bytes option" where
  "buf_at offset n b = (if offset + n \<le> m_size b then Some (take n (drop (m_data b + offset) (base b))) else None)"

definition Array_buffer :: "bytes \<Rightarrow> buffer" where
  "Array_buffer mem = \<lparr>base = mem, m_data = 0, m_size = length mem\<rparr>"

section \<open>Extending an array buffer\<close>

text \<open>
  \<open>uninit n\<close> is what a new array of \<open>n\<close> bytes holds.  \<open>memcpy mem off src\<close> overwrites part of an array.
\<close>

definition memcpy :: "bytes \<Rightarrow> nat \<Rightarrow> bytes \<Rightarrow> bytes" where
  "memcpy mem off src = take off mem @ src @ drop (off + length src) mem"

definition buf_push :: "(nat \<Rightarrow> bytes) \<Rightarrow> nat \<Rightarrow> buffer \<Rightarrow> buffer" where
  "buf_push uninit n b =
     (let headroom = m_data b in
      if headroom \<ge> n then b\<lparr>m_data := m_data b - n, m_size := m_size b + n\<rparr>
      else \<lparr>base = memcpy (uninit (capacity b + (n - headroom))) n (buf_data b), m_data = 0, m_size = m_size b + n\<rparr>)"

definition buf_put :: "(nat \<Rightarrow> bytes) \<Rightarrow> nat \<Rightarrow> buffer \<Rightarrow> buffer" where
  "buf_put uninit n b =
     (let tailroom = capacity b - (m_data b + m_size b) in
      if tailroom < n
      then let headroom = m_data b;
               new_capacity = capacity b + max (capacity b) (n - tailroom)
           in \<lparr>base = memcpy (uninit new_capacity) headroom (buf_data b), m_data = headroom, m_size = m_size b + n\<rparr>
      else b\<lparr>m_size := m_size b + n\<rparr>)"

lemma length_data [simp]: "wf_buffer b \<Longrightarrow> length (buf_data b) = m_size b"
  by (simp add: wf_buffer_def buf_data_def capacity_def)

lemma length_memcpy [simp]: "off + length src \<le> length mem \<Longrightarrow> length (memcpy mem off src) = length mem"
  by (simp add: memcpy_def)

lemma memcpy_read: "off \<le> length mem \<Longrightarrow> take (length src) (drop off (memcpy mem off src)) = src"
  by (simp add: memcpy_def)

lemma push_correct:
  assumes wf: "wf_buffer b" and u: "\<And>n. length (uninit n) = n"
  shows "wf_buffer (buf_push uninit n b)" and "length (buf_data (buf_push uninit n b)) = n + length (buf_data b)"
    and "drop n (buf_data (buf_push uninit n b)) = buf_data b"
proof -
  have room: "n + m_size b \<le> capacity b + (n - m_data b)" if "m_data b < n"
    using wf that by (simp add: wf_buffer_def)
  show wf': "wf_buffer (buf_push uninit n b)"
    using wf u room by (auto simp: buf_push_def Let_def wf_buffer_def capacity_def)
  show "length (buf_data (buf_push uninit n b)) = n + length (buf_data b)"
    using wf wf' by (simp add: buf_push_def Let_def)
  show "drop n (buf_data (buf_push uninit n b)) = buf_data b"
  proof (cases "n \<le> m_data b")
    case True
    then show ?thesis by (simp add: buf_push_def buf_data_def drop_take)
  next
    case False
    define d where "d = buf_data b"
    with wf have l: "length d = m_size b" by simp
    have "buf_push uninit n b =
        \<lparr>base = memcpy (uninit (capacity b + (n - m_data b))) n d, m_data = 0, m_size = m_size b + n\<rparr>"
      using False by (simp add: buf_push_def d_def)
    then have "drop n (buf_data (buf_push uninit n b)) = take (length d) (drop n (memcpy (uninit (capacity b + (n - m_data b))) n d))"
      by (simp add: buf_data_def drop_take l)
    also have "\<dots> = d" using wf False by (intro memcpy_read) (simp add: u wf_buffer_def)
    finally show ?thesis by (simp add: d_def)
  qed
qed

lemma put_correct:
  assumes wf: "wf_buffer b" and u: "\<And>n. length (uninit n) = n"
  shows "wf_buffer (buf_put uninit n b)" and "length (buf_data (buf_put uninit n b)) = length (buf_data b) + n"
    and "take (length (buf_data b)) (buf_data (buf_put uninit n b)) = buf_data b"
    and "capacity (buf_put uninit n b) = capacity b \<or> 2 * capacity b \<le> capacity (buf_put uninit n b)"
proof -
  show wf': "wf_buffer (buf_put uninit n b)"
    using wf u by (auto simp: buf_put_def Let_def wf_buffer_def capacity_def)
  show "length (buf_data (buf_put uninit n b)) = length (buf_data b) + n"
    using wf wf' by (simp add: buf_put_def Let_def)
  show "capacity (buf_put uninit n b) = capacity b \<or> 2 * capacity b \<le> capacity (buf_put uninit n b)"
    using wf u by (auto simp: buf_put_def Let_def capacity_def wf_buffer_def)
  show "take (length (buf_data b)) (buf_data (buf_put uninit n b)) = buf_data b"
  proof (cases "capacity b - (m_data b + m_size b) < n")
    case True
    let ?cap = "capacity b + max (capacity b) (n - (capacity b - (m_data b + m_size b)))"
    from True memcpy_read [of "m_data b" "uninit ?cap" "buf_data b"] u wf show ?thesis
      by (simp add: buf_put_def Let_def buf_data_def wf_buffer_def capacity_def)
  next
    case False
    with wf show ?thesis by (simp add: buf_put_def Let_def buf_data_def min_def)
  qed
qed

section \<open>The contract of the class Buffer\<close>

text \<open>
  What every subclass gives its clients: the bytes of the buffer, and shrinking from both ends.
\<close>

locale buffer_class =
  fixes contents_of :: "'b \<Rightarrow> bytes"
    and ok :: "'b \<Rightarrow> bool"
    and pull_of :: "nat \<Rightarrow> 'b \<Rightarrow> 'b option"
    and trim_of :: "nat \<Rightarrow> 'b \<Rightarrow> 'b option"
  assumes pull_ok: "ok b \<Longrightarrow> n \<le> length (contents_of b) \<Longrightarrow>
      \<exists>b'. pull_of n b = Some b' \<and> ok b' \<and> contents_of b' = drop n (contents_of b)"
    and pull_fails: "ok b \<Longrightarrow> length (contents_of b) < n \<Longrightarrow> pull_of n b = None"
    and trim_ok: "ok b \<Longrightarrow> n \<le> length (contents_of b) \<Longrightarrow>
      \<exists>b'. trim_of n b = Some b' \<and> ok b' \<and> contents_of b' = take n (contents_of b)"
    and trim_fails: "ok b \<Longrightarrow> length (contents_of b) < n \<Longrightarrow> trim_of n b = None"
begin

text \<open>\<^verbatim>\<open>try_pull\<close>: the bytes dropped and the rest, or nothing when there are too few.\<close>

definition try_pull_of :: "nat \<Rightarrow> 'b \<Rightarrow> (bytes \<times> 'b) option" where
  "try_pull_of n b =
     (if length (contents_of b) < n then None else map_option (\<lambda>b'. (take n (contents_of b), b')) (pull_of n b))"

definition sub_buffer_of :: "nat \<Rightarrow> nat \<Rightarrow> 'b \<Rightarrow> 'b option" where
  "sub_buffer_of offset len b =
     Option.bind (pull_of offset b) (\<lambda>b'. if len < length (contents_of b') then trim_of len b' else Some b')"

lemma try_pull_splits:
  assumes "ok b" and "try_pull_of n b = Some (p, b')"
  shows "ok b' \<and> p @ contents_of b' = contents_of b \<and> length p = n"
proof (cases "length (contents_of b) < n")
  case False
  with assms pull_ok [of b n] show ?thesis by (auto simp: try_pull_of_def)
qed (use assms in \<open>simp add: try_pull_of_def\<close>)

lemma try_pull_total: "ok b \<Longrightarrow> try_pull_of n b = None \<longleftrightarrow> length (contents_of b) < n"
  using pull_ok [of b n] by (auto simp: try_pull_of_def)

lemma sub_buffer_correct:
  assumes "ok b" and "offset \<le> length (contents_of b)"
  shows "\<exists>b'. sub_buffer_of offset len b = Some b' \<and> ok b' \<and> contents_of b' = take len (drop offset (contents_of b))"
proof -
  from pull_ok [OF assms] obtain b1 where b1: "pull_of offset b = Some b1" "ok b1"
    "contents_of b1 = drop offset (contents_of b)" by blast
  with trim_ok [of b1 len] show ?thesis by (auto simp: sub_buffer_of_def)
qed

end

interpretation window: buffer_class buf_data wf_buffer buf_pull buf_trim
  by unfold_locales
    (auto simp: buf_pull_def buf_trim_def wf_buffer_def capacity_def buf_data_def drop_take add.commute)

text \<open>A \<^verbatim>\<open>Nonowning_buffer\<close> that is only read is the list of its bytes.\<close>

definition list_pull :: "nat \<Rightarrow> bytes \<Rightarrow> bytes option" where
  "list_pull n bs = (if n \<le> length bs then Some (drop n bs) else None)"

definition list_trim :: "nat \<Rightarrow> bytes \<Rightarrow> bytes option" where
  "list_trim n bs = (if n \<le> length bs then Some (take n bs) else None)"

interpretation view: buffer_class "\<lambda>bs. bs" "\<lambda>_. True" list_pull list_trim
  by unfold_locales (auto simp: list_pull_def list_trim_def)

text \<open>The operations of the class, at the top level: \<^verbatim>\<open>try_pull\<close>, \<^verbatim>\<open>try_at\<close> and the sub-buffer constructor.\<close>

definition try_pull :: "nat \<Rightarrow> bytes \<Rightarrow> (bytes \<times> bytes) option" where
  "try_pull n bs = (if length bs < n then None else map_option (\<lambda>b'. (take n bs, b')) (list_pull n bs))"

definition try_at :: "nat \<Rightarrow> nat \<Rightarrow> bytes \<Rightarrow> bytes option" where
  "try_at offset n bs = (if offset + n \<le> length bs then Some (take n (drop offset bs)) else None)"

definition sub_buffer :: "nat \<Rightarrow> nat \<Rightarrow> buffer \<Rightarrow> buffer option" where
  "sub_buffer offset len b =
     Option.bind (buf_pull offset b) (\<lambda>b'. if len < length (buf_data b') then buf_trim len b' else Some b')"

lemma try_pull_simps:
  "try_pull n bs = (if length bs < n then None else Some (take n bs, drop n bs))"
  by (simp add: try_pull_def list_pull_def)

lemma sub_buffer_eq: "sub_buffer = window.sub_buffer_of"
  by (intro ext) (simp add: sub_buffer_def window.sub_buffer_of_def)

section \<open>Properties\<close>

text \<open>
  C39: making room in front of or behind a buffer keeps its contents in place next to the new room, keeps the window
  inside the allocated memory, and when it reallocates at the end at least doubles the capacity.
\<close>

theorem buffer_grow:
  assumes "wf_buffer b" and "\<And>k. length (uninit k) = k"
  shows "wf_buffer (buf_push uninit n b) \<and> drop n (buf_data (buf_push uninit n b)) = buf_data b \<and>
    length (buf_data (buf_push uninit n b)) = n + length (buf_data b) \<and>
    wf_buffer (buf_put uninit n b) \<and> take (length (buf_data b)) (buf_data (buf_put uninit n b)) = buf_data b \<and>
    length (buf_data (buf_put uninit n b)) = length (buf_data b) + n \<and>
    (capacity (buf_put uninit n b) = capacity b \<or> 2 * capacity b \<le> capacity (buf_put uninit n b))"
  using push_correct [OF assms] put_correct [OF assms] by blast

theorem buffer_grow_witness:
  "wf_buffer (Array_buffer [1, 2, 3]) \<and>
   drop 2 (buf_data (buf_push (\<lambda>k. replicate k 0) 2 (Array_buffer [1, 2, 3]))) = buf_data (Array_buffer [1, 2, 3]) \<and>
   take 3 (buf_data (buf_put (\<lambda>k. replicate k 0) 2 (Array_buffer [1, 2, 3]))) = [1, 2, 3]"
proof -
  have w: "wf_buffer (Array_buffer [1, 2, 3])" and d: "buf_data (Array_buffer [1, 2, 3]) = [1, 2, 3]"
    by (simp_all add: wf_buffer_def Array_buffer_def buf_data_def capacity_def)
  have l: "length (replicate k (0 :: uint8)) = k" for k by simp
  from w d buffer_grow [OF w l, of 2] show ?thesis by (simp add: numeral_3_eq_3)
qed

text \<open>
  A sub-buffer at an offset inside the buffer succeeds and shows the requested bytes, fewer at the end of the buffer.
\<close>

theorem sub_buffer_contents:
  assumes "wf_buffer b" and "offset \<le> length (buf_data b)"
  shows "\<exists>b'. sub_buffer offset len b = Some b' \<and> wf_buffer b' \<and> buf_data b' = take len (drop offset (buf_data b))"
  unfolding sub_buffer_eq by (rule window.sub_buffer_correct [OF assms])

theorem sub_buffer_contents_witness:
  "\<exists>b'. sub_buffer 1 5 (Array_buffer [1, 2, 3]) = Some b' \<and> wf_buffer b' \<and>
     buf_data b' = take 5 (drop 1 (buf_data (Array_buffer [1, 2, 3])))"
proof -
  have "wf_buffer (Array_buffer [1, 2, 3])" and "1 \<le> length (buf_data (Array_buffer [1, 2, 3]))"
    by (simp_all add: wf_buffer_def Array_buffer_def buf_data_def capacity_def)
  from sub_buffer_contents [OF this, of 5] show ?thesis .
qed

end
