(* ===== verification/Nox_Netaddr.thy ===== *)
theory Nox_Netaddr
  imports Nox_Prelude
begin

unbundle bit_operations_syntax

text \<open>
  The address classes of \<^verbatim>\<open>src/src/include/netinet++\<close>: \<^verbatim>\<open>ethernetaddr\<close> (with its text form in
  \<^verbatim>\<open>src/src/lib/netinet++/ethernetaddr.cc\<close>), \<^verbatim>\<open>ipaddr\<close>, \<^verbatim>\<open>cidr_ipaddr\<close> and \<^verbatim>\<open>datapathid\<close>.
\<close>

section \<open>Bytes of byte-swapped words\<close>

lemma bit_htonl_bytes: "bit (htonl n) i \<longleftrightarrow> i < 32 \<and> bit n (8 * (3 - i div 8) + i mod 8)"
proof (cases "i < 32")
  case True
  then consider "i < 8" | "8 \<le> i" "i < 16" | "16 \<le> i" "i < 24" | "24 \<le> i" by linarith
  then show ?thesis
  proof cases
    case 1
    then show ?thesis by (simp add: bit_htonl add.commute)
  next
    case 2
    then have "i div 8 = 1" and "i mod 8 = i - 8" by presburger+
    with 2 show ?thesis by (simp add: bit_htonl add.commute)
  next
    case 3
    then have "i div 8 = 2" and "i mod 8 = i - 16" by presburger+
    with 3 show ?thesis by (simp add: bit_htonl add.commute)
  next
    case 4
    with True have "i div 8 = 3" and "i mod 8 = i - 24" by presburger+
    with 4 show ?thesis by (simp add: bit_htonl add.commute)
  qed
qed (simp add: bit_htonl)

lemma bit_htonll: "bit (htonll n) i \<longleftrightarrow> i < 64 \<and> bit n (8 * (7 - i div 8) + i mod 8)"
proof (cases "i < 32")
  case True
  then have lt: "8 * (3 - i div 8) + i mod 8 < 32"
    and eq: "32 + (8 * (3 - i div 8) + i mod 8) = 8 * (7 - i div 8) + i mod 8"
    by linarith+
  have "bit (htonll n) i \<longleftrightarrow> bit n (32 + (8 * (3 - i div 8) + i mod 8))"
    using True lt unfolding htonll_swaps by (simp add: bit_simps bit_htonl_bytes)
  with True show ?thesis unfolding eq by simp
next
  case False
  then obtain j where i: "i = j + 32" by (metis add.commute le_Suc_ex not_less)
  have d: "(j + 32) div 8 = j div 8 + 4" "(j + 32) mod 8 = j mod 8"
    using mod_mult_self1 [of j 4 8] by simp_all
  have "8 * (3 - j div 8) + j mod 8 < 32" if "j < 32" using that by linarith
  then show ?thesis
    unfolding htonll_swaps i by (auto simp: bit_simps bit_htonl_bytes d)
qed

section \<open>Ethernet addresses\<close>

text \<open>An \<^verbatim>\<open>ethernetaddr\<close> is its six octets.\<close>

type_synonym ethernetaddr = bytes

definition ethernetaddr_LEN :: nat where
  "ethernetaddr_LEN = 6"

definition wf_eth :: "ethernetaddr \<Rightarrow> bool" where
  "wf_eth ea \<longleftrightarrow> length ea = ethernetaddr_LEN"

definition eth_new :: ethernetaddr where
  "eth_new = replicate ethernetaddr_LEN 0"

definition eth_of_uint64 :: "uint64 \<Rightarrow> ethernetaddr" where
  "eth_of_uint64 i = take ethernetaddr_LEN (drop 2 (store64 (htonll i)))"

definition eth_assign_uint64 :: "uint64 \<Rightarrow> ethernetaddr" where
  "eth_assign_uint64 i = take ethernetaddr_LEN (store64 i)"

definition eth_is_init :: "ethernetaddr \<Rightarrow> bool" where
  "eth_is_init ea \<longleftrightarrow> load32 0 ea \<noteq> 0 \<and> load16 4 ea \<noteq> 0"

fun memcmp :: "bytes \<Rightarrow> bytes \<Rightarrow> int" where
  "memcmp (a # as) (b # bs) = (if a = b then memcmp as bs else uint a - uint b)"
| "memcmp _ _ = 0"

definition eth_eq :: "ethernetaddr \<Rightarrow> ethernetaddr \<Rightarrow> bool" where
  "eth_eq a b \<longleftrightarrow> (\<forall>i \<in> set [0..<ethernetaddr_LEN]. a ! i = b ! i)"

definition eth_neq :: "ethernetaddr \<Rightarrow> ethernetaddr \<Rightarrow> bool" where
  "eth_neq a b \<longleftrightarrow> (\<exists>i \<in> set [0..<ethernetaddr_LEN]. a ! i \<noteq> b ! i)"

definition eth_less :: "ethernetaddr \<Rightarrow> ethernetaddr \<Rightarrow> bool" where
  "eth_less a b \<longleftrightarrow> memcmp a b < 0"

definition eth_le :: "ethernetaddr \<Rightarrow> ethernetaddr \<Rightarrow> bool" where
  "eth_le a b \<longleftrightarrow> memcmp a b \<le> 0"

definition eth_greater :: "ethernetaddr \<Rightarrow> ethernetaddr \<Rightarrow> bool" where
  "eth_greater a b \<longleftrightarrow> memcmp a b > 0"

definition eth_ge :: "ethernetaddr \<Rightarrow> ethernetaddr \<Rightarrow> bool" where
  "eth_ge a b \<longleftrightarrow> memcmp a b \<ge> 0"

definition set_octet :: "bytes \<Rightarrow> ethernetaddr" where
  "set_octet oct = take ethernetaddr_LEN oct"

text \<open>
  \<open>hb_long\<close> and \<open>nb_long\<close> dereference the octets as a 64-bit integer, so they also read the two
  bytes \<open>after\<close> the address in memory.
\<close>

definition hb_long :: "bytes \<Rightarrow> ethernetaddr \<Rightarrow> uint64" where
  "hb_long after ea = drop_bit 16 (ntohll (load64 0 (ea @ after)))"

definition nb_long :: "bytes \<Rightarrow> ethernetaddr \<Rightarrow> uint64" where
  "nb_long after ea = load64 0 (ea @ after) AND 0xffffffffffff"

definition eth_is_private :: "ethernetaddr \<Rightarrow> bool" where
  "eth_is_private ea \<longleftrightarrow> 0x02 AND ea ! 0 \<noteq> 0"

definition eth_is_multicast :: "ethernetaddr \<Rightarrow> bool" where
  "eth_is_multicast ea \<longleftrightarrow> 0x01 AND ea ! 0 \<noteq> 0"

definition eth_is_broadcast :: "bytes \<Rightarrow> ethernetaddr \<Rightarrow> bool" where
  "eth_is_broadcast after ea \<longleftrightarrow> hb_long after ea = 0xffffffffffff"

definition eth_is_pae :: "bytes \<Rightarrow> ethernetaddr \<Rightarrow> bool" where
  "eth_is_pae after ea \<longleftrightarrow> hb_long after ea = 0x0180c2000003"

definition eth_is_zero :: "ethernetaddr \<Rightarrow> bool" where
  "eth_is_zero ea \<longleftrightarrow> load32 0 ea = 0 \<and> load16 4 ea = 0"

lemma wf_eth_cases:
  assumes "wf_eth ea"
  obtains a b c d e f where "ea = [a, b, c, d, e, f]"
proof -
  have "length ea = Suc (Suc (Suc (Suc (Suc (Suc 0)))))"
    using assms by (simp add: wf_eth_def ethernetaddr_LEN_def)
  then show ?thesis using that by (auto simp: length_Suc_conv)
qed

lemma hb_long_be:
  assumes "wf_eth ea" and "length after = 2"
  shows "hb_long after ea = load_le (rev ea)"
proof (rule bit_word_eqI)
  fix i :: nat
  assume i: "i < LENGTH(64)"
  have l: "length ea = 6" using assms(1) by (simp add: wf_eth_def ethernetaddr_LEN_def)
  have d: "(16 + i) div 8 = i div 8 + 2" "(16 + i) mod 8 = i mod 8"
    using mod_mult_self1 [of i 2 8] by (simp_all add: add.commute)
  show "bit (hb_long after ea) i = bit (load_le (rev ea) :: uint64) i"
  proof (cases "i < 48")
    case True
    define p where "p = 8 * (5 - i div 8) + i mod 8"
    from True have k: "i div 8 < 6" by linarith
    have p: "p div 8 = 5 - i div 8" "p mod 8 = i mod 8" "p < 64"
      unfolding p_def using mod_less_divisor [of 8 i] by simp_all
    have "8 * (7 - (16 + i) div 8) + (16 + i) mod 8 = p" unfolding d p_def using k by simp
    then have "bit (hb_long after ea) i \<longleftrightarrow> bit (load64 0 (ea @ after)) p"
      using True by (simp add: hb_long_def bit_drop_bit_eq bit_htonll)
    also have "\<dots> \<longleftrightarrow> bit (ea ! (5 - i div 8)) (i mod 8)"
      using k l p less_imp_diff_less [of 5 6 "i div 8"] by (simp add: load64_def bit_load_le nth_append assms(2))
    also have "\<dots> \<longleftrightarrow> bit (load_le (rev ea) :: uint64) i"
      using True k l by (simp add: bit_load_le rev_nth)
    finally show ?thesis .
  next
    case False
    then have "\<not> i div 8 < 6" by linarith
    with False i l show ?thesis by (simp add: hb_long_def bit_simps bit_htonll bit_load_le)
  qed
qed

lemma byte_pos: "m < 8 \<Longrightarrow> (8 * k + m) div 8 = k" "m < 8 \<Longrightarrow> (8 * k + m) mod 8 = (m :: nat)"
  by simp_all

lemma eth_of_uint64_rev: "eth_of_uint64 i = rev (store_le 6 i)"
proof (rule nth_equalityI)
  show "length (eth_of_uint64 i) = length (rev (store_le 6 i))"
    by (simp add: eth_of_uint64_def ethernetaddr_LEN_def)
next
  fix j
  assume "j < length (eth_of_uint64 i)"
  then have j: "j < 6" by (simp add: eth_of_uint64_def ethernetaddr_LEN_def)
  have "eth_of_uint64 i ! j = ucast (drop_bit (8 * (2 + j)) (htonll i))"
    using j by (simp add: eth_of_uint64_def ethernetaddr_LEN_def store_le_def)
  also have "\<dots> = ucast (drop_bit (8 * (5 - j)) i)"
  proof (rule bit_word_eqI)
    fix m :: nat
    assume "m < LENGTH(8)"
    then have m: "m < 8" by simp
    define q where "q = 8 * (2 + j) + m"
    have q: "q div 8 = 2 + j" "q mod 8 = m" "q < 64"
      unfolding q_def using m j by (simp_all only: byte_pos) simp
    have "8 * (7 - q div 8) + q mod 8 = 8 * (5 - j) + m" unfolding q by simp
    then have "bit (htonll i) q \<longleftrightarrow> bit i (8 * (5 - j) + m)" using q(3) by (simp add: bit_htonll)
    then show "bit (ucast (drop_bit (8 * (2 + j)) (htonll i)) :: uint8) m =
        bit (ucast (drop_bit (8 * (5 - j)) i) :: uint8) m"
      using m by (simp add: bit_ucast_iff bit_drop_bit_eq q_def)
  qed
  also have "\<dots> = rev (store_le 6 i) ! j"
    using j less_imp_diff_less [of 5 6 j] by (simp add: rev_nth store_le_def)
  finally show "eth_of_uint64 i ! j = rev (store_le 6 i) ! j" .
qed

lemma hb_long_eth_of_uint64:
  "length after = 2 \<Longrightarrow> hb_long after (eth_of_uint64 i) = take_bit 48 i"
  by (subst hb_long_be) (simp_all add: eth_of_uint64_rev wf_eth_def ethernetaddr_LEN_def load_le_store_le_take)

lemma eth_of_uint64_hb_long:
  assumes "wf_eth ea" and "length after = 2"
  shows "eth_of_uint64 (hb_long after ea) = ea"
proof -
  from assms(1) have l: "length (rev ea) = 6" by (simp add: wf_eth_def ethernetaddr_LEN_def)
  have "store_le (length (rev ea)) (load_le (rev ea) :: uint64) = rev ea"
    by (rule store_le_load_le) (simp only: l, simp)
  then show ?thesis by (simp only: hb_long_be [OF assms] eth_of_uint64_rev l rev_rev_ident)
qed

section \<open>The text form of Ethernet addresses\<close>

text \<open>C strings are character lists without their terminating null.\<close>

definition c_str :: "string \<Rightarrow> string" where
  "c_str s = takeWhile (\<lambda>c. c \<noteq> CHR 0x00) s"

definition hexit_value :: "char \<Rightarrow> int" where
  "hexit_value ch =
     (let c = of_char ch :: int in
      if 48 \<le> c \<and> c \<le> 57 then c - 48
      else if 97 \<le> c \<and> c \<le> 102 then c - 97 + 10
      else if 65 \<le> c \<and> c \<le> 70 then c - 65 + 10
      else - 1)"

text \<open>The loop of \<^verbatim>\<open>init_from_string\<close>; the first argument is the number of octets still to read.\<close>

fun init_loop :: "nat \<Rightarrow> string \<Rightarrow> bytes \<Rightarrow> bytes option" where
  "init_loop 0 str acc = (if str = [] then Some acc else None)"
| "init_loop (Suc k) [] acc = None"
| "init_loop (Suc k) (c1 # str) acc =
     (if hexit_value c1 < 0 then None
      else
        let digit1 = word_of_int (hexit_value c1);
            (oct, rest) = (case str of
                             [] \<Rightarrow> (digit1, str)
                           | c2 # str' \<Rightarrow>
                               if hexit_value c2 \<ge> 0 then (digit1 * 16 + word_of_int (hexit_value c2), str')
                               else (digit1, str))
        in if k \<noteq> 0
           then (case rest of
                   [] \<Rightarrow> None
                 | c # rest' \<Rightarrow>
                     if c \<noteq> CHR ''-'' \<and> c \<noteq> CHR '':'' then None else init_loop k rest' (acc @ [oct]))
           else init_loop k rest (acc @ [oct]))"

definition eth_of_cstring :: "string \<Rightarrow> ethernetaddr option" where
  "eth_of_cstring str = init_loop 6 str []"

definition eth_of_string :: "string \<Rightarrow> ethernetaddr option" where
  "eth_of_string text = eth_of_cstring (c_str text)"

definition hex_digit :: "nat \<Rightarrow> char" where
  "hex_digit d = ''0123456789abcdef'' ! d"

definition hex2 :: "uint8 \<Rightarrow> string" where
  "hex2 b = [hex_digit (unat b div 16), hex_digit (unat b mod 16)]"

definition eth_string :: "ethernetaddr \<Rightarrow> string" where
  "eth_string ea = hex2 (ea ! 0) @ '':'' @ hex2 (ea ! 1) @ '':'' @ hex2 (ea ! 2) @ '':'' @
     hex2 (ea ! 3) @ '':'' @ hex2 (ea ! 4) @ '':'' @ hex2 (ea ! 5)"

lemma hexit_hex_digit: "d < 16 \<Longrightarrow> hexit_value (hex_digit d) = int d"
proof -
  assume "d < 16"
  then have "d \<in> set [0..<16]" by simp
  moreover have "\<forall>d \<in> set [0..<16]. hexit_value (hex_digit d) = int d" by code_simp
  ultimately show ?thesis by blast
qed

lemma hex_digit_nonzero: "d < 16 \<Longrightarrow> hex_digit d \<noteq> CHR 0x00"
proof -
  assume "d < 16"
  then have "d \<in> set [0..<16]" by simp
  moreover have "\<forall>d \<in> set [0..<16]. hex_digit d \<noteq> CHR 0x00" by code_simp
  ultimately show ?thesis by blast
qed

lemma unat_digits:
  fixes b :: uint8
  shows "unat b div 16 < 16" and "unat b mod 16 < 16"
    and "word_of_int (int (unat b div 16)) * 16 + word_of_int (int (unat b mod 16)) = b"
proof -
  have "unat b < 256" using unsigned_less [of b, where 'a = nat] by simp
  then show "unat b div 16 < 16" and "unat b mod 16 < 16" by auto
  have "(of_nat (unat b div 16) :: uint8) * 16 + of_nat (unat b mod 16) = of_nat (unat b div 16 * 16 + unat b mod 16)"
    by (simp only: of_nat_add of_nat_mult of_nat_numeral)
  also have "\<dots> = b" by (simp only: div_mult_mod_eq) simp
  finally show "word_of_int (int (unat b div 16)) * 16 + word_of_int (int (unat b mod 16)) = b"
    by (simp only: of_int_of_nat_eq)
qed

lemma init_loop_hex2:
  "init_loop (Suc (Suc k)) (hex2 b @ CHR '':'' # s) acc = init_loop (Suc k) s (acc @ [b])"
  "init_loop (Suc 0) (hex2 b) acc = Some (acc @ [b])"
  using unat_digits [of b] by (simp_all add: hex2_def hexit_hex_digit Let_def)

lemma eth_of_cstring_eth_string: "wf_eth ea \<Longrightarrow> eth_of_cstring (eth_string ea) = Some ea"
proof -
  assume "wf_eth ea"
  then obtain a b c d e f where ea: "ea = [a, b, c, d, e, f]" by (rule wf_eth_cases)
  have six: "(6 :: nat) = Suc (Suc (Suc (Suc (Suc (Suc 0)))))" by simp
  show ?thesis
    unfolding eth_of_cstring_def eth_string_def ea six
    by (simp add: init_loop_hex2 del: init_loop.simps)
qed

lemma c_str_eth_string: "c_str (eth_string ea) = eth_string ea"
proof -
  have "\<forall>c \<in> set (eth_string ea). c \<noteq> CHR 0x00"
    unfolding eth_string_def hex2_def
    using hex_digit_nonzero [OF unat_digits(1)] hex_digit_nonzero [OF unat_digits(2)] by auto
  then show ?thesis by (simp add: c_str_def)
qed

lemma eth_of_string_eth_string: "wf_eth ea \<Longrightarrow> eth_of_string (eth_string ea) = Some ea"
  by (simp add: eth_of_string_def c_str_eth_string eth_of_cstring_eth_string)

lemma init_loop_length: "init_loop k str acc = Some oct \<Longrightarrow> length oct = k + length acc"
  by (induction k str acc rule: init_loop.induct) (auto simp: Let_def split: if_splits list.splits prod.splits)

lemma eth_of_cstring_wf: "eth_of_cstring str = Some ea \<Longrightarrow> wf_eth ea"
  unfolding eth_of_cstring_def wf_eth_def ethernetaddr_LEN_def by (auto dest: init_loop_length)

section \<open>IP addresses\<close>

text \<open>An \<^verbatim>\<open>ipaddr\<close> is its member \<^verbatim>\<open>addr\<close>, in network byte order.\<close>

type_synonym ipaddr = uint32

definition ip_new :: ipaddr where
  "ip_new = 0"

definition ip_of_uint32 :: "uint32 \<Rightarrow> ipaddr" where
  "ip_of_uint32 x = htonl x"

definition ip_of_bytes :: "bytes \<Rightarrow> ipaddr" where
  "ip_of_bytes bs = load32 0 bs"

definition ip_not :: "ipaddr \<Rightarrow> ipaddr" where
  "ip_not a = ip_of_uint32 (htonl (NOT a))"

definition ip_and :: "ipaddr \<Rightarrow> ipaddr \<Rightarrow> ipaddr" where
  "ip_and a b = ip_of_uint32 (htonl (a AND b))"

definition ip_and_uint32 :: "ipaddr \<Rightarrow> uint32 \<Rightarrow> ipaddr" where
  "ip_and_uint32 a x = ip_of_uint32 (ntohl a AND x)"

definition ip_and_assign :: "ipaddr \<Rightarrow> ipaddr \<Rightarrow> ipaddr" where
  "ip_and_assign a b = a AND b"

definition ip_and_assign_uint32 :: "ipaddr \<Rightarrow> uint32 \<Rightarrow> ipaddr" where
  "ip_and_assign_uint32 a x = a AND x"

definition ip_or :: "ipaddr \<Rightarrow> ipaddr \<Rightarrow> ipaddr" where
  "ip_or a b = ip_of_uint32 (htonl (a OR b))"

definition ip_or_uint32 :: "ipaddr \<Rightarrow> uint32 \<Rightarrow> ipaddr" where
  "ip_or_uint32 a x = ip_of_uint32 (htonl (a OR x))"

definition ip_or_assign :: "ipaddr \<Rightarrow> ipaddr \<Rightarrow> ipaddr" where
  "ip_or_assign a b = a OR b"

definition ip_or_assign_uint32 :: "ipaddr \<Rightarrow> uint32 \<Rightarrow> ipaddr" where
  "ip_or_assign_uint32 a x = a OR x"

definition ip_inc :: "ipaddr \<Rightarrow> ipaddr" where
  "ip_inc a = htonl (htonl a + 1)"

definition ip_dec :: "ipaddr \<Rightarrow> ipaddr" where
  "ip_dec a = htonl (htonl a - 1)"

definition ip_add_assign :: "ipaddr \<Rightarrow> uint32 \<Rightarrow> ipaddr" where
  "ip_add_assign a n = htonl (htonl a + n)"

definition ip_add :: "ipaddr \<Rightarrow> uint32 \<Rightarrow> ipaddr" where
  "ip_add a n = ip_of_uint32 (htonl a + n)"

definition ip_diff :: "ipaddr \<Rightarrow> ipaddr \<Rightarrow> uint32" where
  "ip_diff a b = htonl a - htonl b"

definition ip_sub :: "ipaddr \<Rightarrow> uint32 \<Rightarrow> ipaddr" where
  "ip_sub a n = ip_of_uint32 (htonl a - n)"

definition ip_less :: "ipaddr \<Rightarrow> ipaddr \<Rightarrow> bool" where
  "ip_less a b \<longleftrightarrow> htonl a < htonl b"

definition ip_less_uint32 :: "ipaddr \<Rightarrow> uint32 \<Rightarrow> bool" where
  "ip_less_uint32 a x \<longleftrightarrow> htonl a < x"

definition ip_le :: "ipaddr \<Rightarrow> ipaddr \<Rightarrow> bool" where
  "ip_le a b \<longleftrightarrow> htonl a \<le> htonl b"

definition ip_le_uint32 :: "ipaddr \<Rightarrow> uint32 \<Rightarrow> bool" where
  "ip_le_uint32 a x \<longleftrightarrow> htonl a \<le> x"

definition isMulticast :: "ipaddr \<Rightarrow> bool" where
  "isMulticast a \<longleftrightarrow> ntohl a \<ge> 0xE0000000 \<and> ntohl a \<le> 0xEFFFFFFF"

definition isPrivate :: "ipaddr \<Rightarrow> bool" where
  "isPrivate a \<longleftrightarrow> (ntohl a \<ge> 0x10000000 \<and> ntohl a \<le> 0x10FFFFFF) \<or>
     (ntohl a \<ge> 0xAC100000 \<and> ntohl a \<le> 0xAC1FFFFF) \<or> (ntohl a \<ge> 0xC0A80000 \<and> ntohl a \<le> 0xC0ABFFFF)"

lemma htonl_and: "htonl (a AND b) = htonl a AND htonl b"
  by (rule bit_word_eqI) (auto simp: bit_htonl bit_simps)

lemma htonl_or: "htonl (a OR b) = htonl a OR htonl b"
  by (rule bit_word_eqI) (auto simp: bit_htonl bit_simps)

lemma ip_and_ops: "ip_and a b = a AND b" "ip_and_uint32 a x = a AND htonl x"
  by (simp_all add: ip_and_def ip_and_uint32_def ip_of_uint32_def htonl_and)

lemma ip_arith: "ip_diff (ip_add a n) a = n" "ip_sub (ip_add a n) n = a" "ip_dec (ip_inc a) = a"
  by (simp_all add: ip_diff_def ip_add_def ip_sub_def ip_of_uint32_def ip_dec_def ip_inc_def)

section \<open>CIDR prefixes\<close>

record cidr_ipaddr =
  cidr_addr :: ipaddr
  cidr_mask :: uint32

definition prefix_mask :: "nat \<Rightarrow> uint32" where
  "prefix_mask len = (if len = 0 then 0 else htonl (push_bit (32 - len) (NOT 0)))"

definition cidr_default :: cidr_ipaddr where
  "cidr_default = \<lparr>cidr_addr = ip_new, cidr_mask = NOT 0\<rparr>"

text \<open>\<open>None\<close> is the exception \<^verbatim>\<open>bad_ipaddr_cast\<close>.\<close>

definition cidr_of_prefix :: "ipaddr \<Rightarrow> uint8 \<Rightarrow> cidr_ipaddr option" where
  "cidr_of_prefix ip mask_bit_len =
     (if mask_bit_len > 32 then None
      else let m = prefix_mask (unat mask_bit_len) in Some \<lparr>cidr_addr = ip AND m, cidr_mask = m\<rparr>)"

definition is_digit :: "char \<Rightarrow> bool" where
  "is_digit c \<longleftrightarrow> 48 \<le> (of_char c :: nat) \<and> of_char c \<le> (57 :: nat)"

definition atoi :: "string \<Rightarrow> nat" where
  "atoi str = foldl (\<lambda>n c. 10 * n + (of_char c - 48)) 0 str"

text \<open>\<open>set_mask\<close> gets the text after the slash.\<close>

definition set_mask :: "string \<Rightarrow> uint32 option" where
  "set_mask str =
     (if \<not> list_all is_digit str then None
      else if str = [] then None
      else if atoi str > 32 then None
      else Some (prefix_mask (atoi str)))"

text \<open>\<open>resolve\<close> stands for \<^verbatim>\<open>ipaddr(std::string)\<close>, which asks \<^verbatim>\<open>gethostbyname\<close>.\<close>

definition cidr_of_string :: "(string \<Rightarrow> ipaddr option) \<Rightarrow> string \<Rightarrow> cidr_ipaddr option" where
  "cidr_of_string resolve str =
     (case dropWhile (\<lambda>c. c \<noteq> CHR ''/'') str of
        [] \<Rightarrow> map_option (\<lambda>a. \<lparr>cidr_addr = a AND NOT 0, cidr_mask = NOT 0\<rparr>) (resolve str)
      | _ # rest \<Rightarrow>
          (case resolve (takeWhile (\<lambda>c. c \<noteq> CHR ''/'') str) of
             None \<Rightarrow> None
           | Some a \<Rightarrow> map_option (\<lambda>m. \<lparr>cidr_addr = a AND m, cidr_mask = m\<rparr>) (set_mask rest)))"

definition cidr_matches :: "cidr_ipaddr \<Rightarrow> ipaddr \<Rightarrow> bool" where
  "cidr_matches c ip \<longleftrightarrow> cidr_addr c = ip AND cidr_mask c"

function prefix_len_loop :: "uint32 \<Rightarrow> uint32 \<Rightarrow> uint32" where
  "prefix_len_loop mask_cpy len = (if mask_cpy \<noteq> 0 then prefix_len_loop (push_bit 1 mask_cpy) (len + 1) else len)"
  by pat_completeness auto
termination
proof (relation "measure (\<lambda>(m, len). card {k. push_bit k m \<noteq> 0})", goal_cases)
  case 1
  show ?case by simp
next
  case (2 m len)
  let ?S = "\<lambda>m :: uint32. {k. push_bit k m \<noteq> 0}"
  have fin: "finite (?S m)" for m
    by (rule finite_subset [of _ "{..<32}"]) (auto simp: not_le [symmetric] intro!: bit_word_eqI simp: bit_simps)
  have "Suc ` ?S (push_bit 1 m) \<subset> ?S m"
  proof
    show "Suc ` ?S (push_bit 1 m) \<subseteq> ?S m" by (auto simp: push_bit_push_bit)
    have "0 \<in> ?S m" using 2 by simp
    then show "Suc ` ?S (push_bit 1 m) \<noteq> ?S m" by blast
  qed
  then have "card (Suc ` ?S (push_bit 1 m)) < card (?S m)" by (rule psubset_card_mono [OF fin])
  then show ?case by (simp add: card_image)
qed

declare prefix_len_loop.simps [simp del]

definition get_prefix_len :: "cidr_ipaddr \<Rightarrow> uint32" where
  "get_prefix_len c = prefix_len_loop (ntohl (cidr_mask c)) 0"

definition cidr_eq :: "cidr_ipaddr \<Rightarrow> cidr_ipaddr \<Rightarrow> bool" where
  "cidr_eq a b \<longleftrightarrow> cidr_addr a = cidr_addr b \<and> cidr_mask a = cidr_mask b"

definition cidr_neq :: "cidr_ipaddr \<Rightarrow> cidr_ipaddr \<Rightarrow> bool" where
  "cidr_neq a b \<longleftrightarrow> cidr_addr a \<noteq> cidr_addr b \<or> cidr_mask a \<noteq> cidr_mask b"

lemma prefix_mask_host: "len \<le> 32 \<Longrightarrow> htonl (prefix_mask len) = push_bit (32 - len) (NOT 0)"
  by (auto simp: prefix_mask_def intro!: bit_word_eqI simp: bit_simps)

lemma prefix_len_loop_mask: "s \<le> 32 \<Longrightarrow> prefix_len_loop (push_bit s (NOT 0)) n = n + of_nat (32 - s)"
proof (induction "32 - s" arbitrary: s n)
  case 0
  then have "push_bit s (NOT 0 :: uint32) = 0" by (auto intro!: bit_word_eqI simp: bit_simps)
  with 0 show ?case by (simp add: prefix_len_loop.simps)
next
  case (Suc k)
  then have "bit (push_bit s (NOT 0 :: uint32)) s" by (auto simp: bit_simps)
  then have nz: "push_bit s (NOT 0 :: uint32) \<noteq> 0" by auto
  have "prefix_len_loop (push_bit s (NOT 0)) n = prefix_len_loop (push_bit (Suc s) (NOT 0)) (n + 1)"
    unfolding prefix_len_loop.simps [of "push_bit s (NOT 0)"] using nz
    by (simp only: not_False_eq_True if_True push_bit_push_bit plus_1_eq_Suc)
  also have "\<dots> = n + 1 + of_nat (32 - Suc s)" using Suc by (intro Suc.hyps) auto
  also have "\<dots> = n + of_nat (Suc (32 - Suc s))" by simp
  also have "Suc (32 - Suc s) = 32 - s" using Suc by simp
  finally show ?case .
qed

lemma and_prefix_eq:
  fixes a b :: uint32
  assumes "len \<le> 32"
  shows "a AND push_bit (32 - len) (NOT 0) = b AND push_bit (32 - len) (NOT 0) \<longleftrightarrow>
    drop_bit (32 - len) a = drop_bit (32 - len) b"
proof -
  have "a AND push_bit (32 - len) (NOT 0) = b AND push_bit (32 - len) (NOT 0) \<longleftrightarrow>
      (\<forall>i. 32 - len \<le> i \<and> i < 32 \<longrightarrow> bit a i = bit b i)"
    by (auto simp: bit_eq_iff [where 'a = uint32] bit_simps dest: bit_imp_le_length)
  also have "\<dots> \<longleftrightarrow> (\<forall>j. 32 - len + j < 32 \<longrightarrow> bit a (32 - len + j) = bit b (32 - len + j))"
    by (metis le_add1 le_add_diff_inverse)
  also have "\<dots> \<longleftrightarrow> (\<forall>j. bit (drop_bit (32 - len) a) j = bit (drop_bit (32 - len) b) j)"
  proof -
    have "bit w k \<Longrightarrow> k < 32" for w :: uint32 and k using bit_imp_le_length [of w k] by simp
    then show ?thesis unfolding bit_drop_bit_eq comp_def by blast
  qed
  also have "\<dots> \<longleftrightarrow> drop_bit (32 - len) a = drop_bit (32 - len) b" by (auto intro: bit_word_eqI)
  finally show ?thesis .
qed

lemma cidr_matches_prefix:
  assumes "cidr_of_prefix ip len = Some c"
  shows "cidr_matches c x \<longleftrightarrow> drop_bit (32 - unat len) (ntohl x) = drop_bit (32 - unat len) (ntohl ip)"
proof -
  have l: "unat len \<le> 32" and c: "c = \<lparr>cidr_addr = ip AND prefix_mask (unat len), cidr_mask = prefix_mask (unat len)\<rparr>"
    using assms by (auto simp: cidr_of_prefix_def Let_def word_le_nat_alt not_less split: if_splits)
  have "cidr_matches c x \<longleftrightarrow> htonl (ip AND prefix_mask (unat len)) = htonl (x AND prefix_mask (unat len))"
    by (simp add: cidr_matches_def c)
  also have "\<dots> \<longleftrightarrow> drop_bit (32 - unat len) (ntohl ip) = drop_bit (32 - unat len) (ntohl x)"
    unfolding htonl_and prefix_mask_host [OF l] by (rule and_prefix_eq [OF l])
  finally show ?thesis by auto
qed

lemma get_prefix_len_prefix:
  assumes "cidr_of_prefix ip len = Some c"
  shows "get_prefix_len c = ucast len"
proof -
  have l: "unat len \<le> 32" and c: "cidr_mask c = prefix_mask (unat len)"
    using assms by (auto simp: cidr_of_prefix_def Let_def word_le_nat_alt not_less split: if_splits)
  have "get_prefix_len c = of_nat (32 - (32 - unat len))"
    unfolding get_prefix_len_def c prefix_mask_host [OF l] by (subst prefix_len_loop_mask) simp_all
  also have "32 - (32 - unat len) = unat len" using l by simp
  also have "of_nat (unat len) = (ucast len :: uint32)" by (rule of_nat_unat)
  finally show ?thesis .
qed

section \<open>Datapath ids\<close>

text \<open>A \<^verbatim>\<open>datapathid\<close> is its member \<^verbatim>\<open>id\<close>, in host byte order.\<close>

type_synonym datapathid = uint64

definition dp_new :: datapathid where
  "dp_new = 0"

definition dp_from_host :: "uint64 \<Rightarrow> datapathid" where
  "dp_from_host x = x"

definition dp_from_net :: "uint64 \<Rightarrow> datapathid" where
  "dp_from_net x = ntohll x"

definition dp_from_bytes :: "bytes \<Rightarrow> datapathid" where
  "dp_from_bytes bs = dp_from_net (load64 0 ([0, 0] @ take 6 bs))"

definition dp_as_host :: "datapathid \<Rightarrow> uint64" where
  "dp_as_host d = d"

definition dp_as_net :: "datapathid \<Rightarrow> uint64" where
  "dp_as_net d = htonll d"

definition dp_empty :: "datapathid \<Rightarrow> bool" where
  "dp_empty d \<longleftrightarrow> d = 0"

lemma dp_net_roundtrip: "dp_from_net (dp_as_net d) = d" "dp_as_net (dp_from_net x) = x"
  by (simp_all add: dp_from_net_def dp_as_net_def)

lemma store_load64: "length bs = 8 \<Longrightarrow> store64 (load64 0 bs) = bs"
  using store_le_load_le [of bs, where 'a = 64] by (simp add: load64_def)

lemma dp_from_bytes_eth: "wf_eth ea \<Longrightarrow> eth_of_uint64 (dp_as_host (dp_from_bytes ea)) = ea"
  by (simp add: eth_of_uint64_def dp_as_host_def dp_from_bytes_def dp_from_net_def wf_eth_def
      ethernetaddr_LEN_def store_load64)

section \<open>Properties\<close>

text \<open>
  Printing an Ethernet address and parsing the text gives the address back, through both string constructors.
\<close>

theorem eth_print_parse:
  assumes "wf_eth ea"
  shows "eth_of_cstring (eth_string ea) = Some ea \<and> eth_of_string (eth_string ea) = Some ea"
  using assms by (simp add: eth_of_cstring_eth_string eth_of_string_eth_string)

theorem eth_print_parse_witness:
  "wf_eth [0, 1, 2, 0xab, 0xcd, 0xff] \<and>
   eth_of_cstring (eth_string [0, 1, 2, 0xab, 0xcd, 0xff]) = Some [0, 1, 2, 0xab, 0xcd, 0xff] \<and>
   eth_of_string (eth_string [0, 1, 2, 0xab, 0xcd, 0xff]) = Some [0, 1, 2, 0xab, 0xcd, 0xff]"
proof -
  have w: "wf_eth [0, 1, 2, 0xab, 0xcd, 0xff]" by (simp add: wf_eth_def ethernetaddr_LEN_def)
  with eth_print_parse [OF w] show ?thesis by blast
qed

text \<open>
  The conversion of an Ethernet address to a host integer and back is the identity, the conversion of an
  integer to an address and back keeps its low 48 bits, and the two bytes that the conversion reads behind the
  address have no effect.
\<close>

theorem eth_integer_roundtrip:
  assumes "length after = 2" and "wf_eth ea"
  shows "eth_of_uint64 (hb_long after ea) = ea \<and> hb_long after (eth_of_uint64 i) = take_bit 48 i"
  using assms by (simp add: eth_of_uint64_hb_long hb_long_eth_of_uint64)

theorem eth_integer_roundtrip_witness:
  "eth_of_uint64 (hb_long [7, 9] [1, 2, 3, 4, 5, 6]) = [1, 2, 3, 4, 5, 6] \<and>
   hb_long [7, 9] (eth_of_uint64 0xaa010203040506) = take_bit 48 0xaa010203040506"
proof -
  have "length [7 :: uint8, 9] = 2" and "wf_eth [1, 2, 3, 4, 5, 6]" by (simp_all add: wf_eth_def ethernetaddr_LEN_def)
  from eth_integer_roundtrip [OF this, of "0xaa010203040506"] show ?thesis by blast
qed

text \<open>
  C38: a CIDR block built from an address and a prefix length matches exactly the addresses that agree with it on
  the prefix, and the prefix length is recovered from the mask.
\<close>

theorem cidr_prefix:
  assumes "cidr_of_prefix ip len = Some c"
  shows "(cidr_matches c x \<longleftrightarrow> drop_bit (32 - unat len) (ntohl x) = drop_bit (32 - unat len) (ntohl ip)) \<and>
    get_prefix_len c = ucast len"
  using assms by (simp add: cidr_matches_prefix get_prefix_len_prefix)

theorem cidr_prefix_witness:
  "cidr_of_prefix (htonl 0xC0A80101) 16 = Some \<lparr>cidr_addr = htonl 0xC0A80000, cidr_mask = htonl 0xFFFF0000\<rparr> \<and>
   (cidr_matches \<lparr>cidr_addr = htonl 0xC0A80000, cidr_mask = htonl 0xFFFF0000\<rparr> (htonl 0xC0A8FFFF) \<longleftrightarrow>
     drop_bit (32 - unat (16 :: uint8)) (ntohl (htonl 0xC0A8FFFF)) = drop_bit (32 - unat (16 :: uint8)) (ntohl (htonl 0xC0A80101))) \<and>
   get_prefix_len \<lparr>cidr_addr = htonl 0xC0A80000, cidr_mask = htonl 0xFFFF0000\<rparr> = ucast (16 :: uint8)"
proof -
  have c: "cidr_of_prefix (htonl 0xC0A80101) 16 = Some \<lparr>cidr_addr = htonl 0xC0A80000, cidr_mask = htonl 0xFFFF0000\<rparr>"
    by code_simp
  with cidr_prefix [OF c] show ?thesis by blast
qed

text \<open>
  \<^verbatim>\<open>isPrivate\<close> accepts 16.0.0.0/8, 172.16.0.0/12 and 192.168.0.0 to 192.171.255.255: no address of the private
  block 10.0.0.0/8 is private for it, and addresses outside the private blocks are.
\<close>

theorem isPrivate_blocks:
  "(isPrivate a \<longleftrightarrow> drop_bit 24 (ntohl a) = 16 \<or> drop_bit 20 (ntohl a) = 0xAC1 \<or> drop_bit 18 (ntohl a) = 0x302A) \<and>
   \<not> isPrivate (htonl 0x0A000001) \<and> isPrivate (htonl 0x10000001) \<and> isPrivate (htonl 0xC0AB0001)"
proof -
  have "drop_bit 24 x = 16 \<longleftrightarrow> 0x10000000 \<le> x \<and> x \<le> 0x10FFFFFF"
    "drop_bit 20 x = 0xAC1 \<longleftrightarrow> 0xAC100000 \<le> x \<and> x \<le> 0xAC1FFFFF"
    "drop_bit 18 x = 0x302A \<longleftrightarrow> 0xC0A80000 \<le> x \<and> x \<le> 0xC0ABFFFF" for x :: uint32
    by (simp add: word_unat_eq_iff word_le_nat_alt drop_bit_eq_div unat_div, arith)+
  then show ?thesis by (simp add: isPrivate_def)
qed

end
