(* ===== verification/Nox_Ofpack.thy ===== *)
theory Nox_Ofpack
  imports Nox_Prelude
begin

text \<open>
  The wire codecs of \<^verbatim>\<open>src/src/lib/openflow-pack-raw.cc\<close>: for each structure a record of its members in host
  byte order, its empty constructor, \<^verbatim>\<open>pack\<close>, \<^verbatim>\<open>unpack\<close> and \<^verbatim>\<open>operator==\<close>.  The offsets are those of the structures of
  \<^verbatim>\<open>openflow.h\<close>.  \<open>pack\<close> gives the bytes of the structure, \<open>unpack\<close> reads the memory from the start of the structure on;
  \<open>None\<close> is a read past the end of that memory.  The locale \<open>wire_codec\<close> is what a user of a codec relies on, and
  \<open>wire_bijection\<close> adds that every sequence of bytes of the right length is the image of one record; each structure
  interprets one of them.  This theory holds the library and the structures that others embed.
\<close>

section \<open>Strings of fixed width\<close>

text \<open>\<^verbatim>\<open>strncpy(buffer, s.c_str(), n)\<close>, and \<^verbatim>\<open>s.assign(buffer)\<close>, which reads up to the next NUL wherever that is.\<close>

definition strncpy :: "nat \<Rightarrow> bytes \<Rightarrow> bytes" where
  "strncpy n s = (let t = takeWhile (\<lambda>b. b \<noteq> 0) s in take n t @ replicate (n - length t) 0)"

definition c_string :: "bytes \<Rightarrow> bytes option" where
  "c_string mem = (if 0 \<in> set mem then Some (takeWhile (\<lambda>b. b \<noteq> 0) mem) else None)"

lemma length_strncpy [simp]: "length (strncpy n s) = n"
  by (simp add: strncpy_def Let_def)

lemma takeWhile_nonzero: "0 \<notin> set s \<Longrightarrow> takeWhile (\<lambda>b. b \<noteq> 0) s = s" for s :: bytes
  by (auto simp: takeWhile_eq_all_conv)

lemma c_string_strncpy:
  assumes "0 \<notin> set s" and "length s < Suc n"
  shows "c_string (strncpy n s @ 0 # rest) = Some s"
proof -
  have "strncpy n s = s @ replicate (n - length s) 0"
    using assms by (simp add: strncpy_def takeWhile_nonzero Let_def)
  then have e: "strncpy n s @ 0 # rest = s @ 0 # (replicate (n - length s) 0 @ rest)"
    by (simp add: replicate_app_Cons_same)
  have "takeWhile (\<lambda>b. b \<noteq> 0) (s @ 0 # xs) = s" for xs
    using assms(1) by (subst takeWhile_append2) auto
  then show ?thesis unfolding e c_string_def by simp
qed

section \<open>Contracts\<close>

locale wire_codec =
  fixes pack :: "'a \<Rightarrow> bytes"
    and unpack :: "bytes \<Rightarrow> 'a option"
    and same :: "'a \<Rightarrow> 'a \<Rightarrow> bool"
    and width :: nat
    and wf :: "'a \<Rightarrow> bool"
  assumes length_pack: "wf x \<Longrightarrow> length (pack x) = width"
    and unpack_pack: "wf x \<Longrightarrow> unpack (pack x @ rest) = Some x"
    and unpack_short: "length mem < width \<Longrightarrow> unpack mem = None"
    and eq_iff: "wf x \<Longrightarrow> wf y \<Longrightarrow> same x y \<longleftrightarrow> x = y"
begin

lemma pack_inject: "wf x \<Longrightarrow> wf y \<Longrightarrow> pack x @ rest = pack y @ rest' \<Longrightarrow> x = y \<and> rest = rest'"
  by (metis append_eq_append_conv length_pack option.inject unpack_pack)

lemma unpack_pack_nil: "wf x \<Longrightarrow> unpack (pack x) = Some x"
  using unpack_pack [of x "[]"] by simp

end

locale wire_bijection = wire_codec +
  assumes pack_unpack: "width \<le> length mem \<Longrightarrow> \<exists>x. unpack mem = Some x \<and> wf x \<and> pack x = take width mem"
begin

lemma unpack_defined: "unpack mem = None \<longleftrightarrow> length mem < width"
  using pack_unpack [of mem] unpack_short [of mem] by (cases "length mem < width") auto

lemma pack_unpack_at:
  "off + width \<le> length mem \<Longrightarrow> \<exists>x. unpack (drop off mem) = Some x \<and> wf x \<and> pack x = take width (drop off mem)"
  by (rule pack_unpack) simp

lemma map_pack_unpack: "width \<le> length mem \<Longrightarrow> map_option pack (unpack mem) = Some (take width mem)"
  using pack_unpack [of mem] by auto

lemma pack_of_unpack: "unpack mem = Some x \<Longrightarrow> wf x \<and> pack x = take width mem"
  using pack_unpack [of mem] unpack_short [of mem] by (cases "length mem < width") auto

end

named_theorems codec_length \<open>lengths of packed structures\<close>
named_theorems codec_unpack \<open>unpacking of packed structures\<close>
named_theorems codec_eq \<open>comparison of structures\<close>
named_theorems codec_chunks \<open>reassembling a memory from its parts\<close>

lemmas codec_strings [codec_unpack] = c_string_strncpy

lemma store_load [codec_chunks]:
  "off + 2 \<le> length mem \<Longrightarrow> store16 (load16 off mem) = take 2 (drop off mem)"
  "off + 4 \<le> length mem \<Longrightarrow> store32 (load32 off mem) = take 4 (drop off mem)"
  "off + 8 \<le> length mem \<Longrightarrow> store64 (load64 off mem) = take 8 (drop off mem)"
  using store_le_load_le [of "take 2 (drop off mem)", where 'a = 16] store_le_load_le [of "take 4 (drop off mem)", where 'a = 32]
    store_le_load_le [of "take 8 (drop off mem)", where 'a = 64]
  by (simp_all add: load16_def load32_def load64_def)

lemma chunk_append [codec_chunks]:
  "k' = k + n \<Longrightarrow> take n (drop k mem) @ take m (drop k' mem) = take (n + m) (drop k mem)"
  by (simp add: take_add add.commute [of n k])

lemma chunk_append_0 [codec_chunks]: "take n mem @ take m (drop n mem) = take (n + m) mem"
  by (simp add: take_add)

lemma chunk_cons [codec_chunks]:
  assumes "k + 1 \<le> length mem" and "k' = Suc k"
  shows "load8 k mem # take m (drop k' mem) = take (Suc m) (drop k mem)"
proof -
  have "drop k mem = mem ! k # drop (Suc k) mem" using assms(1) by (simp add: Cons_nth_drop_Suc)
  then show ?thesis by (simp add: assms(2) load8_def)
qed

lemma chunk_byte [codec_chunks]: "k + 1 \<le> length mem \<Longrightarrow> store8 (load8 k mem) = take 1 (drop k mem)"
  using chunk_cons [of k mem "Suc k" 0] by simp

section \<open>Structures that others embed\<close>

record of_header =
  header_version :: uint8
  header_type :: uint8
  header_length :: uint16
  header_xid :: uint32

definition of_header_new :: of_header where
  "of_header_new =
     \<lparr>header_version = 1, header_type = 0, header_length = 0, header_xid = 0\<rparr>"

definition of_header_pack :: "of_header \<Rightarrow> bytes" where
  "of_header_pack x =
     store8 (header_version x) @ store8 (header_type x) @ store16 (htons (header_length x)) @
     store32 (htonl (header_xid x))"

definition of_header_unpack :: "bytes \<Rightarrow> of_header option" where
  "of_header_unpack mem =
     (if length mem < 8 then None
      else Some \<lparr>header_version = load8 0 mem, header_type = load8 1 mem, header_length = ntohs (load16 2 mem),
            header_xid = ntohl (load32 4 mem)\<rparr>)"

definition of_header_eq :: "of_header \<Rightarrow> of_header \<Rightarrow> bool" where
  "of_header_eq x y \<longleftrightarrow>
     header_version x = header_version y \<and> header_type x = header_type y \<and>
     header_length x = header_length y \<and> header_xid x = header_xid y"

definition of_header_wf :: "of_header \<Rightarrow> bool" where
  "of_header_wf x \<longleftrightarrow> True"

interpretation header: wire_bijection of_header_pack of_header_unpack of_header_eq 8 of_header_wf
proof
  show "length (of_header_pack x) = 8" if "of_header_wf x" for x
    using that by (simp add: of_header_pack_def of_header_wf_def codec_length)
  show "of_header_unpack (of_header_pack x @ rest) = Some x" if "of_header_wf x" for x rest
    using that by (simp add: of_header_pack_def of_header_unpack_def of_header_wf_def codec_length codec_unpack byteorder)
  show "of_header_unpack mem = None" if "length mem < 8" for mem
    using that by (simp add: of_header_unpack_def)
  show "of_header_eq x y \<longleftrightarrow> x = y" if "of_header_wf x" "of_header_wf y" for x y
    using that by (cases x; cases y) (simp add: of_header_eq_def of_header_wf_def codec_eq)
  show "\<exists>x. of_header_unpack mem = Some x \<and> of_header_wf x \<and> of_header_pack x = take 8 mem" if len: "8 \<le> length mem" for mem
    using len by (simp add: of_header_pack_def of_header_unpack_def of_header_wf_def codec_chunks)
qed

lemmas header_codec [codec_length, codec_unpack, codec_eq] = header.length_pack header.unpack_pack header.eq_iff

record of_match =
  match_wildcards :: uint32
  match_in_port :: uint16
  match_dl_src :: bytes
  match_dl_dst :: bytes
  match_dl_vlan :: uint16
  match_dl_vlan_pcp :: uint8
  match_pad1 :: bytes
  match_dl_type :: uint16
  match_nw_tos :: uint8
  match_nw_proto :: uint8
  match_pad2 :: bytes
  match_nw_src :: uint32
  match_nw_dst :: uint32
  match_tp_src :: uint16
  match_tp_dst :: uint16

definition of_match_new :: of_match where
  "of_match_new =
     \<lparr>match_wildcards = 0, match_in_port = 0, match_dl_src = replicate 6 0, match_dl_dst = replicate 6 0,
      match_dl_vlan = 0, match_dl_vlan_pcp = 0, match_pad1 = replicate 1 0, match_dl_type = 0,
      match_nw_tos = 0, match_nw_proto = 0, match_pad2 = replicate 2 0, match_nw_src = 0, match_nw_dst = 0,
      match_tp_src = 0, match_tp_dst = 0\<rparr>"

definition of_match_pack :: "of_match \<Rightarrow> bytes" where
  "of_match_pack x =
     store32 (htonl (match_wildcards x)) @ store16 (htons (match_in_port x)) @ take 6 (match_dl_src x) @
     take 6 (match_dl_dst x) @ store16 (htons (match_dl_vlan x)) @ store8 (match_dl_vlan_pcp x) @
     take 1 (match_pad1 x) @ store16 (htons (match_dl_type x)) @ store8 (match_nw_tos x) @
     store8 (match_nw_proto x) @ take 2 (match_pad2 x) @ store32 (htonl (match_nw_src x)) @
     store32 (htonl (match_nw_dst x)) @ store16 (htons (match_tp_src x)) @ store16 (htons (match_tp_dst x))"

definition of_match_unpack :: "bytes \<Rightarrow> of_match option" where
  "of_match_unpack mem =
     (if length mem < 40 then None
      else Some \<lparr>match_wildcards = ntohl (load32 0 mem), match_in_port = ntohs (load16 4 mem),
            match_dl_src = take 6 (drop 6 mem), match_dl_dst = take 6 (drop 12 mem),
            match_dl_vlan = ntohs (load16 18 mem), match_dl_vlan_pcp = load8 20 mem,
            match_pad1 = take 1 (drop 21 mem), match_dl_type = ntohs (load16 22 mem),
            match_nw_tos = load8 24 mem, match_nw_proto = load8 25 mem, match_pad2 = take 2 (drop 26 mem),
            match_nw_src = ntohl (load32 28 mem), match_nw_dst = ntohl (load32 32 mem),
            match_tp_src = ntohs (load16 36 mem), match_tp_dst = ntohs (load16 38 mem)\<rparr>)"

definition of_match_eq :: "of_match \<Rightarrow> of_match \<Rightarrow> bool" where
  "of_match_eq x y \<longleftrightarrow>
     match_wildcards x = match_wildcards y \<and> match_in_port x = match_in_port y \<and>
     take 6 (match_dl_src x) = take 6 (match_dl_src y) \<and>
     take 6 (match_dl_dst x) = take 6 (match_dl_dst y) \<and> match_dl_vlan x = match_dl_vlan y \<and>
     match_dl_vlan_pcp x = match_dl_vlan_pcp y \<and> take 1 (match_pad1 x) = take 1 (match_pad1 y) \<and>
     match_dl_type x = match_dl_type y \<and> match_nw_tos x = match_nw_tos y \<and>
     match_nw_proto x = match_nw_proto y \<and> take 2 (match_pad2 x) = take 2 (match_pad2 y) \<and>
     match_nw_src x = match_nw_src y \<and> match_nw_dst x = match_nw_dst y \<and>
     match_tp_src x = match_tp_src y \<and> match_tp_dst x = match_tp_dst y"

definition of_match_wf :: "of_match \<Rightarrow> bool" where
  "of_match_wf x \<longleftrightarrow> length (match_dl_src x) = 6 \<and> length (match_dl_dst x) = 6 \<and> length (match_pad1 x) = 1 \<and>
     length (match_pad2 x) = 2"

interpretation match: wire_bijection of_match_pack of_match_unpack of_match_eq 40 of_match_wf
proof
  show "length (of_match_pack x) = 40" if "of_match_wf x" for x
    using that by (simp add: of_match_pack_def of_match_wf_def codec_length)
  show "of_match_unpack (of_match_pack x @ rest) = Some x" if "of_match_wf x" for x rest
    using that by (simp add: of_match_pack_def of_match_unpack_def of_match_wf_def codec_length codec_unpack byteorder)
  show "of_match_unpack mem = None" if "length mem < 40" for mem
    using that by (simp add: of_match_unpack_def)
  show "of_match_eq x y \<longleftrightarrow> x = y" if "of_match_wf x" "of_match_wf y" for x y
    using that by (cases x; cases y) (simp add: of_match_eq_def of_match_wf_def codec_eq)
  show "\<exists>x. of_match_unpack mem = Some x \<and> of_match_wf x \<and> of_match_pack x = take 40 mem" if len: "40 \<le> length mem" for mem
    using len by (simp add: of_match_pack_def of_match_unpack_def of_match_wf_def codec_chunks)
qed

lemmas match_codec [codec_length, codec_unpack, codec_eq] = match.length_pack match.unpack_pack match.eq_iff

record of_phy_port =
  phy_port_port_no :: uint16
  phy_port_hw_addr :: bytes
  phy_port_name :: bytes
  phy_port_config :: uint32
  phy_port_state :: uint32
  phy_port_curr :: uint32
  phy_port_advertised :: uint32
  phy_port_supported :: uint32
  phy_port_peer :: uint32

definition of_phy_port_new :: of_phy_port where
  "of_phy_port_new =
     \<lparr>phy_port_port_no = 0, phy_port_hw_addr = replicate 6 0, phy_port_name = [], phy_port_config = 0,
      phy_port_state = 0, phy_port_curr = 0, phy_port_advertised = 0, phy_port_supported = 0, phy_port_peer = 0\<rparr>"

definition of_phy_port_pack :: "of_phy_port \<Rightarrow> bytes" where
  "of_phy_port_pack x =
     store16 (htons (phy_port_port_no x)) @ take 6 (phy_port_hw_addr x) @
     strncpy 15 (phy_port_name x) @ store8 0 @ store32 (htonl (phy_port_config x)) @
     store32 (htonl (phy_port_state x)) @ store32 (htonl (phy_port_curr x)) @
     store32 (htonl (phy_port_advertised x)) @ store32 (htonl (phy_port_supported x)) @
     store32 (htonl (phy_port_peer x))"

definition of_phy_port_unpack :: "bytes \<Rightarrow> of_phy_port option" where
  "of_phy_port_unpack mem =
     (if length mem < 48 then None
      else Option.bind (c_string (drop 8 mem)) (\<lambda>name.
        Some \<lparr>phy_port_port_no = ntohs (load16 0 mem), phy_port_hw_addr = take 6 (drop 2 mem),
            phy_port_name = name, phy_port_config = ntohl (load32 24 mem),
            phy_port_state = ntohl (load32 28 mem), phy_port_curr = ntohl (load32 32 mem),
            phy_port_advertised = ntohl (load32 36 mem), phy_port_supported = ntohl (load32 40 mem),
            phy_port_peer = ntohl (load32 44 mem)\<rparr>))"

definition of_phy_port_eq :: "of_phy_port \<Rightarrow> of_phy_port \<Rightarrow> bool" where
  "of_phy_port_eq x y \<longleftrightarrow>
     phy_port_port_no x = phy_port_port_no y \<and>
     take 6 (phy_port_hw_addr x) = take 6 (phy_port_hw_addr y) \<and> phy_port_name x = phy_port_name y \<and>
     phy_port_config x = phy_port_config y \<and> phy_port_state x = phy_port_state y \<and>
     phy_port_curr x = phy_port_curr y \<and> phy_port_advertised x = phy_port_advertised y \<and>
     phy_port_supported x = phy_port_supported y \<and> phy_port_peer x = phy_port_peer y"

definition of_phy_port_wf :: "of_phy_port \<Rightarrow> bool" where
  "of_phy_port_wf x \<longleftrightarrow> length (phy_port_hw_addr x) = 6 \<and>
     0 \<notin> set (phy_port_name x) \<and> length (phy_port_name x) < 16"

interpretation phy_port: wire_codec of_phy_port_pack of_phy_port_unpack of_phy_port_eq 48 of_phy_port_wf
proof
  show "length (of_phy_port_pack x) = 48" if "of_phy_port_wf x" for x
    using that by (simp add: of_phy_port_pack_def of_phy_port_wf_def codec_length)
  show "of_phy_port_unpack (of_phy_port_pack x @ rest) = Some x" if "of_phy_port_wf x" for x rest
    using that by (simp add: of_phy_port_pack_def of_phy_port_unpack_def of_phy_port_wf_def codec_length codec_unpack byteorder)
  show "of_phy_port_unpack mem = None" if "length mem < 48" for mem
    using that by (simp add: of_phy_port_unpack_def)
  show "of_phy_port_eq x y \<longleftrightarrow> x = y" if "of_phy_port_wf x" "of_phy_port_wf y" for x y
    using that by (cases x; cases y) (simp add: of_phy_port_eq_def of_phy_port_wf_def codec_eq)
qed

lemmas phy_port_codec [codec_length, codec_unpack, codec_eq] = phy_port.length_pack phy_port.unpack_pack phy_port.eq_iff

record of_queue_prop_header =
  queue_prop_header_property :: uint16
  queue_prop_header_len :: uint16
  queue_prop_header_pad :: bytes

definition of_queue_prop_header_new :: of_queue_prop_header where
  "of_queue_prop_header_new =
     \<lparr>queue_prop_header_property = 0, queue_prop_header_len = 0, queue_prop_header_pad = replicate 4 0\<rparr>"

definition of_queue_prop_header_pack :: "of_queue_prop_header \<Rightarrow> bytes" where
  "of_queue_prop_header_pack x =
     store16 (htons (queue_prop_header_property x)) @ store16 (htons (queue_prop_header_len x)) @
     take 4 (queue_prop_header_pad x)"

definition of_queue_prop_header_unpack :: "bytes \<Rightarrow> of_queue_prop_header option" where
  "of_queue_prop_header_unpack mem =
     (if length mem < 8 then None
      else Some \<lparr>queue_prop_header_property = ntohs (load16 0 mem), queue_prop_header_len = ntohs (load16 2 mem),
            queue_prop_header_pad = take 4 (drop 4 mem)\<rparr>)"

definition of_queue_prop_header_eq :: "of_queue_prop_header \<Rightarrow> of_queue_prop_header \<Rightarrow> bool" where
  "of_queue_prop_header_eq x y \<longleftrightarrow>
     queue_prop_header_property x = queue_prop_header_property y \<and>
     queue_prop_header_len x = queue_prop_header_len y \<and>
     take 4 (queue_prop_header_pad x) = take 4 (queue_prop_header_pad y)"

definition of_queue_prop_header_wf :: "of_queue_prop_header \<Rightarrow> bool" where
  "of_queue_prop_header_wf x \<longleftrightarrow> length (queue_prop_header_pad x) = 4"

interpretation queue_prop_header: wire_bijection of_queue_prop_header_pack of_queue_prop_header_unpack of_queue_prop_header_eq 8 of_queue_prop_header_wf
proof
  show "length (of_queue_prop_header_pack x) = 8" if "of_queue_prop_header_wf x" for x
    using that by (simp add: of_queue_prop_header_pack_def of_queue_prop_header_wf_def codec_length)
  show "of_queue_prop_header_unpack (of_queue_prop_header_pack x @ rest) = Some x" if "of_queue_prop_header_wf x" for x rest
    using that by (simp add: of_queue_prop_header_pack_def of_queue_prop_header_unpack_def of_queue_prop_header_wf_def codec_length codec_unpack byteorder)
  show "of_queue_prop_header_unpack mem = None" if "length mem < 8" for mem
    using that by (simp add: of_queue_prop_header_unpack_def)
  show "of_queue_prop_header_eq x y \<longleftrightarrow> x = y" if "of_queue_prop_header_wf x" "of_queue_prop_header_wf y" for x y
    using that by (cases x; cases y) (simp add: of_queue_prop_header_eq_def of_queue_prop_header_wf_def codec_eq)
  show "\<exists>x. of_queue_prop_header_unpack mem = Some x \<and> of_queue_prop_header_wf x \<and> of_queue_prop_header_pack x = take 8 mem" if len: "8 \<le> length mem" for mem
    using len by (simp add: of_queue_prop_header_pack_def of_queue_prop_header_unpack_def of_queue_prop_header_wf_def codec_chunks)
qed

lemmas queue_prop_header_codec [codec_length, codec_unpack, codec_eq] = queue_prop_header.length_pack queue_prop_header.unpack_pack queue_prop_header.eq_iff

end
