(* ===== verification/Nox_Flow.thy ===== *)
theory Nox_Flow
  imports Nox_Buffer Nox_Netaddr Nox_Ofpack
begin

unbundle bit_operations_syntax

text \<open>
  \<^verbatim>\<open>struct Flow\<close> of \<^verbatim>\<open>src/src/include/flow.hh\<close> and \<^verbatim>\<open>src/src/lib/flow.cc\<close>, with the packet header layouts
  of \<^verbatim>\<open>src/src/include/packets.h\<close>.  All fields of a flow are in network byte order.  A packet is the
  list of its bytes; headers are read at the offsets of the packed structures.
\<close>

section \<open>Flows and matches\<close>

record flow =
  fl_invalid :: bool
  fl_in_port :: uint16
  fl_dl_vlan :: uint16
  fl_dl_vlan_pcp :: uint8
  fl_dl_src :: ethernetaddr
  fl_dl_dst :: ethernetaddr
  fl_dl_type :: uint16
  fl_nw_src :: uint32
  fl_nw_dst :: uint32
  fl_nw_proto :: uint8
  fl_nw_tos :: uint8
  fl_tp_src :: uint16
  fl_tp_dst :: uint16
  fl_cookie :: uint64

definition Flow_empty :: flow where
  "Flow_empty =
     \<lparr>fl_invalid = False, fl_in_port = 0, fl_dl_vlan = 0, fl_dl_vlan_pcp = 0, fl_dl_src = eth_new,
      fl_dl_dst = eth_new, fl_dl_type = 0, fl_nw_src = 0, fl_nw_dst = 0, fl_nw_proto = 0, fl_nw_tos = 0,
      fl_tp_src = 0, fl_tp_dst = 0, fl_cookie = 0\<rparr>"

text \<open>The constructors from an \<^verbatim>\<open>ofp_match\<close> read the structure \<open>m\<close> in memory, whose members are in network order.\<close>

definition Flow_of_match :: "bytes \<Rightarrow> uint64 \<Rightarrow> bool \<Rightarrow> flow" where
  "Flow_of_match m cookie invalid =
     \<lparr>fl_invalid = invalid, fl_in_port = load16 4 m, fl_dl_vlan = load16 18 m,
      fl_dl_vlan_pcp = load8 20 m, fl_dl_src = take 6 (drop 6 m), fl_dl_dst = take 6 (drop 12 m),
      fl_dl_type = load16 22 m, fl_nw_src = load32 28 m, fl_nw_dst = load32 32 m,
      fl_nw_proto = load8 25 m, fl_nw_tos = load8 24 m, fl_tp_src = load16 36 m,
      fl_tp_dst = load16 38 m, fl_cookie = cookie\<rparr>"

definition Flow_copy :: "flow \<Rightarrow> uint64 \<Rightarrow> bool \<Rightarrow> flow" where
  "Flow_copy f cookie invalid = f\<lparr>fl_cookie := cookie, fl_invalid := invalid\<rparr>"

definition get_exact_match :: "flow \<Rightarrow> of_match" where
  "get_exact_match f = of_match_new
     \<lparr>match_wildcards := ntohl 0, match_in_port := ntohs (fl_in_port f), match_dl_src := take 6 (fl_dl_src f),
      match_dl_dst := take 6 (fl_dl_dst f), match_dl_vlan := ntohs (fl_dl_vlan f),
      match_dl_vlan_pcp := fl_dl_vlan_pcp f, match_dl_type := ntohs (fl_dl_type f), match_nw_tos := fl_nw_tos f,
      match_nw_proto := fl_nw_proto f, match_nw_src := ntohl (fl_nw_src f), match_nw_dst := ntohl (fl_nw_dst f),
      match_tp_src := ntohs (fl_tp_src f), match_tp_dst := ntohs (fl_tp_dst f)\<rparr>"

definition flow_eq :: "flow \<Rightarrow> flow \<Rightarrow> bool" where
  "flow_eq l r \<longleftrightarrow>
     fl_in_port l = fl_in_port r \<and> fl_dl_vlan l = fl_dl_vlan r \<and> fl_dl_vlan_pcp l = fl_dl_vlan_pcp r \<and>
     eth_eq (fl_dl_src l) (fl_dl_src r) \<and> eth_eq (fl_dl_dst l) (fl_dl_dst r) \<and> fl_dl_type l = fl_dl_type r \<and>
     fl_nw_src l = fl_nw_src r \<and> fl_nw_dst l = fl_nw_dst r \<and> fl_nw_proto l = fl_nw_proto r \<and>
     fl_nw_tos l = fl_nw_tos r \<and> fl_tp_src l = fl_tp_src r \<and> fl_tp_dst l = fl_tp_dst r"

section \<open>Constants and header access\<close>

abbreviation ETH2_CUTOFF :: uint16 where "ETH2_CUTOFF \<equiv> 0x0600"
abbreviation ETH_TYPE_IP :: uint16 where "ETH_TYPE_IP \<equiv> 0x0800"
abbreviation ETH_TYPE_ARP :: uint16 where "ETH_TYPE_ARP \<equiv> 0x0806"
abbreviation ETH_TYPE_VLAN :: uint16 where "ETH_TYPE_VLAN \<equiv> 0x8100"
abbreviation OFP_VLAN_NONE :: uint16 where "OFP_VLAN_NONE \<equiv> 0xffff"
abbreviation OFP_DL_TYPE_NOT_ETH_TYPE :: uint16 where "OFP_DL_TYPE_NOT_ETH_TYPE \<equiv> 0x05ff"
abbreviation proto_ICMP :: uint8 where "proto_ICMP \<equiv> 1"
abbreviation proto_TCP :: uint8 where "proto_TCP \<equiv> 6"
abbreviation proto_UDP :: uint8 where "proto_UDP \<equiv> 17"

definition IP_IHL :: "uint8 \<Rightarrow> nat" where
  "IP_IHL ip_ihl_ver = unat (ip_ihl_ver AND 15)"

definition TCP_OFFSET :: "uint16 \<Rightarrow> nat" where
  "TCP_OFFSET tcp_ctl = unat (drop_bit 12 (htons tcp_ctl))"

definition is_fragment :: "uint16 \<Rightarrow> bool" where
  "is_fragment frag_off \<longleftrightarrow> frag_off AND htons (0x2000 OR 0x1fff) \<noteq> 0"

definition pull_eth :: "bytes \<Rightarrow> (bytes \<times> bytes) option" where
  "pull_eth b = try_pull 14 b"

definition pull_vlan :: "bytes \<Rightarrow> (bytes \<times> bytes) option" where
  "pull_vlan b = try_pull 4 b"

definition pull_arp :: "bytes \<Rightarrow> (bytes \<times> bytes) option" where
  "pull_arp b = (if length b \<ge> 28 then try_pull 28 b else None)"

definition pull_ip :: "bytes \<Rightarrow> (bytes \<times> bytes) option" where
  "pull_ip b =
     (case try_at 0 20 b of
        None \<Rightarrow> None
      | Some ip \<Rightarrow> let ip_len = IP_IHL (load8 0 ip) * 4 in if ip_len \<ge> 20 then try_pull ip_len b else None)"

definition pull_tcp :: "bytes \<Rightarrow> (bytes \<times> bytes) option" where
  "pull_tcp b =
     (case try_at 0 20 b of
        None \<Rightarrow> None
      | Some tcp \<Rightarrow> let tcp_len = TCP_OFFSET (load16 12 tcp) * 4 in if tcp_len \<ge> 20 then try_pull tcp_len b else None)"

definition pull_udp :: "bytes \<Rightarrow> (bytes \<times> bytes) option" where
  "pull_udp b = try_pull 8 b"

definition pull_icmp :: "bytes \<Rightarrow> (bytes \<times> bytes) option" where
  "pull_icmp b = try_pull 4 b"

section \<open>The constructor from a packet\<close>

text \<open>
  The constructor \<^verbatim>\<open>Flow(uint16_t, const Buffer&, uint64_t)\<close>, cut at its nesting levels: the frame type
  of the data link layer (\<open>None\<close> is the \<^verbatim>\<open>goto end\<close>), the VLAN tag, the transport header, the network
  layer and the whole.
\<close>

definition parse_frame_type :: "bytes \<Rightarrow> bytes \<Rightarrow> (uint16 \<times> bytes) option" where
  "parse_frame_type eth b =
     (if ntohs (load16 12 eth) \<ge> ETH2_CUTOFF then Some (load16 12 eth, b)
      else case try_at 0 8 b of
        None \<Rightarrow> None
      | Some h \<Rightarrow>
          if load8 0 h = 0xaa \<and> load8 1 h = 0xaa \<and> load8 2 h = 3 \<and> take 3 (drop 3 h) = [0, 0, 0]
          then Some (load16 6 h, drop 8 b)
          else Some (htons OFP_DL_TYPE_NOT_ETH_TYPE, drop 3 b))"

definition parse_vlan :: "uint16 \<times> bytes \<Rightarrow> flow \<Rightarrow> flow \<times> bytes" where
  "parse_vlan p f =
     (case p of (ty, b) \<Rightarrow>
        (case if ty = htons ETH_TYPE_VLAN then pull_vlan b else None of
           None \<Rightarrow> (f\<lparr>fl_dl_type := ty\<rparr>, b)
         | Some (vh, b') \<Rightarrow>
             (f\<lparr>fl_dl_type := load16 2 vh, fl_dl_vlan := load16 0 vh AND htons 0x0fff,
                fl_dl_vlan_pcp := ucast (drop_bit 13 (ntohs (load16 0 vh) AND 0xe000))\<rparr>, b')))"

definition parse_transport :: "bytes \<Rightarrow> flow \<Rightarrow> flow" where
  "parse_transport b f =
     (if fl_nw_proto f = proto_TCP
      then (case pull_tcp b of
              Some (tcp, _) \<Rightarrow> f\<lparr>fl_tp_src := load16 0 tcp, fl_tp_dst := load16 2 tcp\<rparr>
            | None \<Rightarrow> f\<lparr>fl_invalid := True\<rparr>)
      else if fl_nw_proto f = proto_UDP
      then (case pull_udp b of
              Some (udp, _) \<Rightarrow> f\<lparr>fl_tp_src := load16 0 udp, fl_tp_dst := load16 2 udp\<rparr>
            | None \<Rightarrow> f\<lparr>fl_invalid := True\<rparr>)
      else if fl_nw_proto f = proto_ICMP
      then (case pull_icmp b of
              Some (icmp, _) \<Rightarrow>
                f\<lparr>fl_tp_src := htons (ucast (load8 0 icmp)), fl_tp_dst := htons (ucast (load8 1 icmp))\<rparr>
            | None \<Rightarrow> f\<lparr>fl_invalid := True\<rparr>)
      else f)"

definition parse_network :: "flow \<times> bytes \<Rightarrow> flow" where
  "parse_network p =
     (case p of (f, b) \<Rightarrow>
        if fl_dl_type f = htons ETH_TYPE_IP
        then (case pull_ip b of
                None \<Rightarrow> f
              | Some (ip, b') \<Rightarrow>
                  (let f' = f\<lparr>fl_nw_src := load32 12 ip, fl_nw_dst := load32 16 ip,
                              fl_nw_proto := load8 9 ip, fl_nw_tos := load8 1 ip\<rparr>
                   in if \<not> is_fragment (load16 6 ip) then parse_transport b' f' else f'))
        else if fl_dl_type f = htons ETH_TYPE_ARP
        then (case pull_arp b of
                None \<Rightarrow> f
              | Some (arp, _) \<Rightarrow>
                  (let f' = (if load16 2 arp = htons 0x0800 \<and> load8 5 arp = 4
                             then f\<lparr>fl_nw_src := load32 14 arp, fl_nw_dst := load32 24 arp\<rparr> else f)
                   in f'\<lparr>fl_nw_proto := ucast (ntohs (load16 6 arp) AND 0xff)\<rparr>))
        else f)"

definition Flow_of_packet :: "uint16 \<Rightarrow> bytes \<Rightarrow> uint64 \<Rightarrow> flow" where
  "Flow_of_packet in_port buffer cookie =
     (let f0 = Flow_empty\<lparr>fl_in_port := in_port, fl_cookie := cookie, fl_dl_vlan := htons OFP_VLAN_NONE\<rparr>;
          f1 = (case pull_eth buffer of
                  None \<Rightarrow> f0
                | Some (eth, b) \<Rightarrow>
                    (case parse_frame_type eth b of
                       None \<Rightarrow> f0
                     | Some p \<Rightarrow>
                         (case parse_vlan p f0 of
                            (f, b') \<Rightarrow>
                              parse_network
                                (f\<lparr>fl_dl_src := take 6 (drop 6 eth), fl_dl_dst := take 6 eth\<rparr>, b'))))
      in if length buffer < 14 then f1\<lparr>fl_invalid := True\<rparr> else f1)"

section \<open>Printing and hashing\<close>

text \<open>
  \<^verbatim>\<open>to_string\<close> prints into a buffer of 128 characters with \<^verbatim>\<open>snprintf\<close>, which keeps at most 127 of them.
  \<^verbatim>\<open>hash_code\<close> feeds the fields to the MD5 of OpenSSL, a parameter here, and reads eight bytes of the digest.
\<close>

definition hex4 :: "uint16 \<Rightarrow> string" where
  "hex4 w = hex2 (ucast (drop_bit 8 w)) @ hex2 (ucast w)"

definition ip_dotted :: "uint32 \<Rightarrow> string" where
  "ip_dotted a = dec (unat (store32 a ! 0)) @ ''.'' @ dec (unat (store32 a ! 1)) @ ''.'' @
     dec (unat (store32 a ! 2)) @ ''.'' @ dec (unat (store32 a ! 3))"

definition flow_format :: "flow \<Rightarrow> string" where
  "flow_format f =
     ''port'' @ hex4 (ntohs (fl_in_port f)) @ '':vlan'' @ hex4 (ntohs (fl_dl_vlan f)) @
     '':pcp:'' @ dec (unat (fl_dl_vlan_pcp f)) @ '' mac'' @ eth_string (fl_dl_src f) @ ''->'' @
     eth_string (fl_dl_dst f) @ '' proto'' @ hex4 (ntohs (fl_dl_type f)) @ '' ip'' @
     ip_dotted (fl_nw_src f) @ ''->'' @ ip_dotted (fl_nw_dst f) @ '' port'' @
     dec (unat (ntohs (fl_tp_src f))) @ ''->'' @ dec (unat (ntohs (fl_tp_dst f)))"

definition flow_to_string :: "flow \<Rightarrow> string" where
  "flow_to_string f = take 127 (flow_format f)"

definition flow_hash_code :: "(bytes \<Rightarrow> bytes) \<Rightarrow> flow \<Rightarrow> uint64" where
  "flow_hash_code md5 f = load64 0 (md5
     (store16 (fl_in_port f) @ store16 (fl_dl_vlan f) @ store8 (fl_dl_vlan_pcp f) @ fl_dl_src f @ fl_dl_dst f @
      store16 (fl_dl_type f) @ store32 (fl_nw_src f) @ store32 (fl_nw_dst f) @ store8 (fl_nw_proto f) @
      store8 (fl_nw_tos f) @ store16 (fl_tp_src f) @ store16 (fl_tp_dst f)))"

definition wf_flow :: "flow \<Rightarrow> bool" where
  "wf_flow f \<longleftrightarrow> wf_eth (fl_dl_src f) \<and> wf_eth (fl_dl_dst f)"

lemma length_dec8: "length (dec (unat (b :: uint8))) \<le> 3"
  using length_dec [of "unat b" 2] unsigned_less [of b, where 'a = nat] by simp

lemma length_dec16: "length (dec (unat (w :: uint16))) \<le> 5"
  using length_dec [of "unat w" 4] unsigned_less [of w, where 'a = nat] by simp

lemma length_hex [simp]: "length (hex2 b) = 2" "length (hex4 w) = 4" "length (eth_string ea) = 17"
  by (simp_all add: hex2_def hex4_def eth_string_def)

lemma length_ip_dotted: "length (ip_dotted a) \<le> 15"
  using length_dec8 [of "store32 a ! 0"] length_dec8 [of "store32 a ! 1"] length_dec8 [of "store32 a ! 2"]
    length_dec8 [of "store32 a ! 3"]
  by (simp add: ip_dotted_def)

lemma length_flow_format: "length (flow_format f) \<le> 127"
  using length_ip_dotted [of "fl_nw_src f"] length_ip_dotted [of "fl_nw_dst f"]
    length_dec8 [of "fl_dl_vlan_pcp f"] length_dec16 [of "ntohs (fl_tp_src f)"]
    length_dec16 [of "ntohs (fl_tp_dst f)"]
  by (simp add: flow_format_def)

lemma eth_eq_iff: "wf_eth a \<Longrightarrow> wf_eth b \<Longrightarrow> eth_eq a b \<longleftrightarrow> a = b"
  by (auto simp: eth_eq_def wf_eth_def intro: nth_equalityI)

lemma flow_eq_fields:
  assumes "wf_flow l" and "wf_flow r"
  shows "flow_eq l r \<longleftrightarrow> Flow_copy l 0 False = Flow_copy r 0 False"
  using assms by (cases l; cases r) (auto simp: flow_eq_def Flow_copy_def wf_flow_def eth_eq_iff)

section \<open>Parsing what a sender writes\<close>

text \<open>
  A reference encoder for the frames the constructor recognises: an optional 802.1Q tag, IPv4 with options,
  and a TCP, UDP or ICMP header.
\<close>

definition ether_frame :: "ethernetaddr \<Rightarrow> ethernetaddr \<Rightarrow> (uint8 \<times> uint16) option \<Rightarrow> uint16 \<Rightarrow> bytes \<Rightarrow> bytes" where
  "ether_frame dst src tag ty payload =
     dst @ src @
     (case tag of None \<Rightarrow> []
      | Some (pcp, vid) \<Rightarrow> store16 (htons ETH_TYPE_VLAN) @ store16 (htons (push_bit 13 (ucast pcp) OR vid))) @
     store16 (htons ty) @ payload"

definition tagged :: "(uint8 \<times> uint16) option \<Rightarrow> flow \<Rightarrow> flow" where
  "tagged tag f =
     (case tag of None \<Rightarrow> f\<lparr>fl_dl_vlan := htons OFP_VLAN_NONE, fl_dl_vlan_pcp := 0\<rparr>
      | Some (pcp, vid) \<Rightarrow> f\<lparr>fl_dl_vlan := htons vid, fl_dl_vlan_pcp := pcp\<rparr>)"

definition tag_ok :: "(uint8 \<times> uint16) option \<Rightarrow> bool" where
  "tag_ok tag = (case tag of None \<Rightarrow> True | Some (pcp, vid) \<Rightarrow> pcp < 8 \<and> vid < 0x1000)"

lemma bits_beyond:
  fixes w :: "'a::len word"
  assumes "unat w < 2 ^ n" and "bit w i"
  shows "i < n"
proof -
  have "bit (unat w) i" using assms(2) by (simp add: bit_unsigned_iff bit_imp_le_length)
  moreover have "take_bit n (unat w) = unat w" using assms(1) by (simp add: take_bit_nat_eq_self)
  ultimately show ?thesis by (metis bit_take_bit_iff)
qed

lemma bit_mask16:
  "bit (0x0fff :: uint16) i \<longleftrightarrow> i < 12" "bit (0xe000 :: uint16) i \<longleftrightarrow> 13 \<le> i \<and> i < 16"
proof -
  have m: "(0x0fff :: uint16) = Bit_Operations.mask 12" "(0xe000 :: uint16) = push_bit 13 (Bit_Operations.mask 3)"
    by (simp_all add: mask_eq_exp_minus_1)
  show "bit (0x0fff :: uint16) i \<longleftrightarrow> i < 12" "bit (0xe000 :: uint16) i \<longleftrightarrow> 13 \<le> i \<and> i < 16"
    unfolding m by (simp_all only: bit_mask_iff bit_push_bit_iff) auto
qed

lemma tci_vid:
  assumes "vid < 0x1000"
  shows "htons (push_bit 13 (ucast (pcp :: uint8)) OR vid) AND htons 0x0fff = htons vid"
proof -
  have "unat vid < 2 ^ 12" using assms by (simp add: word_less_nat_alt)
  then have v: "bit vid i \<Longrightarrow> i < 12" for i by (rule bits_beyond)
  define m :: uint16 where "m = 0x0fff"
  have m: "bit m i \<longleftrightarrow> i < 12" for i by (simp only: m_def bit_mask16)
  show ?thesis
    unfolding m_def [symmetric]
    by (rule bit_word_eqI) (auto simp: bit_htons bit_simps m dest: v)
qed

lemma tci_pcp:
  assumes "pcp < 8" and "vid < 0x1000"
  shows "ucast (drop_bit 13 ((push_bit 13 (ucast (pcp :: uint8)) OR vid) AND 0xe000 :: uint16)) = pcp"
proof -
  have "unat vid < 2 ^ 12" and "unat pcp < 2 ^ 3" using assms by (simp_all add: word_less_nat_alt)
  then have v: "bit vid i \<Longrightarrow> i < 12" "bit pcp i \<Longrightarrow> i < 3" for i by (blast intro: bits_beyond)+
  define m :: uint16 where "m = 0xe000"
  have m: "bit m i \<longleftrightarrow> 13 \<le> i \<and> i < 16" for i by (simp only: m_def bit_mask16)
  show ?thesis
    unfolding m_def [symmetric]
    by (rule bit_word_eqI) (auto simp: bit_simps m dest: v)
qed

lemma load_take:
  "off + 1 \<le> n \<Longrightarrow> load8 off (take n bs) = load8 off bs"
  "off + 2 \<le> n \<Longrightarrow> load16 off (take n bs) = load16 off bs"
  "off + 4 \<le> n \<Longrightarrow> load32 off (take n bs) = load32 off bs"
  by (simp_all add: load8_def load16_def load32_def drop_take min_def)

lemma pull_tcp_ok:
  "n = TCP_OFFSET (load16 12 b) * 4 \<Longrightarrow> 20 \<le> n \<Longrightarrow> n \<le> length b \<Longrightarrow> pull_tcp b = Some (take n b, drop n b)"
  by (simp add: pull_tcp_def try_at_def try_pull_simps load_take Let_def)

lemma pull_ip_ok:
  "n = IP_IHL (load8 0 b) * 4 \<Longrightarrow> 20 \<le> n \<Longrightarrow> n \<le> length b \<Longrightarrow> pull_ip b = Some (take n b, drop n b)"
  by (simp add: pull_ip_def try_at_def try_pull_simps load_take Let_def)

lemma is_fragment_iff: "is_fragment (htons w) \<longleftrightarrow> w AND 0x3fff \<noteq> 0"
proof -
  have "htons w AND htons (0x2000 OR 0x1fff) = htons (w AND (0x2000 OR 0x1fff))"
    by (rule bit_word_eqI) (simp only: bit_htons bit_and_iff, blast)
  also have "\<dots> = 0 \<longleftrightarrow> w AND 0x3fff = 0"
    using htons_eq_iff [of _ 0] by simp
  finally show ?thesis by (simp only: is_fragment_def)
qed

lemma Flow_of_ether_frame:
  assumes "wf_eth dst" and "wf_eth src" and "tag_ok tag" and "ETH2_CUTOFF \<le> ty" and "ty \<noteq> ETH_TYPE_VLAN"
  shows "Flow_of_packet in_port (ether_frame dst src tag ty payload) cookie =
    parse_network (tagged tag (Flow_empty\<lparr>fl_in_port := in_port, fl_cookie := cookie, fl_dl_type := htons ty,
      fl_dl_src := src, fl_dl_dst := dst\<rparr>), payload)"
proof (cases tag)
  case None
  with assms show ?thesis
    by (simp add: Flow_of_packet_def ether_frame_def pull_eth_def try_pull_simps parse_frame_type_def parse_vlan_def
        byteorder tagged_def Flow_empty_def wf_eth_def ethernetaddr_LEN_def Let_def)
next
  case (Some t)
  obtain pcp vid where t: "t = (pcp, vid)" by fastforce
  with assms Some show ?thesis
    by (simp add: Flow_of_packet_def ether_frame_def pull_eth_def try_pull_simps parse_frame_type_def parse_vlan_def
        pull_vlan_def byteorder tagged_def Flow_empty_def tag_ok_def tci_vid tci_pcp [simplified] wf_eth_def ethernetaddr_LEN_def Let_def)
qed

datatype transport =
    Tcp uint16 uint16 bytes uint16 bytes
  | Udp uint16 uint16 bytes
  | Icmp uint8 uint8 bytes

fun transport_bytes :: "transport \<Rightarrow> bytes" where
  "transport_bytes (Tcp sp dp seq_ack ctl rest) =
     store16 (htons sp) @ store16 (htons dp) @ seq_ack @ store16 (htons ctl) @ rest"
| "transport_bytes (Udp sp dp rest) = store16 (htons sp) @ store16 (htons dp) @ rest"
| "transport_bytes (Icmp ty code rest) = [ty, code] @ rest"

fun transport_ok :: "transport \<Rightarrow> bool" where
  "transport_ok (Tcp sp dp seq_ack ctl rest) \<longleftrightarrow> length seq_ack = 8 \<and>
     5 \<le> unat (drop_bit 12 ctl) \<and> 4 * unat (drop_bit 12 ctl) \<le> 14 + length rest"
| "transport_ok (Udp sp dp rest) \<longleftrightarrow> 4 \<le> length rest"
| "transport_ok (Icmp ty code rest) \<longleftrightarrow> 2 \<le> length rest"

fun transport_proto :: "transport \<Rightarrow> uint8" where
  "transport_proto (Tcp _ _ _ _ _) = 6"
| "transport_proto (Udp _ _ _) = 17"
| "transport_proto (Icmp _ _ _) = 1"

fun transport_ports :: "transport \<Rightarrow> uint16 \<times> uint16" where
  "transport_ports (Tcp sp dp _ _ _) = (sp, dp)"
| "transport_ports (Udp sp dp _) = (sp, dp)"
| "transport_ports (Icmp ty code _) = (ucast ty, ucast code)"

lemma parse_transport_bytes:
  assumes "transport_ok t" and "fl_nw_proto f = transport_proto t"
  shows "parse_transport (transport_bytes t) f =
    f\<lparr>fl_tp_src := htons (fst (transport_ports t)), fl_tp_dst := htons (snd (transport_ports t))\<rparr>"
proof (cases t)
  case (Tcp sp dp seq_ack ctl rest)
  let ?n = "unat (drop_bit 12 ctl)"
  have "load16 12 (transport_bytes t) = htons ctl"
    using assms by (simp add: Tcp byteorder)
  then have "pull_tcp (transport_bytes t) = Some (take (?n * 4) (transport_bytes t), drop (?n * 4) (transport_bytes t))"
    using assms by (intro pull_tcp_ok) (simp_all add: Tcp TCP_OFFSET_def)
  moreover have "load16 0 (take (?n * 4) (transport_bytes t)) = htons sp"
    "load16 2 (take (?n * 4) (transport_bytes t)) = htons dp"
    using assms(1) load_take(2) [of 0 "?n * 4" "transport_bytes t"] load_take(2) [of 2 "?n * 4" "transport_bytes t"]
    by (simp_all add: Tcp byteorder del: take_append)
  moreover have "fl_nw_proto f = proto_TCP" "transport_ports t = (sp, dp)"
    using assms(2) by (simp_all add: Tcp)
  ultimately show ?thesis by (simp add: parse_transport_def)
next
  case (Udp sp dp rest)
  with assms show ?thesis
    by (simp add: parse_transport_def pull_udp_def try_pull_simps byteorder)
next
  case (Icmp ty code rest)
  with assms show ?thesis
    by (simp add: parse_transport_def pull_icmp_def try_pull_simps byteorder)
qed

definition ip_datagram :: "uint8 \<Rightarrow> uint8 \<Rightarrow> bytes \<Rightarrow> uint16 \<Rightarrow> uint8 \<Rightarrow> uint8 \<Rightarrow> bytes \<Rightarrow> uint32 \<Rightarrow> uint32 \<Rightarrow> bytes \<Rightarrow> bytes \<Rightarrow> bytes" where
  "ip_datagram ihl_ver tos len_id frag_off ttl proto csum src dst opts payload =
     [ihl_ver, tos] @ len_id @ store16 (htons frag_off) @ [ttl, proto] @ csum @ store32 (htonl src) @
     store32 (htonl dst) @ opts @ payload"

lemma parse_ip_datagram:
  assumes "fl_dl_type f = htons ETH_TYPE_IP" and "length len_id = 4" and "length csum = 2"
    and "4 * IP_IHL ihl_ver = 20 + length opts"
  shows "parse_network (f, ip_datagram ihl_ver tos len_id frag_off ttl proto csum src dst opts payload) =
    (let f' = f\<lparr>fl_nw_src := htonl src, fl_nw_dst := htonl dst, fl_nw_proto := proto, fl_nw_tos := tos\<rparr>
     in if is_fragment (htons frag_off) then f' else parse_transport payload f')"
proof -
  let ?d = "ip_datagram ihl_ver tos len_id frag_off ttl proto csum src dst opts payload"
  let ?n = "20 + length opts"
  have fields: "load8 0 ?d = ihl_ver" "load8 1 ?d = tos" "load16 6 ?d = htons frag_off" "load8 9 ?d = proto"
    "load32 12 ?d = htonl src" "load32 16 ?d = htonl dst"
    using assms by (simp_all add: ip_datagram_def byteorder)
  have len: "length ?d = 20 + length opts + length payload" and rest: "drop ?n ?d = payload"
    using assms(2,3) by (simp_all add: ip_datagram_def drop_Cons')
  have "pull_ip ?d = Some (take ?n ?d, drop ?n ?d)"
    using assms(4) by (intro pull_ip_ok) (simp_all add: fields(1) len)
  then have "pull_ip ?d = Some (take ?n ?d, payload)" by (simp only: rest)
  with assms(1) show ?thesis
    by (simp add: parse_network_def load_take fields fields(2) [unfolded One_nat_def] Let_def)
qed

lemma parse_ip_transport:
  assumes "fl_dl_type f = htons ETH_TYPE_IP" and "length len_id = 4" and "length csum = 2"
    and "4 * IP_IHL ihl_ver = 20 + length opts" and "transport_ok t"
  shows "parse_network (f, ip_datagram ihl_ver tos len_id frag_off ttl (transport_proto t) csum src dst opts (transport_bytes t)) =
    (let f' = f\<lparr>fl_nw_src := htonl src, fl_nw_dst := htonl dst, fl_nw_proto := transport_proto t, fl_nw_tos := tos\<rparr>
     in if frag_off AND 0x3fff \<noteq> 0 then f'
        else f'\<lparr>fl_tp_src := htons (fst (transport_ports t)), fl_tp_dst := htons (snd (transport_ports t))\<rparr>)"
  unfolding parse_ip_datagram [OF assms(1-4)] is_fragment_iff
  by (simp add: parse_transport_bytes assms(5) Let_def)

text \<open>An ARP packet for IPv4 over Ethernet.\<close>

definition arp_packet :: "uint16 \<Rightarrow> ethernetaddr \<Rightarrow> uint32 \<Rightarrow> ethernetaddr \<Rightarrow> uint32 \<Rightarrow> bytes \<Rightarrow> bytes" where
  "arp_packet op sha spa tha tpa rest =
     store16 (htons 1) @ store16 (htons 0x0800) @ [6, 4] @ store16 (htons op) @ sha @ store32 (htonl spa) @
     tha @ store32 (htonl tpa) @ rest"

lemma parse_arp_packet:
  assumes "fl_dl_type f = htons ETH_TYPE_ARP" and "wf_eth sha" and "wf_eth tha"
  shows "parse_network (f, arp_packet op sha spa tha tpa rest) =
    f\<lparr>fl_nw_src := htonl spa, fl_nw_dst := htonl tpa, fl_nw_proto := ucast (op AND 0xff)\<rparr>"
proof -
  let ?d = "arp_packet op sha spa tha tpa rest"
  have len: "length ?d = 28 + length rest" and fields: "load16 2 ?d = htons 0x0800" "load8 5 ?d = 4"
    "load16 6 ?d = htons op" "load32 14 ?d = htonl spa" "load32 24 ?d = htonl tpa"
    using assms(2,3) by (simp_all add: arp_packet_def wf_eth_def ethernetaddr_LEN_def byteorder)
  then have "pull_arp ?d = Some (take 28 ?d, drop 28 ?d)"
    by (simp add: pull_arp_def try_pull_simps)
  with assms(1) show ?thesis
    by (simp add: parse_network_def load_take fields Let_def)
qed

section \<open>Truncated packets\<close>

lemma Flow_of_short_packet:
  assumes "length b < 14"
  shows "Flow_of_packet in_port b cookie =
    Flow_empty\<lparr>fl_invalid := True, fl_in_port := in_port, fl_cookie := cookie, fl_dl_vlan := htons OFP_VLAN_NONE\<rparr>"
  using assms by (simp add: Flow_of_packet_def pull_eth_def try_pull_simps Flow_empty_def Let_def)

definition transport_missing :: "uint8 \<Rightarrow> bytes \<Rightarrow> bool" where
  "transport_missing proto b \<longleftrightarrow>
     proto = proto_TCP \<and> pull_tcp b = None \<or> proto = proto_UDP \<and> length b < 8 \<or> proto = proto_ICMP \<and> length b < 4"

lemma parse_transport_invalid:
  "fl_invalid (parse_transport b f) \<longleftrightarrow> fl_invalid f \<or> transport_missing (fl_nw_proto f) b"
  by (auto simp: parse_transport_def transport_missing_def pull_udp_def pull_icmp_def try_pull_simps split: option.splits)

lemma parse_transport_missing:
  "transport_missing (fl_nw_proto f) b \<Longrightarrow> parse_transport b f = f\<lparr>fl_invalid := True\<rparr>"
  by (auto simp: parse_transport_def transport_missing_def pull_udp_def pull_icmp_def try_pull_simps)

lemma parse_truncated_ip:
  assumes "fl_dl_type f = htons ETH_TYPE_IP" and "length len_id = 4" and "length csum = 2"
    and "4 * IP_IHL ihl_ver = 20 + length opts" and "frag_off AND 0x3fff = 0" and "transport_missing proto payload"
  shows "parse_network (f, ip_datagram ihl_ver tos len_id frag_off ttl proto csum src dst opts payload) =
    f\<lparr>fl_invalid := True, fl_nw_src := htonl src, fl_nw_dst := htonl dst, fl_nw_proto := proto, fl_nw_tos := tos\<rparr>"
  unfolding parse_ip_datagram [OF assms(1-4)] is_fragment_iff
  using assms(5,6) by (simp add: parse_transport_missing Let_def)

lemma wf_eth_Flow_of_packet: "wf_flow (Flow_of_packet in_port b cookie)"
proof -
  have t: "wf_flow (parse_transport c f) \<longleftrightarrow> wf_flow f" for c f
    by (simp add: parse_transport_def wf_flow_def split: option.split)
  have n: "wf_flow (parse_network (f, c)) \<longleftrightarrow> wf_flow f" for c f
    by (simp add: parse_network_def Let_def t split: option.split) (simp add: wf_flow_def)
  have e: "pull_eth b = Some (eth, c) \<Longrightarrow> wf_eth (take 6 (drop 6 eth)) \<and> wf_eth (take 6 eth)" for eth c
    by (auto simp: pull_eth_def try_pull_simps wf_eth_def ethernetaddr_LEN_def split: if_splits)
  have i: "wf_flow (f\<lparr>fl_invalid := v\<rparr>) \<longleftrightarrow> wf_flow f" for f v by (simp add: wf_flow_def)
  have z: "wf_flow (Flow_empty\<lparr>fl_in_port := p, fl_cookie := q, fl_dl_vlan := r\<rparr>)" for p q r
    by (simp add: wf_flow_def Flow_empty_def wf_eth_def eth_new_def)
  have a: "wf_flow (f\<lparr>fl_dl_src := x, fl_dl_dst := y\<rparr>) \<longleftrightarrow> wf_eth x \<and> wf_eth y" for f x y
    by (simp add: wf_flow_def)
  show ?thesis
    by (auto simp: Flow_of_packet_def Let_def n i z a split: option.split prod.split dest: e)
qed

section \<open>Properties\<close>

lemma tagged_fields [simp]:
  "fl_dl_type (tagged tag f) = fl_dl_type f" "fl_invalid (tagged tag f) = fl_invalid f"
  by (simp_all add: tagged_def split: option.split)

text \<open>
  C16: the flow of an Ethernet frame, with or without an 802.1Q tag, that carries an unfragmented IPv4 datagram, with or
  without options, with a TCP, UDP or ICMP header, has exactly the sender's header fields in network byte order.
\<close>

theorem flow_of_sent_packet:
  assumes "wf_eth dst" and "wf_eth src" and "tag_ok tag" and "length len_id = 4" and "length csum = 2"
    and "4 * IP_IHL ihl_ver = 20 + length opts" and "frag_off AND 0x3fff = 0" and "transport_ok t"
  shows "Flow_of_packet in_port (ether_frame dst src tag ETH_TYPE_IP
      (ip_datagram ihl_ver tos len_id frag_off ttl (transport_proto t) csum ip_src ip_dst opts (transport_bytes t))) cookie =
    \<lparr>fl_invalid = False, fl_in_port = in_port,
     fl_dl_vlan = (case tag of None \<Rightarrow> htons OFP_VLAN_NONE | Some (pcp, vid) \<Rightarrow> htons vid),
     fl_dl_vlan_pcp = (case tag of None \<Rightarrow> 0 | Some (pcp, vid) \<Rightarrow> pcp),
     fl_dl_src = src, fl_dl_dst = dst, fl_dl_type = htons ETH_TYPE_IP, fl_nw_src = htonl ip_src, fl_nw_dst = htonl ip_dst,
     fl_nw_proto = transport_proto t, fl_nw_tos = tos, fl_tp_src = htons (fst (transport_ports t)),
     fl_tp_dst = htons (snd (transport_ports t)), fl_cookie = cookie\<rparr>"
proof -
  have ty: "ETH2_CUTOFF \<le> ETH_TYPE_IP" "ETH_TYPE_IP \<noteq> ETH_TYPE_VLAN" by simp_all
  show ?thesis
    unfolding Flow_of_ether_frame [OF assms(1,2,3) ty]
    by (subst parse_ip_transport) (use assms in \<open>auto simp: tagged_def Flow_empty_def split: option.split\<close>)
qed

theorem flow_of_sent_packet_witness:
  "fl_tp_dst (Flow_of_packet 1 (ether_frame [1, 2, 3, 4, 5, 6] [7, 8, 9, 10, 11, 12] (Some (5, 7)) ETH_TYPE_IP
     (ip_datagram 0x45 0 [0, 0, 0, 0] 0 64 (transport_proto (Tcp 80 8080 (replicate 8 0) 0x5000 (replicate 6 0))) [0, 0]
       0x0A000001 0x0A000002 [] (transport_bytes (Tcp 80 8080 (replicate 8 0) 0x5000 (replicate 6 0))))) 0) = htons 8080"
proof -
  have "wf_eth [1, 2, 3, 4, 5, 6]" "wf_eth [7, 8, 9, 10, 11, 12]" "tag_ok (Some (5, 7))" "length [0 :: uint8, 0, 0, 0] = 4"
    "length [0 :: uint8, 0] = 2" "4 * IP_IHL 0x45 = 20 + length ([] :: bytes)" "0 AND 0x3fff = (0 :: uint16)"
    "transport_ok (Tcp 80 8080 (replicate 8 0) 0x5000 (replicate 6 0))"
    by (simp_all add: wf_eth_def ethernetaddr_LEN_def tag_ok_def IP_IHL_def)
  from flow_of_sent_packet [OF this, of 1 0 64 "0x0A000001" "0x0A000002" 0] show ?thesis by simp
qed



text \<open>
  The flow of an ARP packet for IPv4 has its addresses and the low byte of its operation code.
\<close>

theorem flow_of_arp_packet:
  assumes "wf_eth dst" and "wf_eth src" and "tag_ok tag" and "wf_eth sha" and "wf_eth tha"
    and "f = Flow_of_packet in_port (ether_frame dst src tag ETH_TYPE_ARP (arp_packet op sha spa tha tpa rest)) cookie"
  shows "fl_invalid f = False \<and> fl_nw_src f = htonl spa \<and> fl_nw_dst f = htonl tpa \<and> fl_nw_proto f = ucast (op AND 0xff)"
proof -
  have ty: "ETH2_CUTOFF \<le> ETH_TYPE_ARP" "ETH_TYPE_ARP \<noteq> ETH_TYPE_VLAN" by simp_all
  show ?thesis
    unfolding assms(6) Flow_of_ether_frame [OF assms(1,2,3) ty]
    by (subst (1 2 3 4) parse_arp_packet) (use assms in \<open>simp_all add: Flow_empty_def\<close>)
qed

theorem flow_of_arp_packet_witness:
  "fl_nw_dst (Flow_of_packet 1 (ether_frame [1, 2, 3, 4, 5, 6] [7, 8, 9, 10, 11, 12] None ETH_TYPE_ARP
     (arp_packet 1 [7, 8, 9, 10, 11, 12] 0x0A000001 [0, 0, 0, 0, 0, 0] 0x0A000002 [])) 0) = htonl 0x0A000002"
proof -
  have "wf_eth [1, 2, 3, 4, 5, 6]" "wf_eth [7, 8, 9, 10, 11, 12]" "tag_ok None" "wf_eth [7, 8, 9, 10, 11, 12]"
    "wf_eth [0, 0, 0, 0, 0, 0]"
    by (simp_all add: wf_eth_def ethernetaddr_LEN_def tag_ok_def)
  from flow_of_arp_packet [OF this refl, of 1 1 "0x0A000001" "0x0A000002" "[]" 0] show ?thesis by blast
qed

text \<open>
  The text of a flow always fits the 128 byte buffer of \<^verbatim>\<open>to_string\<close>, so that nothing is cut off, and flows that are
  equal have equal hash codes whatever digest is used.
\<close>

theorem flow_text_and_hash:
  "flow_to_string f = flow_format f \<and> length (flow_format f) \<le> 127 \<and>
   {(l, r). wf_flow l \<and> wf_flow r \<and> flow_eq l r} \<subseteq> {(l, r). flow_hash_code md5 l = flow_hash_code md5 r}"
proof -
  have "flow_hash_code md5 l = flow_hash_code md5 r" if "wf_flow l" "wf_flow r" "flow_eq l r" for l r
    using that by (simp add: flow_eq_def flow_hash_code_def wf_flow_def eth_eq_iff)
  then show ?thesis using length_flow_format [of f] by (auto simp: flow_to_string_def)
qed

lemma load_zeros: "load16 0 (replicate 2 0 @ xs) = 0"
  by (simp add: load16_def numeral_2_eq_2)

text \<open>
  A flow turned into an exact match, packed into a message and read back is the same flow, and every byte of the match
  that is not read back is zero.
\<close>

theorem flow_exact_match_roundtrip:
  assumes "wf_flow f"
  shows "Flow_of_match (of_match_pack (get_exact_match f) @ rest) cookie invalid = Flow_copy f cookie invalid \<and>
    length (of_match_pack (get_exact_match f)) = 40 \<and>
    load32 0 (of_match_pack (get_exact_match f)) = 0 \<and> load8 21 (of_match_pack (get_exact_match f)) = 0 \<and>
    load16 26 (of_match_pack (get_exact_match f)) = 0"
  using assms load_zeros
  by (cases f) (simp add: Flow_of_match_def get_exact_match_def of_match_pack_def of_match_new_def Flow_copy_def wf_flow_def
      wf_eth_def ethernetaddr_LEN_def byteorder)

theorem flow_exact_match_roundtrip_witness:
  "Flow_of_match (of_match_pack (get_exact_match (Flow_empty\<lparr>fl_tp_dst := htons 80\<rparr>)) @ [1]) 7 False =
     Flow_copy (Flow_empty\<lparr>fl_tp_dst := htons 80\<rparr>) 7 False"
proof -
  have "wf_flow (Flow_empty\<lparr>fl_tp_dst := htons 80\<rparr>)"
    by (simp add: wf_flow_def Flow_empty_def wf_eth_def eth_new_def)
  from flow_exact_match_roundtrip [OF this] show ?thesis by blast
qed

end
