(* ===== verification/Nox_Expr.thy ===== *)
theory Nox_Expr
  imports Nox_Classifier Nox_Flow
begin

unbundle bit_operations_syntax

text \<open>
  \<^verbatim>\<open>Packet_expr\<close> of \<^verbatim>\<open>src/src/include/expr.hh\<close> and \<^verbatim>\<open>src/src/lib/expr.cc\<close>: the expressions NOX classifies packets
  with, and the two specialisations of the classifier it has, for flows and for expressions.  The
  interpretations of \<open>classifier_data\<close> at the end carry the classifier's theorems over to both.
\<close>

section \<open>Packet expressions\<close>

record packet_expr =
  pe_ap_src :: uint16
  pe_ap_dst :: uint16
  pe_dl_vlan :: uint16
  pe_dl_vlan_pcp :: uint16
  pe_dl_proto :: uint16
  pe_dl_src :: bytes
  pe_dl_dst :: bytes
  pe_nw_src :: uint32
  pe_nw_dst :: uint32
  pe_tp_src :: uint16
  pe_tp_dst :: uint16
  pe_group_src :: uint32
  pe_group_dst :: uint32
  pe_wildcards :: uint32
  pe_nw_proto :: uint8

abbreviation AP_SRC :: nat where "AP_SRC \<equiv> 0"
abbreviation AP_DST :: nat where "AP_DST \<equiv> 1"
abbreviation DL_VLAN :: nat where "DL_VLAN \<equiv> 2"
abbreviation DL_VLAN_PCP :: nat where "DL_VLAN_PCP \<equiv> 3"
abbreviation DL_TYPE :: nat where "DL_TYPE \<equiv> 4"
abbreviation DL_SRC :: nat where "DL_SRC \<equiv> 5"
abbreviation DL_DST :: nat where "DL_DST \<equiv> 6"
abbreviation NW_SRC :: nat where "NW_SRC \<equiv> 7"
abbreviation NW_DST :: nat where "NW_DST \<equiv> 8"
abbreviation NW_PROTO :: nat where "NW_PROTO \<equiv> 9"
abbreviation TP_SRC :: nat where "TP_SRC \<equiv> 10"
abbreviation TP_DST :: nat where "TP_DST \<equiv> 11"
abbreviation GROUP_SRC :: nat where "GROUP_SRC \<equiv> 12"
abbreviation GROUP_DST :: nat where "GROUP_DST \<equiv> 13"

text \<open>The constructor sets the wildcards only; the other members keep what the memory \<open>e\<close> holds.\<close>

definition Packet_expr_new :: "packet_expr \<Rightarrow> packet_expr" where
  "Packet_expr_new e = e\<lparr>pe_wildcards := - 1\<rparr>"

definition is_wildcard :: "nat \<Rightarrow> packet_expr \<Rightarrow> bool" where
  "is_wildcard field e \<longleftrightarrow> pe_wildcards e AND MASKS field \<noteq> 0"

definition expr_splittable :: "packet_expr \<Rightarrow> uint32 \<Rightarrow> bool" where
  "expr_splittable e path \<longleftrightarrow> NOT path AND NOT (pe_wildcards e) \<noteq> 0"

definition expr_get_field :: "nat \<Rightarrow> packet_expr \<Rightarrow> uint32 option" where
  "expr_get_field field e =
     (if MASKS field AND pe_wildcards e \<noteq> 0 then None
      else if field = AP_SRC then Some (ucast (pe_ap_src e))
      else if field = AP_DST then Some (ucast (pe_ap_dst e))
      else if field = DL_VLAN then Some (ucast (pe_dl_vlan e))
      else if field = DL_VLAN_PCP then Some (ucast (pe_dl_vlan_pcp e))
      else if field = DL_TYPE then Some (ucast (pe_dl_proto e))
      else if field = DL_SRC then Some (load32 2 (pe_dl_src e))
      else if field = DL_DST then Some (load32 2 (pe_dl_dst e))
      else if field = NW_SRC then Some (pe_nw_src e)
      else if field = NW_DST then Some (pe_nw_dst e)
      else if field = NW_PROTO then Some (ucast (pe_nw_proto e))
      else if field = TP_SRC then Some (ucast (pe_tp_src e))
      else if field = TP_DST then Some (ucast (pe_tp_dst e))
      else if field = GROUP_SRC then Some (pe_group_src e)
      else if field = GROUP_DST then Some (pe_group_dst e)
      else None)"

text \<open>\<open>v0\<close> and \<open>v1\<close> are the two words of the value; the memcpy of an address takes the first six bytes.\<close>

definition expr_set_value :: "nat \<Rightarrow> uint32 \<Rightarrow> uint32 \<Rightarrow> packet_expr \<Rightarrow> packet_expr option" where
  "expr_set_value field v0 v1 e =
     (if field = AP_SRC then Some (e\<lparr>pe_ap_src := ucast v0\<rparr>)
      else if field = AP_DST then Some (e\<lparr>pe_ap_dst := ucast v0\<rparr>)
      else if field = DL_VLAN then Some (e\<lparr>pe_dl_vlan := ucast v0\<rparr>)
      else if field = DL_VLAN_PCP then Some (e\<lparr>pe_dl_vlan_pcp := ucast v0\<rparr>)
      else if field = DL_TYPE then Some (e\<lparr>pe_dl_proto := ucast v0\<rparr>)
      else if field = DL_SRC then Some (e\<lparr>pe_dl_src := take 6 (store32 v0 @ store32 v1)\<rparr>)
      else if field = DL_DST then Some (e\<lparr>pe_dl_dst := take 6 (store32 v0 @ store32 v1)\<rparr>)
      else if field = NW_SRC then Some (e\<lparr>pe_nw_src := v0\<rparr>)
      else if field = NW_DST then Some (e\<lparr>pe_nw_dst := v0\<rparr>)
      else if field = NW_PROTO then Some (e\<lparr>pe_nw_proto := ucast v0\<rparr>)
      else if field = TP_SRC then Some (e\<lparr>pe_tp_src := ucast v0\<rparr>)
      else if field = TP_DST then Some (e\<lparr>pe_tp_dst := ucast v0\<rparr>)
      else if field = GROUP_SRC then Some (e\<lparr>pe_group_src := v0\<rparr>)
      else if field = GROUP_DST then Some (e\<lparr>pe_group_dst := v0\<rparr>)
      else None)"

definition expr_set_field :: "nat \<Rightarrow> uint32 \<Rightarrow> uint32 \<Rightarrow> packet_expr \<Rightarrow> packet_expr" where
  "expr_set_field field v0 v1 e =
     (case expr_set_value field v0 v1 e of
        None \<Rightarrow> e
      | Some e' \<Rightarrow> e'\<lparr>pe_wildcards := pe_wildcards e' AND NOT (MASKS field)\<rparr>)"

section \<open>The fields of a flow and of an expression\<close>

definition get_field_flow :: "nat \<Rightarrow> flow \<Rightarrow> uint32 \<Rightarrow> uint32 option option" where
  "get_field_flow field f idx =
     (if idx \<noteq> 0 then Some None
      else if field = AP_SRC then Some (Some (ucast (fl_in_port f)))
      else if field = AP_DST then None
      else if field = DL_VLAN then Some (Some (ucast (fl_dl_vlan f)))
      else if field = DL_VLAN_PCP then Some (Some (ucast (fl_dl_vlan_pcp f)))
      else if field = DL_TYPE then Some (Some (ucast (fl_dl_type f)))
      else if field = DL_SRC then Some (Some (load32 2 (fl_dl_src f)))
      else if field = DL_DST then Some (Some (load32 2 (fl_dl_dst f)))
      else if field = NW_SRC then Some (Some (fl_nw_src f))
      else if field = NW_DST then Some (Some (fl_nw_dst f))
      else if field = NW_PROTO then Some (Some (ucast (fl_nw_proto f)))
      else if field = TP_SRC then Some (Some (ucast (fl_tp_src f)))
      else if field = TP_DST then Some (Some (ucast (fl_tp_dst f)))
      else Some None)"

definition get_field_expr :: "nat \<Rightarrow> packet_expr \<Rightarrow> uint32 \<Rightarrow> uint32 option option" where
  "get_field_expr field e idx = (if idx \<noteq> 0 then Some None else Some (expr_get_field field e))"

section \<open>Matching\<close>

definition matches_flow :: "uint32 \<Rightarrow> packet_expr \<Rightarrow> flow \<Rightarrow> bool option" where
  "matches_flow r e f =
     (if NOT (pe_wildcards e) AND (MASKS AP_DST OR MASKS GROUP_SRC OR MASKS GROUP_DST) \<noteq> 0 then None
      else Some
       ((pe_wildcards e AND MASKS AP_SRC \<noteq> 0 \<or> pe_ap_src e = fl_in_port f) \<and>
        (pe_wildcards e AND MASKS DL_VLAN \<noteq> 0 \<or> pe_dl_vlan e = fl_dl_vlan f) \<and>
        (pe_wildcards e AND MASKS DL_VLAN_PCP \<noteq> 0 \<or> pe_dl_vlan_pcp e = ucast (fl_dl_vlan_pcp f)) \<and>
        (pe_wildcards e AND MASKS DL_TYPE \<noteq> 0 \<or> pe_dl_proto e = fl_dl_type f) \<and>
        (pe_wildcards e AND MASKS DL_SRC \<noteq> 0 \<or> take 6 (pe_dl_src e) = take 6 (fl_dl_src f)) \<and>
        (pe_wildcards e AND MASKS DL_DST \<noteq> 0 \<or> take 6 (pe_dl_dst e) = take 6 (fl_dl_dst f)) \<and>
        (pe_wildcards e AND MASKS NW_SRC \<noteq> 0 \<or> pe_nw_src e = fl_nw_src f) \<and>
        (pe_wildcards e AND MASKS NW_DST \<noteq> 0 \<or> pe_nw_dst e = fl_nw_dst f) \<and>
        (pe_wildcards e AND MASKS NW_PROTO \<noteq> 0 \<or> pe_nw_proto e = fl_nw_proto f) \<and>
        (pe_wildcards e AND MASKS TP_SRC \<noteq> 0 \<or> pe_tp_src e = fl_tp_src f) \<and>
        (pe_wildcards e AND MASKS TP_DST \<noteq> 0 \<or> pe_tp_dst e = fl_tp_dst f)))"

definition matches_expr :: "uint32 \<Rightarrow> packet_expr \<Rightarrow> packet_expr \<Rightarrow> bool option" where
  "matches_expr r e m =
     (if pe_wildcards e OR pe_wildcards m \<noteq> pe_wildcards m then Some False
      else Some
       ((pe_wildcards m AND MASKS AP_SRC \<noteq> 0 \<or> pe_ap_src e = pe_ap_src m) \<and>
        (pe_wildcards m AND MASKS AP_DST \<noteq> 0 \<or> pe_ap_dst e = pe_ap_dst m) \<and>
        (pe_wildcards m AND MASKS DL_VLAN \<noteq> 0 \<or> pe_dl_vlan e = pe_dl_vlan m) \<and>
        (pe_wildcards m AND MASKS DL_VLAN_PCP \<noteq> 0 \<or> pe_dl_vlan_pcp e = pe_dl_vlan_pcp m) \<and>
        (pe_wildcards m AND MASKS DL_TYPE \<noteq> 0 \<or> pe_dl_proto e = pe_dl_proto m) \<and>
        (pe_wildcards m AND MASKS DL_SRC \<noteq> 0 \<or> take 6 (pe_dl_src e) = take 6 (pe_dl_src m)) \<and>
        (pe_wildcards m AND MASKS DL_DST \<noteq> 0 \<or> take 6 (pe_dl_dst e) = take 6 (pe_dl_dst m)) \<and>
        (pe_wildcards m AND MASKS NW_SRC \<noteq> 0 \<or> pe_nw_src e = pe_nw_src m) \<and>
        (pe_wildcards m AND MASKS NW_DST \<noteq> 0 \<or> pe_nw_dst e = pe_nw_dst m) \<and>
        (pe_wildcards m AND MASKS NW_PROTO \<noteq> 0 \<or> pe_nw_proto e = pe_nw_proto m) \<and>
        (pe_wildcards m AND MASKS TP_SRC \<noteq> 0 \<or> pe_tp_src e = pe_tp_src m) \<and>
        (pe_wildcards m AND MASKS TP_DST \<noteq> 0 \<or> pe_tp_dst e = pe_tp_dst m) \<and>
        (pe_wildcards m AND MASKS GROUP_SRC \<noteq> 0 \<or> pe_group_src e = pe_group_src m) \<and>
        (pe_wildcards m AND MASKS GROUP_DST \<noteq> 0 \<or> pe_group_dst e = pe_group_dst m)))"

section \<open>Printing\<close>

definition expr_field_string :: "packet_expr \<Rightarrow> nat \<Rightarrow> string" where
  "expr_field_string e field =
     (if field = AP_SRC then ''apsrc='' @ dec (unat (pe_ap_src e)) @ '',''
      else if field = AP_DST then ''apdst='' @ dec (unat (pe_ap_dst e)) @ '',''
      else if field = DL_VLAN then ''dlvlan='' @ dec (unat (pe_dl_vlan e)) @ '',''
      else if field = DL_VLAN_PCP then ''dlvlanpcp='' @ dec (unat (pe_dl_vlan_pcp e)) @ '',''
      else if field = DL_TYPE then ''dlproto='' @ dec (unat (pe_dl_proto e)) @ '',''
      else if field = DL_SRC then ''dlsrc='' @ eth_string (set_octet (pe_dl_src e))
      else if field = DL_DST then ''dldst='' @ eth_string (set_octet (pe_dl_src e))
      else if field = NW_SRC then ''nwsrc='' @ ip_dotted (ip_of_uint32 (pe_nw_src e))
      else if field = NW_DST then ''nwdst='' @ ip_dotted (ip_of_uint32 (pe_nw_src e))
      else if field = NW_PROTO then ''nwproto='' @ dec (unat (pe_nw_proto e)) @ '',''
      else if field = TP_SRC then ''tpsrc='' @ dec (unat (pe_tp_src e)) @ '',''
      else if field = TP_DST then ''tpdst='' @ dec (unat (pe_tp_dst e)) @ '',''
      else if field = GROUP_SRC then ''groupsrc='' @ dec (unat (pe_group_src e)) @ '',''
      else if field = GROUP_DST then ''groupdst='' @ dec (unat (pe_group_dst e)) @ '',''
      else [])"

text \<open>The loop of \<^verbatim>\<open>to_string\<close>, which starts at 1 and doubles its counter, with the output so far.\<close>

function expr_string_loop :: "packet_expr \<Rightarrow> nat \<Rightarrow> string \<Rightarrow> string" where
  "expr_string_loop e i out =
     (if i = 0 \<or> GROUP_DST < i then out
      else expr_string_loop e (2 * i) (if MASKS i AND pe_wildcards e = 0 then out @ expr_field_string e i else out))"
  by pat_completeness auto

termination by (relation "measure (\<lambda>(e, i, out). 14 - i)") auto

declare expr_string_loop.simps [simp del]

definition expr_to_string :: "packet_expr \<Rightarrow> string" where
  "expr_to_string e = expr_string_loop e 1 ''<expr:'' @ ''>''"

section \<open>Laws of the fields\<close>

lemma MASKS_and: "w AND MASKS f \<noteq> 0 \<longleftrightarrow> bit w f" "MASKS f AND w \<noteq> 0 \<longleftrightarrow> bit w f" for w :: uint32
  by (simp_all add: MASKS_def push_bit_of_1 and_exp_eq_0_iff_not_bit and.commute [of "2 ^ f"])

lemma MASKS_and_0: "w AND MASKS f = 0 \<longleftrightarrow> \<not> bit w f" "MASKS f AND w = 0 \<longleftrightarrow> \<not> bit w f" for w :: uint32
  using MASKS_and(1) [of w f] MASKS_and(2) [of f w] by blast+

lemma bit_MASKS: "bit (MASKS f) i \<longleftrightarrow> i = f \<and> f < 32"
  by (auto simp: MASKS_def bit_simps)

lemma is_wildcard_bit: "is_wildcard field e \<longleftrightarrow> bit (pe_wildcards e) field"
  by (simp only: is_wildcard_def MASKS_and)

lemma expr_field_cases:
  assumes "field \<le> GROUP_DST"
  obtains "field = AP_SRC" | "field = AP_DST" | "field = DL_VLAN" | "field = DL_VLAN_PCP" | "field = DL_TYPE"
    | "field = DL_SRC" | "field = DL_DST" | "field = NW_SRC" | "field = NW_DST" | "field = NW_PROTO"
    | "field = TP_SRC" | "field = TP_DST" | "field = GROUP_SRC" | "field = GROUP_DST"
  using assms by (auto simp: le_Suc_eq numeral_eq_Suc)

lemma expr_get_field_None: "field \<le> GROUP_DST \<Longrightarrow> expr_get_field field e = None \<longleftrightarrow> is_wildcard field e"
  unfolding expr_get_field_def MASKS_and is_wildcard_bit by (erule expr_field_cases) simp_all

lemma load32_take6: "take 6 a = take 6 b \<Longrightarrow> load32 2 a = load32 2 b"
  using load_take(3) [of 2 6 a] load_take(3) [of 2 6 b] by simp

lemma splittable_iff:
  "expr_splittable e path \<longleftrightarrow> (\<exists>i < 32. \<not> bit path i \<and> \<not> is_wildcard i e)"
proof -
  have "NOT path AND NOT (pe_wildcards e) = 0 \<longleftrightarrow> (\<forall>i < 32. bit path i \<or> bit (pe_wildcards e) i)"
    by (auto simp: bit_eq_iff [where 'a = "32 word"] bit_simps)
  then show ?thesis by (auto simp: expr_splittable_def is_wildcard_bit)
qed

text \<open>What a field holds after it has been set: the value truncated to the width of the field.\<close>

definition field_value :: "nat \<Rightarrow> uint32 \<Rightarrow> uint32 \<Rightarrow> uint32" where
  "field_value field v0 v1 =
     (if field \<in> {NW_SRC, NW_DST, GROUP_SRC, GROUP_DST} then v0
      else if field = NW_PROTO then take_bit 8 v0
      else if field \<in> {DL_SRC, DL_DST} then drop_bit 16 v0 OR push_bit 16 v1
      else take_bit 16 v0)"

lemma ucast_ucast_take: "ucast (ucast v :: uint16) = take_bit 16 v" "ucast (ucast v :: uint8) = take_bit 8 v" for v :: uint32
  by (rule bit_word_eqI; simp add: bit_simps)+

lemma load32_octets: "load32 2 (take 6 (store32 v0 @ store32 v1)) = drop_bit 16 v0 OR push_bit 16 v1"
proof (rule bit_word_eqI)
  fix i :: nat
  assume "i < LENGTH(32)"
  then have i: "i < 32" by simp
  have len: "length (take 4 (drop 2 (take 6 (store32 v0 @ store32 v1)))) = 4" by simp
  have "take 4 (drop 2 (take 6 (store32 v0 @ store32 v1))) = store_le 4 (drop_bit 16 v0 OR push_bit 16 v1)"
  proof (rule nth_equalityI)
    fix j
    assume "j < length (take 4 (drop 2 (take 6 (store32 v0 @ store32 v1))))"
    then have "j < 4" by simp
    then consider "j = 0" | "j = 1" | "j = 2" | "j = 3" by linarith
    then show "take 4 (drop 2 (take 6 (store32 v0 @ store32 v1))) ! j = store_le 4 (drop_bit 16 v0 OR push_bit 16 v1) ! j"
      by cases (auto simp: store_le_def upt_rec nth_append bit_simps intro!: bit_word_eqI)
  qed simp
  then show "bit (load32 2 (take 6 (store32 v0 @ store32 v1))) i = bit (drop_bit 16 v0 OR push_bit 16 v1) i"
    by (simp only: load32_def) (simp add: load_le_store_le)
qed

lemma set_field_value:
  "field \<le> GROUP_DST \<Longrightarrow> expr_get_field field (expr_set_field field v0 v1 e) = Some (field_value field v0 v1)"
  unfolding expr_get_field_def expr_set_field_def expr_set_value_def field_value_def MASKS_and
  by (erule expr_field_cases) (simp_all add: bit_simps bit_MASKS ucast_ucast_take load32_octets [simplified])

lemma set_field_other:
  "field \<le> GROUP_DST \<Longrightarrow> g \<noteq> field \<Longrightarrow> expr_get_field g (expr_set_field field v0 v1 e) = expr_get_field g e"
  unfolding expr_get_field_def expr_set_field_def expr_set_value_def MASKS_and
  by (erule expr_field_cases) (simp_all add: bit_simps bit_MASKS)

section \<open>The classifier over flows\<close>

definition packet_expr_ops :: "packet_expr expr_ops" where
  "packet_expr_ops = \<lparr>NUM_FIELDS = 13, LEAF_THRESHOLD = 1, splittable = expr_splittable, get_field = expr_get_field\<rparr>"

definition flow_data :: "(packet_expr, flow) data_ops" where
  "flow_data = \<lparr>data_get_field = get_field_flow, data_matches = matches_flow\<rparr>"

definition expr_data :: "(packet_expr, packet_expr) data_ops" where
  "expr_data = \<lparr>data_get_field = get_field_expr, data_matches = matches_expr\<rparr>"

text \<open>The expressions \<^verbatim>\<open>matches\<close> accepts for a flow, by its assertion.\<close>

definition flow_expr :: "packet_expr \<Rightarrow> bool" where
  "flow_expr e \<longleftrightarrow> is_wildcard AP_DST e \<and> is_wildcard GROUP_SRC e \<and> is_wildcard GROUP_DST e"

lemma field_loop_single:
  "g 0 = Some (Some v) \<Longrightarrow> g 1 = Some None \<Longrightarrow> field_loop g 0 = Some [v]"
  "g 0 = Some None \<Longrightarrow> field_loop g 0 = Some []"
  "g 0 = None \<Longrightarrow> field_loop g 0 = None"
  by (subst field_loop.simps, simp, (subst field_loop.simps, simp)?)+

lemma field_loop_flow:
  "field_loop (get_field_flow f d) 0 = map_option (\<lambda>x. case x of None \<Rightarrow> [] | Some v \<Rightarrow> [v]) (get_field_flow f d 0)"
  by (cases "get_field_flow f d 0"; cases "the (get_field_flow f d 0)")
    (auto intro!: field_loop_single simp: get_field_flow_def [of f d 1])

lemma field_loop_expr:
  "field_loop (get_field_expr f d) 0 = Some (case expr_get_field f d of None \<Rightarrow> [] | Some v \<Rightarrow> [v])"
  by (cases "expr_get_field f d") (auto intro!: field_loop_single simp: get_field_expr_def)

lemma flow_expr_assertion:
  "flow_expr e \<longleftrightarrow> NOT (pe_wildcards e) AND (MASKS AP_DST OR MASKS GROUP_SRC OR MASKS GROUP_DST) = 0"
proof -
  have key: "(\<forall>i < 32. P i \<or> i \<notin> {a, b, c}) \<longleftrightarrow> P a \<and> P b \<and> P c"
    if "a < 32" "b < 32" "c < 32" for P and a b c :: nat
    using that by blast
  have "NOT (pe_wildcards e) AND (MASKS AP_DST OR MASKS GROUP_SRC OR MASKS GROUP_DST) = 0 \<longleftrightarrow>
    (\<forall>i < 32. bit (pe_wildcards e) i \<or> i \<notin> {AP_DST, GROUP_SRC, GROUP_DST})"
    by (auto simp: bit_eq_iff [where 'a = "32 word"] bit_simps bit_MASKS)
  also have "\<dots> \<longleftrightarrow> flow_expr e"
    unfolding flow_expr_def is_wildcard_bit by (rule key) simp_all
  finally show ?thesis by simp
qed

lemma matches_flow_Some: "matches_flow r e f \<noteq> None \<longleftrightarrow> flow_expr e"
  by (simp add: matches_flow_def flow_expr_assertion)

text \<open>A match agrees with the data on every field that both have.\<close>

lemma if_SomeD: "(if a then None else Some b) = Some True \<Longrightarrow> b" "(if a then Some False else Some b) = Some True \<Longrightarrow> b"
  by (auto split: if_splits)

lemma matches_flow_agree:
  assumes "matches_flow r e d = Some True"
  shows "\<not> bit (pe_wildcards e) AP_SRC \<Longrightarrow> pe_ap_src e = fl_in_port d"
    and "\<not> bit (pe_wildcards e) DL_VLAN \<Longrightarrow> pe_dl_vlan e = fl_dl_vlan d"
    and "\<not> bit (pe_wildcards e) DL_VLAN_PCP \<Longrightarrow> pe_dl_vlan_pcp e = ucast (fl_dl_vlan_pcp d)"
    and "\<not> bit (pe_wildcards e) DL_TYPE \<Longrightarrow> pe_dl_proto e = fl_dl_type d"
    and "\<not> bit (pe_wildcards e) DL_SRC \<Longrightarrow> load32 2 (pe_dl_src e) = load32 2 (fl_dl_src d)"
    and "\<not> bit (pe_wildcards e) DL_DST \<Longrightarrow> load32 2 (pe_dl_dst e) = load32 2 (fl_dl_dst d)"
    and "\<not> bit (pe_wildcards e) NW_SRC \<Longrightarrow> pe_nw_src e = fl_nw_src d"
    and "\<not> bit (pe_wildcards e) NW_DST \<Longrightarrow> pe_nw_dst e = fl_nw_dst d"
    and "\<not> bit (pe_wildcards e) NW_PROTO \<Longrightarrow> pe_nw_proto e = fl_nw_proto d"
    and "\<not> bit (pe_wildcards e) TP_SRC \<Longrightarrow> pe_tp_src e = fl_tp_src d"
    and "\<not> bit (pe_wildcards e) TP_DST \<Longrightarrow> pe_tp_dst e = fl_tp_dst d"
  using assms unfolding matches_flow_def MASKS_and
  by (blast dest: if_SomeD intro: load32_take6)+

lemma ucast_pcp: "ucast (ucast (v :: uint8) :: uint16) = (ucast v :: uint32)"
  by (rule bit_word_eqI) (auto simp: bit_simps dest: bit_imp_le_length)

lemma matches_flow_field:
  assumes "matches_flow r e d = Some True" and "expr_get_field f e = Some v" and "get_field_flow f d 0 = Some (Some w)"
  shows "v = w"
proof -
  have "f \<le> GROUP_DST" using assms(2) by (auto simp: expr_get_field_def split: if_splits)
  moreover have "\<not> bit (pe_wildcards e) f"
    using assms(2) by (auto simp: expr_get_field_def MASKS_and_0 split: if_splits)
  ultimately show ?thesis
    using assms(2,3)
    by (elim expr_field_cases)
      (simp_all add: expr_get_field_def MASKS_and_0 get_field_flow_def matches_flow_agree [OF assms(1)] ucast_pcp
        del: One_nat_def)
qed

lemma matches_expr_agree:
  assumes "matches_expr r e d = Some True"
  shows "\<not> bit (pe_wildcards d) AP_SRC \<Longrightarrow> pe_ap_src e = pe_ap_src d"
    and "\<not> bit (pe_wildcards d) AP_DST \<Longrightarrow> pe_ap_dst e = pe_ap_dst d"
    and "\<not> bit (pe_wildcards d) DL_VLAN \<Longrightarrow> pe_dl_vlan e = pe_dl_vlan d"
    and "\<not> bit (pe_wildcards d) DL_VLAN_PCP \<Longrightarrow> pe_dl_vlan_pcp e = pe_dl_vlan_pcp d"
    and "\<not> bit (pe_wildcards d) DL_TYPE \<Longrightarrow> pe_dl_proto e = pe_dl_proto d"
    and "\<not> bit (pe_wildcards d) DL_SRC \<Longrightarrow> load32 2 (pe_dl_src e) = load32 2 (pe_dl_src d)"
    and "\<not> bit (pe_wildcards d) DL_DST \<Longrightarrow> load32 2 (pe_dl_dst e) = load32 2 (pe_dl_dst d)"
    and "\<not> bit (pe_wildcards d) NW_SRC \<Longrightarrow> pe_nw_src e = pe_nw_src d"
    and "\<not> bit (pe_wildcards d) NW_DST \<Longrightarrow> pe_nw_dst e = pe_nw_dst d"
    and "\<not> bit (pe_wildcards d) NW_PROTO \<Longrightarrow> pe_nw_proto e = pe_nw_proto d"
    and "\<not> bit (pe_wildcards d) TP_SRC \<Longrightarrow> pe_tp_src e = pe_tp_src d"
    and "\<not> bit (pe_wildcards d) TP_DST \<Longrightarrow> pe_tp_dst e = pe_tp_dst d"
    and "\<not> bit (pe_wildcards d) GROUP_SRC \<Longrightarrow> pe_group_src e = pe_group_src d"
    and "\<not> bit (pe_wildcards d) GROUP_DST \<Longrightarrow> pe_group_dst e = pe_group_dst d"
  using assms unfolding matches_expr_def MASKS_and
  by (blast dest: if_SomeD intro: load32_take6)+

lemma matches_expr_field:
  assumes "matches_expr r e d = Some True" and "expr_get_field f e = Some v" and "expr_get_field f d = Some w"
  shows "v = w"
proof -
  have "f \<le> GROUP_DST" using assms(2) by (auto simp: expr_get_field_def split: if_splits)
  moreover have "\<not> bit (pe_wildcards d) f" "\<not> bit (pe_wildcards e) f"
    using assms(2,3) by (auto simp: expr_get_field_def MASKS_and_0 split: if_splits)
  ultimately show ?thesis
    using assms(2,3)
    by (elim expr_field_cases)
      (simp_all add: expr_get_field_def MASKS_and_0 matches_expr_agree [OF assms(1)] del: One_nat_def)
qed

interpretation flows: classifier_data packet_expr_ops flow_data flow_expr "\<lambda>f. f \<noteq> AP_DST"
proof
  show "\<exists>vs. field_loop (data_get_field flow_data f d) 0 = Some vs \<and> distinct vs" if "f \<noteq> AP_DST" for f d
    using that by (auto simp: flow_data_def field_loop_flow get_field_flow_def split: option.split)
  show "data_matches flow_data r e d \<noteq> None" if "flow_expr e" for r e d
    using that matches_flow_Some by (simp add: flow_data_def)
  show "v \<in> set vs" if "data_matches flow_data r e d = Some True" "get_field packet_expr_ops f e = Some v"
    "field_loop (data_get_field flow_data f d) 0 = Some vs" "vs \<noteq> []" for r e d f v vs
    using that matches_flow_field [of r e d f v]
    by (auto simp: flow_data_def packet_expr_ops_def field_loop_flow split: option.splits)
  show "f \<noteq> AP_DST" if "flow_expr e" "get_field packet_expr_ops f e \<noteq> None" for e f
    using that expr_get_field_None [of AP_DST e] by (auto simp: packet_expr_ops_def flow_expr_def)
  show "0 < LEAF_THRESHOLD packet_expr_ops" by (simp add: packet_expr_ops_def)
qed

interpretation exprs: classifier_data packet_expr_ops expr_data "\<lambda>_. True" "\<lambda>_. True"
proof
  show "\<exists>vs. field_loop (data_get_field expr_data f d) 0 = Some vs \<and> distinct vs" for f d
    by (auto simp: expr_data_def field_loop_expr split: option.split)
  show "data_matches expr_data r e d \<noteq> None" for r e d
    by (simp add: expr_data_def matches_expr_def del: not_None_eq)
  show "v \<in> set vs" if "data_matches expr_data r e d = Some True" "get_field packet_expr_ops f e = Some v"
    "field_loop (data_get_field expr_data f d) 0 = Some vs" "vs \<noteq> []" for r e d f v vs
    using that matches_expr_field [of r e d f v]
    by (auto simp: expr_data_def packet_expr_ops_def field_loop_expr split: option.splits)
  show "0 < LEAF_THRESHOLD packet_expr_ops" by (simp add: packet_expr_ops_def)
qed simp_all

section \<open>What an expression's text shows\<close>

lemma expr_to_string_fields:
  "expr_to_string e = ''<expr:'' @ concat (map (\<lambda>i. if is_wildcard i e then [] else expr_field_string e i) [1, 2, 4, 8]) @ ''>''"
  by (simp add: expr_to_string_def expr_string_loop.simps MASKS_and_0 is_wildcard_bit)

section \<open>Properties\<close>

text \<open>Two expressions: every packet, and every TCP packet.\<close>

definition blank_expr :: packet_expr where
  "blank_expr =
     \<lparr>pe_ap_src = 0, pe_ap_dst = 0, pe_dl_vlan = 0, pe_dl_vlan_pcp = 0, pe_dl_proto = 0, pe_dl_src = replicate 6 0,
      pe_dl_dst = replicate 6 0, pe_nw_src = 0, pe_nw_dst = 0, pe_tp_src = 0, pe_tp_dst = 0, pe_group_src = 0,
      pe_group_dst = 0, pe_wildcards = 0, pe_nw_proto = 0\<rparr>"

definition any_expr :: packet_expr where
  "any_expr = Packet_expr_new blank_expr"

definition tcp_expr :: packet_expr where
  "tcp_expr = expr_set_field NW_PROTO 6 0 any_expr"

lemma flow_expr_small: "flow_expr any_expr" "flow_expr tcp_expr"
  by (simp_all add: flow_expr_def is_wildcard_bit any_expr_def tcp_expr_def Packet_expr_new_def expr_set_field_def
      expr_set_value_def bit_simps bit_MASKS)


lemma wildcards_subset: "a OR b = b \<Longrightarrow> bit a i \<Longrightarrow> bit b i" for a b :: uint32
  by (metis bit_or_iff)

text \<open>
  C14: when an expression is covered by another (the test deletion by expression uses), every flow the first
  matches is matched by the second, and the assertion on flow expressions carries over.
\<close>

theorem covered_matches:
  assumes "matches_expr r e m = Some True" and "matches_flow r e f = Some True"
  shows "matches_flow r m f = Some True"
proof -
  from assms(1) have w: "pe_wildcards e OR pe_wildcards m = pe_wildcards m"
    unfolding matches_expr_def by (metis option.inject)
  from assms(2) have "flow_expr e" using matches_flow_Some by fastforce
  then have "flow_expr m" using wildcards_subset [OF w] by (auto simp: flow_expr_def is_wildcard_bit)
  moreover note assms(1) [unfolded matches_expr_def MASKS_and, THEN if_SomeD(2)]
    assms(2) [unfolded matches_flow_def MASKS_and, THEN if_SomeD(1)] wildcards_subset [OF w]
  ultimately show ?thesis
    unfolding matches_flow_def MASKS_and flow_expr_assertion by (simp, metis)
qed

theorem covered_matches_witness:
  "matches_expr 1 tcp_expr any_expr = Some True \<and> matches_flow 1 tcp_expr (Flow_empty\<lparr>fl_nw_proto := 6\<rparr>) = Some True \<and>
   matches_flow 1 any_expr (Flow_empty\<lparr>fl_nw_proto := 6\<rparr>) = Some True"
proof -
  have e: "matches_expr 1 tcp_expr any_expr = Some True" by code_simp
  have f: "matches_flow 1 tcp_expr (Flow_empty\<lparr>fl_nw_proto := 6\<rparr>) = Some True" by code_simp
  from e f covered_matches [OF e f] show ?thesis by blast
qed

text \<open>
  Setting a field makes it readable with the value cut to the field's width, and changes no other field.
\<close>

theorem set_field_get_field:
  assumes "field \<le> GROUP_DST"
  shows "expr_get_field g (expr_set_field field v0 v1 e) =
    (if g = field then Some (field_value field v0 v1) else expr_get_field g e)"
  using assms by (simp add: set_field_value set_field_other)

theorem set_field_get_field_witness:
  "TP_DST \<le> GROUP_DST \<and> expr_get_field TP_DST (expr_set_field TP_DST 0x10050 0 any_expr) = Some 0x50 \<and>
   expr_get_field TP_SRC (expr_set_field TP_DST 0x10050 0 any_expr) = None"
proof -
  have d: "TP_DST \<le> GROUP_DST" by simp
  have v: "field_value TP_DST 0x10050 0 = 0x50" "expr_get_field TP_SRC any_expr = None" by code_simp+
  show ?thesis
    using d set_field_get_field [OF d, of TP_DST "0x10050" 0 any_expr] set_field_get_field [OF d, of TP_SRC "0x10050" 0 any_expr]
    by (simp add: v)
qed

text \<open>
  The text of an expression can only show the fields 1, 2, 4 and 8, because the loop over the fields doubles its
  counter, and what it prints for the network destination is the source address.
\<close>

theorem expr_text_partial:
  "expr_to_string e = ''<expr:'' @
     (if is_wildcard AP_DST e then [] else ''apdst='' @ dec (unat (pe_ap_dst e)) @ '','') @
     (if is_wildcard DL_VLAN e then [] else ''dlvlan='' @ dec (unat (pe_dl_vlan e)) @ '','') @
     (if is_wildcard DL_TYPE e then [] else ''dlproto='' @ dec (unat (pe_dl_proto e)) @ '','') @
     (if is_wildcard NW_DST e then [] else ''nwdst='' @ ip_dotted (htonl (pe_nw_src e))) @ ''>''"
  by (simp add: expr_to_string_fields expr_field_string_def ip_of_uint32_def)

end
