(* ===== verification/Nox_Ofpack_Action.thy ===== *)
theory Nox_Ofpack_Action
  imports Nox_Ofpack
begin

text \<open>The structures of OpenFlow actions.  See \<^verbatim>\<open>src/src/lib/openflow-pack-raw.cc\<close>.\<close>

record of_action_header =
  action_header_type :: uint16
  action_header_len :: uint16
  action_header_pad :: bytes

definition of_action_header_new :: of_action_header where
  "of_action_header_new =
     \<lparr>action_header_type = 0, action_header_len = 0, action_header_pad = replicate 4 0\<rparr>"

definition of_action_header_pack :: "of_action_header \<Rightarrow> bytes" where
  "of_action_header_pack x =
     store16 (htons (action_header_type x)) @ store16 (htons (action_header_len x)) @
     take 4 (action_header_pad x)"

definition of_action_header_unpack :: "bytes \<Rightarrow> of_action_header option" where
  "of_action_header_unpack mem =
     (if length mem < 8 then None
      else Some \<lparr>action_header_type = ntohs (load16 0 mem), action_header_len = ntohs (load16 2 mem),
            action_header_pad = take 4 (drop 4 mem)\<rparr>)"

definition of_action_header_eq :: "of_action_header \<Rightarrow> of_action_header \<Rightarrow> bool" where
  "of_action_header_eq x y \<longleftrightarrow>
     action_header_type x = action_header_type y \<and> action_header_len x = action_header_len y \<and>
     take 4 (action_header_pad x) = take 4 (action_header_pad y)"

definition of_action_header_wf :: "of_action_header \<Rightarrow> bool" where
  "of_action_header_wf x \<longleftrightarrow> length (action_header_pad x) = 4"

interpretation action_header: wire_bijection of_action_header_pack of_action_header_unpack of_action_header_eq 8 of_action_header_wf
proof
  show "length (of_action_header_pack x) = 8" if "of_action_header_wf x" for x
    using that by (simp add: of_action_header_pack_def of_action_header_wf_def codec_length)
  show "of_action_header_unpack (of_action_header_pack x @ rest) = Some x" if "of_action_header_wf x" for x rest
    using that by (simp add: of_action_header_pack_def of_action_header_unpack_def of_action_header_wf_def codec_length codec_unpack byteorder)
  show "of_action_header_unpack mem = None" if "length mem < 8" for mem
    using that by (simp add: of_action_header_unpack_def)
  show "of_action_header_eq x y \<longleftrightarrow> x = y" if "of_action_header_wf x" "of_action_header_wf y" for x y
    using that by (cases x; cases y) (simp add: of_action_header_eq_def of_action_header_wf_def codec_eq)
  show "\<exists>x. of_action_header_unpack mem = Some x \<and> of_action_header_wf x \<and> of_action_header_pack x = take 8 mem" if len: "8 \<le> length mem" for mem
    using len by (simp add: of_action_header_pack_def of_action_header_unpack_def of_action_header_wf_def codec_chunks)
qed

lemmas action_header_codec [codec_length, codec_unpack, codec_eq] = action_header.length_pack action_header.unpack_pack action_header.eq_iff

record of_action_output =
  action_output_type :: uint16
  action_output_len :: uint16
  action_output_port :: uint16
  action_output_max_len :: uint16

definition of_action_output_new :: of_action_output where
  "of_action_output_new =
     \<lparr>action_output_type = 0, action_output_len = 0, action_output_port = 0, action_output_max_len = 0\<rparr>"

definition of_action_output_pack :: "of_action_output \<Rightarrow> bytes" where
  "of_action_output_pack x =
     store16 (htons (action_output_type x)) @ store16 (htons (action_output_len x)) @
     store16 (htons (action_output_port x)) @ store16 (htons (action_output_max_len x))"

definition of_action_output_unpack :: "bytes \<Rightarrow> of_action_output option" where
  "of_action_output_unpack mem =
     (if length mem < 8 then None
      else Some \<lparr>action_output_type = ntohs (load16 0 mem), action_output_len = ntohs (load16 2 mem),
            action_output_port = ntohs (load16 4 mem), action_output_max_len = ntohs (load16 6 mem)\<rparr>)"

definition of_action_output_eq :: "of_action_output \<Rightarrow> of_action_output \<Rightarrow> bool" where
  "of_action_output_eq x y \<longleftrightarrow>
     action_output_type x = action_output_type y \<and> action_output_len x = action_output_len y \<and>
     action_output_port x = action_output_port y \<and> action_output_max_len x = action_output_max_len y"

definition of_action_output_wf :: "of_action_output \<Rightarrow> bool" where
  "of_action_output_wf x \<longleftrightarrow> True"

interpretation action_output: wire_bijection of_action_output_pack of_action_output_unpack of_action_output_eq 8 of_action_output_wf
proof
  show "length (of_action_output_pack x) = 8" if "of_action_output_wf x" for x
    using that by (simp add: of_action_output_pack_def of_action_output_wf_def codec_length)
  show "of_action_output_unpack (of_action_output_pack x @ rest) = Some x" if "of_action_output_wf x" for x rest
    using that by (simp add: of_action_output_pack_def of_action_output_unpack_def of_action_output_wf_def codec_length codec_unpack byteorder)
  show "of_action_output_unpack mem = None" if "length mem < 8" for mem
    using that by (simp add: of_action_output_unpack_def)
  show "of_action_output_eq x y \<longleftrightarrow> x = y" if "of_action_output_wf x" "of_action_output_wf y" for x y
    using that by (cases x; cases y) (simp add: of_action_output_eq_def of_action_output_wf_def codec_eq)
  show "\<exists>x. of_action_output_unpack mem = Some x \<and> of_action_output_wf x \<and> of_action_output_pack x = take 8 mem" if len: "8 \<le> length mem" for mem
    using len by (simp add: of_action_output_pack_def of_action_output_unpack_def of_action_output_wf_def codec_chunks)
qed

lemmas action_output_codec [codec_length, codec_unpack, codec_eq] = action_output.length_pack action_output.unpack_pack action_output.eq_iff

record of_action_vlan_vid =
  action_vlan_vid_type :: uint16
  action_vlan_vid_len :: uint16
  action_vlan_vid_vlan_vid :: uint16
  action_vlan_vid_pad :: bytes

definition of_action_vlan_vid_new :: of_action_vlan_vid where
  "of_action_vlan_vid_new =
     \<lparr>action_vlan_vid_type = 1, action_vlan_vid_len = 0, action_vlan_vid_vlan_vid = 0,
      action_vlan_vid_pad = replicate 2 0\<rparr>"

definition of_action_vlan_vid_pack :: "of_action_vlan_vid \<Rightarrow> bytes" where
  "of_action_vlan_vid_pack x =
     store16 (htons (action_vlan_vid_type x)) @ store16 (htons (action_vlan_vid_len x)) @
     store16 (htons (action_vlan_vid_vlan_vid x)) @ take 2 (action_vlan_vid_pad x)"

definition of_action_vlan_vid_unpack :: "bytes \<Rightarrow> of_action_vlan_vid option" where
  "of_action_vlan_vid_unpack mem =
     (if length mem < 8 then None
      else Some \<lparr>action_vlan_vid_type = ntohs (load16 0 mem), action_vlan_vid_len = ntohs (load16 2 mem),
            action_vlan_vid_vlan_vid = ntohs (load16 4 mem), action_vlan_vid_pad = take 2 (drop 6 mem)\<rparr>)"

definition of_action_vlan_vid_eq :: "of_action_vlan_vid \<Rightarrow> of_action_vlan_vid \<Rightarrow> bool" where
  "of_action_vlan_vid_eq x y \<longleftrightarrow>
     action_vlan_vid_type x = action_vlan_vid_type y \<and>
     action_vlan_vid_len x = action_vlan_vid_len y \<and>
     action_vlan_vid_vlan_vid x = action_vlan_vid_vlan_vid y \<and>
     take 2 (action_vlan_vid_pad x) = take 2 (action_vlan_vid_pad y)"

definition of_action_vlan_vid_wf :: "of_action_vlan_vid \<Rightarrow> bool" where
  "of_action_vlan_vid_wf x \<longleftrightarrow> length (action_vlan_vid_pad x) = 2"

interpretation action_vlan_vid: wire_bijection of_action_vlan_vid_pack of_action_vlan_vid_unpack of_action_vlan_vid_eq 8 of_action_vlan_vid_wf
proof
  show "length (of_action_vlan_vid_pack x) = 8" if "of_action_vlan_vid_wf x" for x
    using that by (simp add: of_action_vlan_vid_pack_def of_action_vlan_vid_wf_def codec_length)
  show "of_action_vlan_vid_unpack (of_action_vlan_vid_pack x @ rest) = Some x" if "of_action_vlan_vid_wf x" for x rest
    using that by (simp add: of_action_vlan_vid_pack_def of_action_vlan_vid_unpack_def of_action_vlan_vid_wf_def codec_length codec_unpack byteorder)
  show "of_action_vlan_vid_unpack mem = None" if "length mem < 8" for mem
    using that by (simp add: of_action_vlan_vid_unpack_def)
  show "of_action_vlan_vid_eq x y \<longleftrightarrow> x = y" if "of_action_vlan_vid_wf x" "of_action_vlan_vid_wf y" for x y
    using that by (cases x; cases y) (simp add: of_action_vlan_vid_eq_def of_action_vlan_vid_wf_def codec_eq)
  show "\<exists>x. of_action_vlan_vid_unpack mem = Some x \<and> of_action_vlan_vid_wf x \<and> of_action_vlan_vid_pack x = take 8 mem" if len: "8 \<le> length mem" for mem
    using len by (simp add: of_action_vlan_vid_pack_def of_action_vlan_vid_unpack_def of_action_vlan_vid_wf_def codec_chunks)
qed

lemmas action_vlan_vid_codec [codec_length, codec_unpack, codec_eq] = action_vlan_vid.length_pack action_vlan_vid.unpack_pack action_vlan_vid.eq_iff

record of_action_vlan_pcp =
  action_vlan_pcp_type :: uint16
  action_vlan_pcp_len :: uint16
  action_vlan_pcp_vlan_pcp :: uint8
  action_vlan_pcp_pad :: bytes

definition of_action_vlan_pcp_new :: of_action_vlan_pcp where
  "of_action_vlan_pcp_new =
     \<lparr>action_vlan_pcp_type = 2, action_vlan_pcp_len = 0, action_vlan_pcp_vlan_pcp = 0,
      action_vlan_pcp_pad = replicate 3 0\<rparr>"

definition of_action_vlan_pcp_pack :: "of_action_vlan_pcp \<Rightarrow> bytes" where
  "of_action_vlan_pcp_pack x =
     store16 (htons (action_vlan_pcp_type x)) @ store16 (htons (action_vlan_pcp_len x)) @
     store8 (action_vlan_pcp_vlan_pcp x) @ take 3 (action_vlan_pcp_pad x)"

definition of_action_vlan_pcp_unpack :: "bytes \<Rightarrow> of_action_vlan_pcp option" where
  "of_action_vlan_pcp_unpack mem =
     (if length mem < 8 then None
      else Some \<lparr>action_vlan_pcp_type = ntohs (load16 0 mem), action_vlan_pcp_len = ntohs (load16 2 mem),
            action_vlan_pcp_vlan_pcp = load8 4 mem, action_vlan_pcp_pad = take 3 (drop 5 mem)\<rparr>)"

definition of_action_vlan_pcp_eq :: "of_action_vlan_pcp \<Rightarrow> of_action_vlan_pcp \<Rightarrow> bool" where
  "of_action_vlan_pcp_eq x y \<longleftrightarrow>
     action_vlan_pcp_type x = action_vlan_pcp_type y \<and>
     action_vlan_pcp_len x = action_vlan_pcp_len y \<and>
     action_vlan_pcp_vlan_pcp x = action_vlan_pcp_vlan_pcp y \<and>
     take 3 (action_vlan_pcp_pad x) = take 3 (action_vlan_pcp_pad y)"

definition of_action_vlan_pcp_wf :: "of_action_vlan_pcp \<Rightarrow> bool" where
  "of_action_vlan_pcp_wf x \<longleftrightarrow> length (action_vlan_pcp_pad x) = 3"

interpretation action_vlan_pcp: wire_bijection of_action_vlan_pcp_pack of_action_vlan_pcp_unpack of_action_vlan_pcp_eq 8 of_action_vlan_pcp_wf
proof
  show "length (of_action_vlan_pcp_pack x) = 8" if "of_action_vlan_pcp_wf x" for x
    using that by (simp add: of_action_vlan_pcp_pack_def of_action_vlan_pcp_wf_def codec_length)
  show "of_action_vlan_pcp_unpack (of_action_vlan_pcp_pack x @ rest) = Some x" if "of_action_vlan_pcp_wf x" for x rest
    using that by (simp add: of_action_vlan_pcp_pack_def of_action_vlan_pcp_unpack_def of_action_vlan_pcp_wf_def codec_length codec_unpack byteorder)
  show "of_action_vlan_pcp_unpack mem = None" if "length mem < 8" for mem
    using that by (simp add: of_action_vlan_pcp_unpack_def)
  show "of_action_vlan_pcp_eq x y \<longleftrightarrow> x = y" if "of_action_vlan_pcp_wf x" "of_action_vlan_pcp_wf y" for x y
    using that by (cases x; cases y) (simp add: of_action_vlan_pcp_eq_def of_action_vlan_pcp_wf_def codec_eq)
  show "\<exists>x. of_action_vlan_pcp_unpack mem = Some x \<and> of_action_vlan_pcp_wf x \<and> of_action_vlan_pcp_pack x = take 8 mem" if len: "8 \<le> length mem" for mem
    using len by (simp add: of_action_vlan_pcp_pack_def of_action_vlan_pcp_unpack_def of_action_vlan_pcp_wf_def codec_chunks)
qed

lemmas action_vlan_pcp_codec [codec_length, codec_unpack, codec_eq] = action_vlan_pcp.length_pack action_vlan_pcp.unpack_pack action_vlan_pcp.eq_iff

record of_action_dl_addr =
  action_dl_addr_type :: uint16
  action_dl_addr_len :: uint16
  action_dl_addr_dl_addr :: bytes
  action_dl_addr_pad :: bytes

definition of_action_dl_addr_new :: of_action_dl_addr where
  "of_action_dl_addr_new =
     \<lparr>action_dl_addr_type = 0, action_dl_addr_len = 0, action_dl_addr_dl_addr = replicate 6 0,
      action_dl_addr_pad = replicate 6 0\<rparr>"

definition of_action_dl_addr_pack :: "of_action_dl_addr \<Rightarrow> bytes" where
  "of_action_dl_addr_pack x =
     store16 (htons (action_dl_addr_type x)) @ store16 (htons (action_dl_addr_len x)) @
     take 6 (action_dl_addr_dl_addr x) @ take 6 (action_dl_addr_pad x)"

definition of_action_dl_addr_unpack :: "bytes \<Rightarrow> of_action_dl_addr option" where
  "of_action_dl_addr_unpack mem =
     (if length mem < 16 then None
      else Some \<lparr>action_dl_addr_type = ntohs (load16 0 mem), action_dl_addr_len = ntohs (load16 2 mem),
            action_dl_addr_dl_addr = take 6 (drop 4 mem), action_dl_addr_pad = take 6 (drop 10 mem)\<rparr>)"

definition of_action_dl_addr_eq :: "of_action_dl_addr \<Rightarrow> of_action_dl_addr \<Rightarrow> bool" where
  "of_action_dl_addr_eq x y \<longleftrightarrow>
     action_dl_addr_type x = action_dl_addr_type y \<and> action_dl_addr_len x = action_dl_addr_len y \<and>
     take 6 (action_dl_addr_dl_addr x) = take 6 (action_dl_addr_dl_addr y) \<and>
     take 6 (action_dl_addr_pad x) = take 6 (action_dl_addr_pad y)"

definition of_action_dl_addr_wf :: "of_action_dl_addr \<Rightarrow> bool" where
  "of_action_dl_addr_wf x \<longleftrightarrow> length (action_dl_addr_dl_addr x) = 6 \<and> length (action_dl_addr_pad x) = 6"

interpretation action_dl_addr: wire_bijection of_action_dl_addr_pack of_action_dl_addr_unpack of_action_dl_addr_eq 16 of_action_dl_addr_wf
proof
  show "length (of_action_dl_addr_pack x) = 16" if "of_action_dl_addr_wf x" for x
    using that by (simp add: of_action_dl_addr_pack_def of_action_dl_addr_wf_def codec_length)
  show "of_action_dl_addr_unpack (of_action_dl_addr_pack x @ rest) = Some x" if "of_action_dl_addr_wf x" for x rest
    using that by (simp add: of_action_dl_addr_pack_def of_action_dl_addr_unpack_def of_action_dl_addr_wf_def codec_length codec_unpack byteorder)
  show "of_action_dl_addr_unpack mem = None" if "length mem < 16" for mem
    using that by (simp add: of_action_dl_addr_unpack_def)
  show "of_action_dl_addr_eq x y \<longleftrightarrow> x = y" if "of_action_dl_addr_wf x" "of_action_dl_addr_wf y" for x y
    using that by (cases x; cases y) (simp add: of_action_dl_addr_eq_def of_action_dl_addr_wf_def codec_eq)
  show "\<exists>x. of_action_dl_addr_unpack mem = Some x \<and> of_action_dl_addr_wf x \<and> of_action_dl_addr_pack x = take 16 mem" if len: "16 \<le> length mem" for mem
    using len by (simp add: of_action_dl_addr_pack_def of_action_dl_addr_unpack_def of_action_dl_addr_wf_def codec_chunks)
qed

lemmas action_dl_addr_codec [codec_length, codec_unpack, codec_eq] = action_dl_addr.length_pack action_dl_addr.unpack_pack action_dl_addr.eq_iff

record of_action_nw_addr =
  action_nw_addr_type :: uint16
  action_nw_addr_len :: uint16
  action_nw_addr_nw_addr :: uint32

definition of_action_nw_addr_new :: of_action_nw_addr where
  "of_action_nw_addr_new =
     \<lparr>action_nw_addr_type = 0, action_nw_addr_len = 0, action_nw_addr_nw_addr = 0\<rparr>"

definition of_action_nw_addr_pack :: "of_action_nw_addr \<Rightarrow> bytes" where
  "of_action_nw_addr_pack x =
     store16 (htons (action_nw_addr_type x)) @ store16 (htons (action_nw_addr_len x)) @
     store32 (htonl (action_nw_addr_nw_addr x))"

definition of_action_nw_addr_unpack :: "bytes \<Rightarrow> of_action_nw_addr option" where
  "of_action_nw_addr_unpack mem =
     (if length mem < 8 then None
      else Some \<lparr>action_nw_addr_type = ntohs (load16 0 mem), action_nw_addr_len = ntohs (load16 2 mem),
            action_nw_addr_nw_addr = ntohl (load32 4 mem)\<rparr>)"

definition of_action_nw_addr_eq :: "of_action_nw_addr \<Rightarrow> of_action_nw_addr \<Rightarrow> bool" where
  "of_action_nw_addr_eq x y \<longleftrightarrow>
     action_nw_addr_type x = action_nw_addr_type y \<and> action_nw_addr_len x = action_nw_addr_len y \<and>
     action_nw_addr_nw_addr x = action_nw_addr_nw_addr y"

definition of_action_nw_addr_wf :: "of_action_nw_addr \<Rightarrow> bool" where
  "of_action_nw_addr_wf x \<longleftrightarrow> True"

interpretation action_nw_addr: wire_bijection of_action_nw_addr_pack of_action_nw_addr_unpack of_action_nw_addr_eq 8 of_action_nw_addr_wf
proof
  show "length (of_action_nw_addr_pack x) = 8" if "of_action_nw_addr_wf x" for x
    using that by (simp add: of_action_nw_addr_pack_def of_action_nw_addr_wf_def codec_length)
  show "of_action_nw_addr_unpack (of_action_nw_addr_pack x @ rest) = Some x" if "of_action_nw_addr_wf x" for x rest
    using that by (simp add: of_action_nw_addr_pack_def of_action_nw_addr_unpack_def of_action_nw_addr_wf_def codec_length codec_unpack byteorder)
  show "of_action_nw_addr_unpack mem = None" if "length mem < 8" for mem
    using that by (simp add: of_action_nw_addr_unpack_def)
  show "of_action_nw_addr_eq x y \<longleftrightarrow> x = y" if "of_action_nw_addr_wf x" "of_action_nw_addr_wf y" for x y
    using that by (cases x; cases y) (simp add: of_action_nw_addr_eq_def of_action_nw_addr_wf_def codec_eq)
  show "\<exists>x. of_action_nw_addr_unpack mem = Some x \<and> of_action_nw_addr_wf x \<and> of_action_nw_addr_pack x = take 8 mem" if len: "8 \<le> length mem" for mem
    using len by (simp add: of_action_nw_addr_pack_def of_action_nw_addr_unpack_def of_action_nw_addr_wf_def codec_chunks)
qed

lemmas action_nw_addr_codec [codec_length, codec_unpack, codec_eq] = action_nw_addr.length_pack action_nw_addr.unpack_pack action_nw_addr.eq_iff

record of_action_nw_tos =
  action_nw_tos_type :: uint16
  action_nw_tos_len :: uint16
  action_nw_tos_nw_tos :: uint8
  action_nw_tos_pad :: bytes

definition of_action_nw_tos_new :: of_action_nw_tos where
  "of_action_nw_tos_new =
     \<lparr>action_nw_tos_type = 0, action_nw_tos_len = 0, action_nw_tos_nw_tos = 0, action_nw_tos_pad = replicate 3 0\<rparr>"

definition of_action_nw_tos_pack :: "of_action_nw_tos \<Rightarrow> bytes" where
  "of_action_nw_tos_pack x =
     store16 (htons (action_nw_tos_type x)) @ store16 (htons (action_nw_tos_len x)) @
     store8 (action_nw_tos_nw_tos x) @ take 3 (action_nw_tos_pad x)"

definition of_action_nw_tos_unpack :: "bytes \<Rightarrow> of_action_nw_tos option" where
  "of_action_nw_tos_unpack mem =
     (if length mem < 8 then None
      else Some \<lparr>action_nw_tos_type = ntohs (load16 0 mem), action_nw_tos_len = ntohs (load16 2 mem),
            action_nw_tos_nw_tos = load8 4 mem, action_nw_tos_pad = take 3 (drop 5 mem)\<rparr>)"

definition of_action_nw_tos_eq :: "of_action_nw_tos \<Rightarrow> of_action_nw_tos \<Rightarrow> bool" where
  "of_action_nw_tos_eq x y \<longleftrightarrow>
     action_nw_tos_type x = action_nw_tos_type y \<and> action_nw_tos_len x = action_nw_tos_len y \<and>
     action_nw_tos_nw_tos x = action_nw_tos_nw_tos y \<and>
     take 3 (action_nw_tos_pad x) = take 3 (action_nw_tos_pad y)"

definition of_action_nw_tos_wf :: "of_action_nw_tos \<Rightarrow> bool" where
  "of_action_nw_tos_wf x \<longleftrightarrow> length (action_nw_tos_pad x) = 3"

interpretation action_nw_tos: wire_bijection of_action_nw_tos_pack of_action_nw_tos_unpack of_action_nw_tos_eq 8 of_action_nw_tos_wf
proof
  show "length (of_action_nw_tos_pack x) = 8" if "of_action_nw_tos_wf x" for x
    using that by (simp add: of_action_nw_tos_pack_def of_action_nw_tos_wf_def codec_length)
  show "of_action_nw_tos_unpack (of_action_nw_tos_pack x @ rest) = Some x" if "of_action_nw_tos_wf x" for x rest
    using that by (simp add: of_action_nw_tos_pack_def of_action_nw_tos_unpack_def of_action_nw_tos_wf_def codec_length codec_unpack byteorder)
  show "of_action_nw_tos_unpack mem = None" if "length mem < 8" for mem
    using that by (simp add: of_action_nw_tos_unpack_def)
  show "of_action_nw_tos_eq x y \<longleftrightarrow> x = y" if "of_action_nw_tos_wf x" "of_action_nw_tos_wf y" for x y
    using that by (cases x; cases y) (simp add: of_action_nw_tos_eq_def of_action_nw_tos_wf_def codec_eq)
  show "\<exists>x. of_action_nw_tos_unpack mem = Some x \<and> of_action_nw_tos_wf x \<and> of_action_nw_tos_pack x = take 8 mem" if len: "8 \<le> length mem" for mem
    using len by (simp add: of_action_nw_tos_pack_def of_action_nw_tos_unpack_def of_action_nw_tos_wf_def codec_chunks)
qed

lemmas action_nw_tos_codec [codec_length, codec_unpack, codec_eq] = action_nw_tos.length_pack action_nw_tos.unpack_pack action_nw_tos.eq_iff

record of_action_tp_port =
  action_tp_port_type :: uint16
  action_tp_port_len :: uint16
  action_tp_port_tp_port :: uint16
  action_tp_port_pad :: bytes

definition of_action_tp_port_new :: of_action_tp_port where
  "of_action_tp_port_new =
     \<lparr>action_tp_port_type = 0, action_tp_port_len = 0, action_tp_port_tp_port = 0,
      action_tp_port_pad = replicate 2 0\<rparr>"

definition of_action_tp_port_pack :: "of_action_tp_port \<Rightarrow> bytes" where
  "of_action_tp_port_pack x =
     store16 (htons (action_tp_port_type x)) @ store16 (htons (action_tp_port_len x)) @
     store16 (htons (action_tp_port_tp_port x)) @ take 2 (action_tp_port_pad x)"

definition of_action_tp_port_unpack :: "bytes \<Rightarrow> of_action_tp_port option" where
  "of_action_tp_port_unpack mem =
     (if length mem < 8 then None
      else Some \<lparr>action_tp_port_type = ntohs (load16 0 mem), action_tp_port_len = ntohs (load16 2 mem),
            action_tp_port_tp_port = ntohs (load16 4 mem), action_tp_port_pad = take 2 (drop 6 mem)\<rparr>)"

definition of_action_tp_port_eq :: "of_action_tp_port \<Rightarrow> of_action_tp_port \<Rightarrow> bool" where
  "of_action_tp_port_eq x y \<longleftrightarrow>
     action_tp_port_type x = action_tp_port_type y \<and> action_tp_port_len x = action_tp_port_len y \<and>
     action_tp_port_tp_port x = action_tp_port_tp_port y \<and>
     take 2 (action_tp_port_pad x) = take 2 (action_tp_port_pad y)"

definition of_action_tp_port_wf :: "of_action_tp_port \<Rightarrow> bool" where
  "of_action_tp_port_wf x \<longleftrightarrow> length (action_tp_port_pad x) = 2"

interpretation action_tp_port: wire_bijection of_action_tp_port_pack of_action_tp_port_unpack of_action_tp_port_eq 8 of_action_tp_port_wf
proof
  show "length (of_action_tp_port_pack x) = 8" if "of_action_tp_port_wf x" for x
    using that by (simp add: of_action_tp_port_pack_def of_action_tp_port_wf_def codec_length)
  show "of_action_tp_port_unpack (of_action_tp_port_pack x @ rest) = Some x" if "of_action_tp_port_wf x" for x rest
    using that by (simp add: of_action_tp_port_pack_def of_action_tp_port_unpack_def of_action_tp_port_wf_def codec_length codec_unpack byteorder)
  show "of_action_tp_port_unpack mem = None" if "length mem < 8" for mem
    using that by (simp add: of_action_tp_port_unpack_def)
  show "of_action_tp_port_eq x y \<longleftrightarrow> x = y" if "of_action_tp_port_wf x" "of_action_tp_port_wf y" for x y
    using that by (cases x; cases y) (simp add: of_action_tp_port_eq_def of_action_tp_port_wf_def codec_eq)
  show "\<exists>x. of_action_tp_port_unpack mem = Some x \<and> of_action_tp_port_wf x \<and> of_action_tp_port_pack x = take 8 mem" if len: "8 \<le> length mem" for mem
    using len by (simp add: of_action_tp_port_pack_def of_action_tp_port_unpack_def of_action_tp_port_wf_def codec_chunks)
qed

lemmas action_tp_port_codec [codec_length, codec_unpack, codec_eq] = action_tp_port.length_pack action_tp_port.unpack_pack action_tp_port.eq_iff

record of_action_enqueue =
  action_enqueue_type :: uint16
  action_enqueue_len :: uint16
  action_enqueue_port :: uint16
  action_enqueue_pad :: bytes
  action_enqueue_queue_id :: uint32

definition of_action_enqueue_new :: of_action_enqueue where
  "of_action_enqueue_new =
     \<lparr>action_enqueue_type = 0, action_enqueue_len = 0, action_enqueue_port = 0,
      action_enqueue_pad = replicate 6 0, action_enqueue_queue_id = 0\<rparr>"

definition of_action_enqueue_pack :: "of_action_enqueue \<Rightarrow> bytes" where
  "of_action_enqueue_pack x =
     store16 (htons (action_enqueue_type x)) @ store16 (htons (action_enqueue_len x)) @
     store16 (htons (action_enqueue_port x)) @ take 6 (action_enqueue_pad x) @
     store32 (htonl (action_enqueue_queue_id x))"

definition of_action_enqueue_unpack :: "bytes \<Rightarrow> of_action_enqueue option" where
  "of_action_enqueue_unpack mem =
     (if length mem < 16 then None
      else Some \<lparr>action_enqueue_type = ntohs (load16 0 mem), action_enqueue_len = ntohs (load16 2 mem),
            action_enqueue_port = ntohs (load16 4 mem), action_enqueue_pad = take 6 (drop 6 mem),
            action_enqueue_queue_id = ntohl (load32 12 mem)\<rparr>)"

definition of_action_enqueue_eq :: "of_action_enqueue \<Rightarrow> of_action_enqueue \<Rightarrow> bool" where
  "of_action_enqueue_eq x y \<longleftrightarrow>
     action_enqueue_type x = action_enqueue_type y \<and> action_enqueue_len x = action_enqueue_len y \<and>
     action_enqueue_port x = action_enqueue_port y \<and>
     take 6 (action_enqueue_pad x) = take 6 (action_enqueue_pad y) \<and>
     action_enqueue_queue_id x = action_enqueue_queue_id y"

definition of_action_enqueue_wf :: "of_action_enqueue \<Rightarrow> bool" where
  "of_action_enqueue_wf x \<longleftrightarrow> length (action_enqueue_pad x) = 6"

interpretation action_enqueue: wire_bijection of_action_enqueue_pack of_action_enqueue_unpack of_action_enqueue_eq 16 of_action_enqueue_wf
proof
  show "length (of_action_enqueue_pack x) = 16" if "of_action_enqueue_wf x" for x
    using that by (simp add: of_action_enqueue_pack_def of_action_enqueue_wf_def codec_length)
  show "of_action_enqueue_unpack (of_action_enqueue_pack x @ rest) = Some x" if "of_action_enqueue_wf x" for x rest
    using that by (simp add: of_action_enqueue_pack_def of_action_enqueue_unpack_def of_action_enqueue_wf_def codec_length codec_unpack byteorder)
  show "of_action_enqueue_unpack mem = None" if "length mem < 16" for mem
    using that by (simp add: of_action_enqueue_unpack_def)
  show "of_action_enqueue_eq x y \<longleftrightarrow> x = y" if "of_action_enqueue_wf x" "of_action_enqueue_wf y" for x y
    using that by (cases x; cases y) (simp add: of_action_enqueue_eq_def of_action_enqueue_wf_def codec_eq)
  show "\<exists>x. of_action_enqueue_unpack mem = Some x \<and> of_action_enqueue_wf x \<and> of_action_enqueue_pack x = take 16 mem" if len: "16 \<le> length mem" for mem
    using len by (simp add: of_action_enqueue_pack_def of_action_enqueue_unpack_def of_action_enqueue_wf_def codec_chunks)
qed

lemmas action_enqueue_codec [codec_length, codec_unpack, codec_eq] = action_enqueue.length_pack action_enqueue.unpack_pack action_enqueue.eq_iff

record of_action_vendor_header =
  action_vendor_header_type :: uint16
  action_vendor_header_len :: uint16
  action_vendor_header_vendor :: uint32

definition of_action_vendor_header_new :: of_action_vendor_header where
  "of_action_vendor_header_new =
     \<lparr>action_vendor_header_type = 65535, action_vendor_header_len = 0, action_vendor_header_vendor = 0\<rparr>"

definition of_action_vendor_header_pack :: "of_action_vendor_header \<Rightarrow> bytes" where
  "of_action_vendor_header_pack x =
     store16 (htons (action_vendor_header_type x)) @ store16 (htons (action_vendor_header_len x)) @
     store32 (htonl (action_vendor_header_vendor x))"

definition of_action_vendor_header_unpack :: "bytes \<Rightarrow> of_action_vendor_header option" where
  "of_action_vendor_header_unpack mem =
     (if length mem < 8 then None
      else Some \<lparr>action_vendor_header_type = ntohs (load16 0 mem), action_vendor_header_len = ntohs (load16 2 mem),
            action_vendor_header_vendor = ntohl (load32 4 mem)\<rparr>)"

definition of_action_vendor_header_eq :: "of_action_vendor_header \<Rightarrow> of_action_vendor_header \<Rightarrow> bool" where
  "of_action_vendor_header_eq x y \<longleftrightarrow>
     action_vendor_header_type x = action_vendor_header_type y \<and>
     action_vendor_header_len x = action_vendor_header_len y \<and>
     action_vendor_header_vendor x = action_vendor_header_vendor y"

definition of_action_vendor_header_wf :: "of_action_vendor_header \<Rightarrow> bool" where
  "of_action_vendor_header_wf x \<longleftrightarrow> True"

interpretation action_vendor_header: wire_bijection of_action_vendor_header_pack of_action_vendor_header_unpack of_action_vendor_header_eq 8 of_action_vendor_header_wf
proof
  show "length (of_action_vendor_header_pack x) = 8" if "of_action_vendor_header_wf x" for x
    using that by (simp add: of_action_vendor_header_pack_def of_action_vendor_header_wf_def codec_length)
  show "of_action_vendor_header_unpack (of_action_vendor_header_pack x @ rest) = Some x" if "of_action_vendor_header_wf x" for x rest
    using that by (simp add: of_action_vendor_header_pack_def of_action_vendor_header_unpack_def of_action_vendor_header_wf_def codec_length codec_unpack byteorder)
  show "of_action_vendor_header_unpack mem = None" if "length mem < 8" for mem
    using that by (simp add: of_action_vendor_header_unpack_def)
  show "of_action_vendor_header_eq x y \<longleftrightarrow> x = y" if "of_action_vendor_header_wf x" "of_action_vendor_header_wf y" for x y
    using that by (cases x; cases y) (simp add: of_action_vendor_header_eq_def of_action_vendor_header_wf_def codec_eq)
  show "\<exists>x. of_action_vendor_header_unpack mem = Some x \<and> of_action_vendor_header_wf x \<and> of_action_vendor_header_pack x = take 8 mem" if len: "8 \<le> length mem" for mem
    using len by (simp add: of_action_vendor_header_pack_def of_action_vendor_header_unpack_def of_action_vendor_header_wf_def codec_chunks)
qed

lemmas action_vendor_header_codec [codec_length, codec_unpack, codec_eq] = action_vendor_header.length_pack action_vendor_header.unpack_pack action_vendor_header.eq_iff

end
