(* ===== verification/Nox_Ofpack_Stats.thy ===== *)
theory Nox_Ofpack_Stats
  imports Nox_Ofpack
begin

text \<open>The structures of statistics and queues.  See \<^verbatim>\<open>src/src/lib/openflow-pack-raw.cc\<close>.\<close>

record of_desc_stats =
  desc_stats_mfr_desc :: bytes
  desc_stats_hw_desc :: bytes
  desc_stats_sw_desc :: bytes
  desc_stats_serial_num :: bytes
  desc_stats_dp_desc :: bytes

definition of_desc_stats_new :: of_desc_stats where
  "of_desc_stats_new =
     \<lparr>desc_stats_mfr_desc = [], desc_stats_hw_desc = [], desc_stats_sw_desc = [], desc_stats_serial_num = [],
      desc_stats_dp_desc = []\<rparr>"

definition of_desc_stats_pack :: "of_desc_stats \<Rightarrow> bytes" where
  "of_desc_stats_pack x =
     strncpy 255 (desc_stats_mfr_desc x) @ store8 0 @ strncpy 255 (desc_stats_hw_desc x) @ store8 0 @
     strncpy 255 (desc_stats_sw_desc x) @ store8 0 @ strncpy 31 (desc_stats_serial_num x) @ store8 0 @
     strncpy 255 (desc_stats_dp_desc x) @ store8 0"

definition of_desc_stats_unpack :: "bytes \<Rightarrow> of_desc_stats option" where
  "of_desc_stats_unpack mem =
     (if length mem < 1056 then None
      else Option.bind (c_string mem) (\<lambda>mfr_desc.
        Option.bind (c_string (drop 256 mem)) (\<lambda>hw_desc.
        Option.bind (c_string (drop 512 mem)) (\<lambda>sw_desc.
        Option.bind (c_string (drop 768 mem)) (\<lambda>serial_num.
        Option.bind (c_string (drop 800 mem)) (\<lambda>dp_desc.
        Some \<lparr>desc_stats_mfr_desc = mfr_desc, desc_stats_hw_desc = hw_desc, desc_stats_sw_desc = sw_desc,
            desc_stats_serial_num = serial_num, desc_stats_dp_desc = dp_desc\<rparr>))))))"

definition of_desc_stats_eq :: "of_desc_stats \<Rightarrow> of_desc_stats \<Rightarrow> bool" where
  "of_desc_stats_eq x y \<longleftrightarrow>
     desc_stats_mfr_desc x = desc_stats_mfr_desc y \<and> desc_stats_hw_desc x = desc_stats_hw_desc y \<and>
     desc_stats_sw_desc x = desc_stats_sw_desc y \<and>
     desc_stats_serial_num x = desc_stats_serial_num y \<and> desc_stats_dp_desc x = desc_stats_dp_desc y"

definition of_desc_stats_wf :: "of_desc_stats \<Rightarrow> bool" where
  "of_desc_stats_wf x \<longleftrightarrow> 0 \<notin> set (desc_stats_mfr_desc x) \<and> length (desc_stats_mfr_desc x) < 256 \<and>
     0 \<notin> set (desc_stats_hw_desc x) \<and> length (desc_stats_hw_desc x) < 256 \<and>
     0 \<notin> set (desc_stats_sw_desc x) \<and> length (desc_stats_sw_desc x) < 256 \<and>
     0 \<notin> set (desc_stats_serial_num x) \<and> length (desc_stats_serial_num x) < 32 \<and>
     0 \<notin> set (desc_stats_dp_desc x) \<and> length (desc_stats_dp_desc x) < 256"

interpretation desc_stats: wire_codec of_desc_stats_pack of_desc_stats_unpack of_desc_stats_eq 1056 of_desc_stats_wf
proof
  show "length (of_desc_stats_pack x) = 1056" if "of_desc_stats_wf x" for x
    using that by (simp add: of_desc_stats_pack_def of_desc_stats_wf_def codec_length)
  show "of_desc_stats_unpack (of_desc_stats_pack x @ rest) = Some x" if "of_desc_stats_wf x" for x rest
    using that by (simp add: of_desc_stats_pack_def of_desc_stats_unpack_def of_desc_stats_wf_def codec_length codec_unpack byteorder)
  show "of_desc_stats_unpack mem = None" if "length mem < 1056" for mem
    using that by (simp add: of_desc_stats_unpack_def)
  show "of_desc_stats_eq x y \<longleftrightarrow> x = y" if "of_desc_stats_wf x" "of_desc_stats_wf y" for x y
    using that by (cases x; cases y) (simp add: of_desc_stats_eq_def of_desc_stats_wf_def codec_eq)
qed

lemmas desc_stats_codec [codec_length, codec_unpack, codec_eq] = desc_stats.length_pack desc_stats.unpack_pack desc_stats.eq_iff

record of_flow_stats_request =
  flow_stats_request_match :: of_match
  flow_stats_request_table_id :: uint8
  flow_stats_request_pad :: uint8
  flow_stats_request_out_port :: uint16

definition of_flow_stats_request_new :: of_flow_stats_request where
  "of_flow_stats_request_new =
     \<lparr>flow_stats_request_match = of_match_new, flow_stats_request_table_id = 0, flow_stats_request_pad = 0,
      flow_stats_request_out_port = 0\<rparr>"

definition of_flow_stats_request_pack :: "of_flow_stats_request \<Rightarrow> bytes" where
  "of_flow_stats_request_pack x =
     of_match_pack (flow_stats_request_match x) @ store8 (flow_stats_request_table_id x) @
     store8 (flow_stats_request_pad x) @ store16 (htons (flow_stats_request_out_port x))"

definition of_flow_stats_request_unpack :: "bytes \<Rightarrow> of_flow_stats_request option" where
  "of_flow_stats_request_unpack mem =
     (if length mem < 44 then None
      else Option.bind (of_match_unpack mem) (\<lambda>match.
        Some \<lparr>flow_stats_request_match = match, flow_stats_request_table_id = load8 40 mem,
            flow_stats_request_pad = load8 41 mem, flow_stats_request_out_port = ntohs (load16 42 mem)\<rparr>))"

definition of_flow_stats_request_eq :: "of_flow_stats_request \<Rightarrow> of_flow_stats_request \<Rightarrow> bool" where
  "of_flow_stats_request_eq x y \<longleftrightarrow>
     of_match_eq (flow_stats_request_match x) (flow_stats_request_match y) \<and>
     flow_stats_request_table_id x = flow_stats_request_table_id y \<and>
     flow_stats_request_pad x = flow_stats_request_pad y \<and>
     flow_stats_request_out_port x = flow_stats_request_out_port y"

definition of_flow_stats_request_wf :: "of_flow_stats_request \<Rightarrow> bool" where
  "of_flow_stats_request_wf x \<longleftrightarrow> of_match_wf (flow_stats_request_match x)"

interpretation flow_stats_request: wire_bijection of_flow_stats_request_pack of_flow_stats_request_unpack of_flow_stats_request_eq 44 of_flow_stats_request_wf
proof
  show "length (of_flow_stats_request_pack x) = 44" if "of_flow_stats_request_wf x" for x
    using that by (simp add: of_flow_stats_request_pack_def of_flow_stats_request_wf_def codec_length)
  show "of_flow_stats_request_unpack (of_flow_stats_request_pack x @ rest) = Some x" if "of_flow_stats_request_wf x" for x rest
    using that by (simp add: of_flow_stats_request_pack_def of_flow_stats_request_unpack_def of_flow_stats_request_wf_def codec_length codec_unpack byteorder)
  show "of_flow_stats_request_unpack mem = None" if "length mem < 44" for mem
    using that by (simp add: of_flow_stats_request_unpack_def)
  show "of_flow_stats_request_eq x y \<longleftrightarrow> x = y" if "of_flow_stats_request_wf x" "of_flow_stats_request_wf y" for x y
    using that by (cases x; cases y) (simp add: of_flow_stats_request_eq_def of_flow_stats_request_wf_def codec_eq)
  show "\<exists>x. of_flow_stats_request_unpack mem = Some x \<and> of_flow_stats_request_wf x \<and> of_flow_stats_request_pack x = take 44 mem" if len: "44 \<le> length mem" for mem
  proof -
    obtain match where match_ok: "of_match_unpack mem = Some match" "of_match_wf match" "of_match_pack match = take 40 mem"
      using len match.pack_unpack_at [of 0 mem] by auto
    from len match_ok show ?thesis
      by (simp add: of_flow_stats_request_pack_def of_flow_stats_request_unpack_def of_flow_stats_request_wf_def codec_chunks)
  qed
qed

lemmas flow_stats_request_codec [codec_length, codec_unpack, codec_eq] = flow_stats_request.length_pack flow_stats_request.unpack_pack flow_stats_request.eq_iff

record of_flow_stats =
  flow_stats_length :: uint16
  flow_stats_table_id :: uint8
  flow_stats_pad :: uint8
  flow_stats_match :: of_match
  flow_stats_duration_sec :: uint32
  flow_stats_duration_nsec :: uint32
  flow_stats_priority :: uint16
  flow_stats_idle_timeout :: uint16
  flow_stats_hard_timeout :: uint16
  flow_stats_pad2 :: bytes
  flow_stats_cookie :: uint64
  flow_stats_packet_count :: uint64
  flow_stats_byte_count :: uint64

definition of_flow_stats_new :: of_flow_stats where
  "of_flow_stats_new =
     \<lparr>flow_stats_length = 0, flow_stats_table_id = 0, flow_stats_pad = 0, flow_stats_match = of_match_new,
      flow_stats_duration_sec = 0, flow_stats_duration_nsec = 0, flow_stats_priority = 0x8000,
      flow_stats_idle_timeout = 0, flow_stats_hard_timeout = 0, flow_stats_pad2 = replicate 6 0,
      flow_stats_cookie = 0, flow_stats_packet_count = 0, flow_stats_byte_count = 0\<rparr>"

definition of_flow_stats_pack :: "of_flow_stats \<Rightarrow> bytes" where
  "of_flow_stats_pack x =
     store16 (htons (flow_stats_length x)) @ store8 (flow_stats_table_id x) @ store8 (flow_stats_pad x) @
     of_match_pack (flow_stats_match x) @ store32 (htonl (flow_stats_duration_sec x)) @
     store32 (htonl (flow_stats_duration_nsec x)) @ store16 (htons (flow_stats_priority x)) @
     store16 (htons (flow_stats_idle_timeout x)) @ store16 (htons (flow_stats_hard_timeout x)) @
     take 6 (flow_stats_pad2 x) @ store64 (htonll (flow_stats_cookie x)) @
     store64 (htonll (flow_stats_packet_count x)) @ store64 (htonll (flow_stats_byte_count x))"

definition of_flow_stats_unpack :: "bytes \<Rightarrow> of_flow_stats option" where
  "of_flow_stats_unpack mem =
     (if length mem < 88 then None
      else Option.bind (of_match_unpack (drop 4 mem)) (\<lambda>match.
        Some \<lparr>flow_stats_length = ntohs (load16 0 mem), flow_stats_table_id = load8 2 mem,
            flow_stats_pad = load8 3 mem, flow_stats_match = match,
            flow_stats_duration_sec = ntohl (load32 44 mem), flow_stats_duration_nsec = ntohl (load32 48 mem),
            flow_stats_priority = ntohs (load16 52 mem), flow_stats_idle_timeout = ntohs (load16 54 mem),
            flow_stats_hard_timeout = ntohs (load16 56 mem), flow_stats_pad2 = take 6 (drop 58 mem),
            flow_stats_cookie = ntohll (load64 64 mem), flow_stats_packet_count = ntohll (load64 72 mem),
            flow_stats_byte_count = ntohll (load64 80 mem)\<rparr>))"

definition of_flow_stats_eq :: "of_flow_stats \<Rightarrow> of_flow_stats \<Rightarrow> bool" where
  "of_flow_stats_eq x y \<longleftrightarrow>
     flow_stats_length x = flow_stats_length y \<and> flow_stats_table_id x = flow_stats_table_id y \<and>
     flow_stats_pad x = flow_stats_pad y \<and> of_match_eq (flow_stats_match x) (flow_stats_match y) \<and>
     flow_stats_duration_sec x = flow_stats_duration_sec y \<and>
     flow_stats_duration_nsec x = flow_stats_duration_nsec y \<and>
     flow_stats_priority x = flow_stats_priority y \<and>
     flow_stats_idle_timeout x = flow_stats_idle_timeout y \<and>
     flow_stats_hard_timeout x = flow_stats_hard_timeout y \<and>
     take 6 (flow_stats_pad2 x) = take 6 (flow_stats_pad2 y) \<and>
     flow_stats_cookie x = flow_stats_cookie y \<and>
     flow_stats_packet_count x = flow_stats_packet_count y \<and>
     flow_stats_byte_count x = flow_stats_byte_count y"

definition of_flow_stats_wf :: "of_flow_stats \<Rightarrow> bool" where
  "of_flow_stats_wf x \<longleftrightarrow> of_match_wf (flow_stats_match x) \<and> length (flow_stats_pad2 x) = 6"

interpretation flow_stats: wire_bijection of_flow_stats_pack of_flow_stats_unpack of_flow_stats_eq 88 of_flow_stats_wf
proof
  show "length (of_flow_stats_pack x) = 88" if "of_flow_stats_wf x" for x
    using that by (simp add: of_flow_stats_pack_def of_flow_stats_wf_def codec_length)
  show "of_flow_stats_unpack (of_flow_stats_pack x @ rest) = Some x" if "of_flow_stats_wf x" for x rest
    using that by (simp add: of_flow_stats_pack_def of_flow_stats_unpack_def of_flow_stats_wf_def codec_length codec_unpack byteorder)
  show "of_flow_stats_unpack mem = None" if "length mem < 88" for mem
    using that by (simp add: of_flow_stats_unpack_def)
  show "of_flow_stats_eq x y \<longleftrightarrow> x = y" if "of_flow_stats_wf x" "of_flow_stats_wf y" for x y
    using that by (cases x; cases y) (simp add: of_flow_stats_eq_def of_flow_stats_wf_def codec_eq)
  show "\<exists>x. of_flow_stats_unpack mem = Some x \<and> of_flow_stats_wf x \<and> of_flow_stats_pack x = take 88 mem" if len: "88 \<le> length mem" for mem
  proof -
    obtain match where match_ok: "of_match_unpack (drop 4 mem) = Some match" "of_match_wf match" "of_match_pack match = take 40 (drop 4 mem)"
      using len match.pack_unpack_at [of 4 mem] by auto
    from len match_ok show ?thesis
      by (simp add: of_flow_stats_pack_def of_flow_stats_unpack_def of_flow_stats_wf_def codec_chunks)
  qed
qed

lemmas flow_stats_codec [codec_length, codec_unpack, codec_eq] = flow_stats.length_pack flow_stats.unpack_pack flow_stats.eq_iff

record of_aggregate_stats_request =
  aggregate_stats_request_match :: of_match
  aggregate_stats_request_table_id :: uint8
  aggregate_stats_request_pad :: uint8
  aggregate_stats_request_out_port :: uint16

definition of_aggregate_stats_request_new :: of_aggregate_stats_request where
  "of_aggregate_stats_request_new =
     \<lparr>aggregate_stats_request_match = of_match_new, aggregate_stats_request_table_id = 0,
      aggregate_stats_request_pad = 0, aggregate_stats_request_out_port = 0\<rparr>"

definition of_aggregate_stats_request_pack :: "of_aggregate_stats_request \<Rightarrow> bytes" where
  "of_aggregate_stats_request_pack x =
     of_match_pack (aggregate_stats_request_match x) @ store8 (aggregate_stats_request_table_id x) @
     store8 (aggregate_stats_request_pad x) @ store16 (htons (aggregate_stats_request_out_port x))"

definition of_aggregate_stats_request_unpack :: "bytes \<Rightarrow> of_aggregate_stats_request option" where
  "of_aggregate_stats_request_unpack mem =
     (if length mem < 44 then None
      else Option.bind (of_match_unpack mem) (\<lambda>match.
        Some \<lparr>aggregate_stats_request_match = match, aggregate_stats_request_table_id = load8 40 mem,
            aggregate_stats_request_pad = load8 41 mem, aggregate_stats_request_out_port = ntohs (load16 42 mem)\<rparr>))"

definition of_aggregate_stats_request_eq :: "of_aggregate_stats_request \<Rightarrow> of_aggregate_stats_request \<Rightarrow> bool" where
  "of_aggregate_stats_request_eq x y \<longleftrightarrow>
     of_match_eq (aggregate_stats_request_match x) (aggregate_stats_request_match y) \<and>
     aggregate_stats_request_table_id x = aggregate_stats_request_table_id y \<and>
     aggregate_stats_request_pad x = aggregate_stats_request_pad y \<and>
     aggregate_stats_request_out_port x = aggregate_stats_request_out_port y"

definition of_aggregate_stats_request_wf :: "of_aggregate_stats_request \<Rightarrow> bool" where
  "of_aggregate_stats_request_wf x \<longleftrightarrow> of_match_wf (aggregate_stats_request_match x)"

interpretation aggregate_stats_request: wire_bijection of_aggregate_stats_request_pack of_aggregate_stats_request_unpack of_aggregate_stats_request_eq 44 of_aggregate_stats_request_wf
proof
  show "length (of_aggregate_stats_request_pack x) = 44" if "of_aggregate_stats_request_wf x" for x
    using that by (simp add: of_aggregate_stats_request_pack_def of_aggregate_stats_request_wf_def codec_length)
  show "of_aggregate_stats_request_unpack (of_aggregate_stats_request_pack x @ rest) = Some x" if "of_aggregate_stats_request_wf x" for x rest
    using that by (simp add: of_aggregate_stats_request_pack_def of_aggregate_stats_request_unpack_def of_aggregate_stats_request_wf_def codec_length codec_unpack byteorder)
  show "of_aggregate_stats_request_unpack mem = None" if "length mem < 44" for mem
    using that by (simp add: of_aggregate_stats_request_unpack_def)
  show "of_aggregate_stats_request_eq x y \<longleftrightarrow> x = y" if "of_aggregate_stats_request_wf x" "of_aggregate_stats_request_wf y" for x y
    using that by (cases x; cases y) (simp add: of_aggregate_stats_request_eq_def of_aggregate_stats_request_wf_def codec_eq)
  show "\<exists>x. of_aggregate_stats_request_unpack mem = Some x \<and> of_aggregate_stats_request_wf x \<and> of_aggregate_stats_request_pack x = take 44 mem" if len: "44 \<le> length mem" for mem
  proof -
    obtain match where match_ok: "of_match_unpack mem = Some match" "of_match_wf match" "of_match_pack match = take 40 mem"
      using len match.pack_unpack_at [of 0 mem] by auto
    from len match_ok show ?thesis
      by (simp add: of_aggregate_stats_request_pack_def of_aggregate_stats_request_unpack_def of_aggregate_stats_request_wf_def codec_chunks)
  qed
qed

lemmas aggregate_stats_request_codec [codec_length, codec_unpack, codec_eq] = aggregate_stats_request.length_pack aggregate_stats_request.unpack_pack aggregate_stats_request.eq_iff

record of_aggregate_stats_reply =
  aggregate_stats_reply_packet_count :: uint64
  aggregate_stats_reply_byte_count :: uint64
  aggregate_stats_reply_flow_count :: uint32
  aggregate_stats_reply_pad :: bytes

definition of_aggregate_stats_reply_new :: of_aggregate_stats_reply where
  "of_aggregate_stats_reply_new =
     \<lparr>aggregate_stats_reply_packet_count = 0, aggregate_stats_reply_byte_count = 0,
      aggregate_stats_reply_flow_count = 0, aggregate_stats_reply_pad = replicate 4 0\<rparr>"

definition of_aggregate_stats_reply_pack :: "of_aggregate_stats_reply \<Rightarrow> bytes" where
  "of_aggregate_stats_reply_pack x =
     store64 (htonll (aggregate_stats_reply_packet_count x)) @
     store64 (htonll (aggregate_stats_reply_byte_count x)) @
     store32 (htonl (aggregate_stats_reply_flow_count x)) @ take 4 (aggregate_stats_reply_pad x)"

definition of_aggregate_stats_reply_unpack :: "bytes \<Rightarrow> of_aggregate_stats_reply option" where
  "of_aggregate_stats_reply_unpack mem =
     (if length mem < 24 then None
      else Some \<lparr>aggregate_stats_reply_packet_count = ntohll (load64 0 mem),
            aggregate_stats_reply_byte_count = ntohll (load64 8 mem),
            aggregate_stats_reply_flow_count = ntohl (load32 16 mem),
            aggregate_stats_reply_pad = take 4 (drop 20 mem)\<rparr>)"

definition of_aggregate_stats_reply_eq :: "of_aggregate_stats_reply \<Rightarrow> of_aggregate_stats_reply \<Rightarrow> bool" where
  "of_aggregate_stats_reply_eq x y \<longleftrightarrow>
     aggregate_stats_reply_packet_count x = aggregate_stats_reply_packet_count y \<and>
     aggregate_stats_reply_byte_count x = aggregate_stats_reply_byte_count y \<and>
     aggregate_stats_reply_flow_count x = aggregate_stats_reply_flow_count y \<and>
     take 4 (aggregate_stats_reply_pad x) = take 4 (aggregate_stats_reply_pad y)"

definition of_aggregate_stats_reply_wf :: "of_aggregate_stats_reply \<Rightarrow> bool" where
  "of_aggregate_stats_reply_wf x \<longleftrightarrow> length (aggregate_stats_reply_pad x) = 4"

interpretation aggregate_stats_reply: wire_bijection of_aggregate_stats_reply_pack of_aggregate_stats_reply_unpack of_aggregate_stats_reply_eq 24 of_aggregate_stats_reply_wf
proof
  show "length (of_aggregate_stats_reply_pack x) = 24" if "of_aggregate_stats_reply_wf x" for x
    using that by (simp add: of_aggregate_stats_reply_pack_def of_aggregate_stats_reply_wf_def codec_length)
  show "of_aggregate_stats_reply_unpack (of_aggregate_stats_reply_pack x @ rest) = Some x" if "of_aggregate_stats_reply_wf x" for x rest
    using that by (simp add: of_aggregate_stats_reply_pack_def of_aggregate_stats_reply_unpack_def of_aggregate_stats_reply_wf_def codec_length codec_unpack byteorder)
  show "of_aggregate_stats_reply_unpack mem = None" if "length mem < 24" for mem
    using that by (simp add: of_aggregate_stats_reply_unpack_def)
  show "of_aggregate_stats_reply_eq x y \<longleftrightarrow> x = y" if "of_aggregate_stats_reply_wf x" "of_aggregate_stats_reply_wf y" for x y
    using that by (cases x; cases y) (simp add: of_aggregate_stats_reply_eq_def of_aggregate_stats_reply_wf_def codec_eq)
  show "\<exists>x. of_aggregate_stats_reply_unpack mem = Some x \<and> of_aggregate_stats_reply_wf x \<and> of_aggregate_stats_reply_pack x = take 24 mem" if len: "24 \<le> length mem" for mem
    using len by (simp add: of_aggregate_stats_reply_pack_def of_aggregate_stats_reply_unpack_def of_aggregate_stats_reply_wf_def codec_chunks)
qed

lemmas aggregate_stats_reply_codec [codec_length, codec_unpack, codec_eq] = aggregate_stats_reply.length_pack aggregate_stats_reply.unpack_pack aggregate_stats_reply.eq_iff

record of_table_stats =
  table_stats_table_id :: uint8
  table_stats_pad :: bytes
  table_stats_name :: bytes
  table_stats_wildcards :: uint32
  table_stats_max_entries :: uint32
  table_stats_active_count :: uint32
  table_stats_lookup_count :: uint64
  table_stats_matched_count :: uint64

definition of_table_stats_new :: of_table_stats where
  "of_table_stats_new =
     \<lparr>table_stats_table_id = 0, table_stats_pad = replicate 3 0, table_stats_name = [],
      table_stats_wildcards = 0, table_stats_max_entries = 0, table_stats_active_count = 0,
      table_stats_lookup_count = 0, table_stats_matched_count = 0\<rparr>"

definition of_table_stats_pack :: "of_table_stats \<Rightarrow> bytes" where
  "of_table_stats_pack x =
     store8 (table_stats_table_id x) @ take 3 (table_stats_pad x) @
     strncpy 31 (table_stats_name x) @ store8 0 @ store32 (htonl (table_stats_wildcards x)) @
     store32 (htonl (table_stats_max_entries x)) @ store32 (htonl (table_stats_active_count x)) @
     store64 (htonll (table_stats_lookup_count x)) @ store64 (htonll (table_stats_matched_count x))"

definition of_table_stats_unpack :: "bytes \<Rightarrow> of_table_stats option" where
  "of_table_stats_unpack mem =
     (if length mem < 64 then None
      else Option.bind (c_string (drop 4 mem)) (\<lambda>name.
        Some \<lparr>table_stats_table_id = load8 0 mem, table_stats_pad = take 3 (drop 1 mem), table_stats_name = name,
            table_stats_wildcards = ntohl (load32 36 mem), table_stats_max_entries = ntohl (load32 40 mem),
            table_stats_active_count = ntohl (load32 44 mem),
            table_stats_lookup_count = ntohll (load64 48 mem),
            table_stats_matched_count = ntohll (load64 56 mem)\<rparr>))"

definition of_table_stats_eq :: "of_table_stats \<Rightarrow> of_table_stats \<Rightarrow> bool" where
  "of_table_stats_eq x y \<longleftrightarrow>
     table_stats_table_id x = table_stats_table_id y \<and>
     take 3 (table_stats_pad x) = take 3 (table_stats_pad y) \<and>
     table_stats_name x = table_stats_name y \<and> table_stats_wildcards x = table_stats_wildcards y \<and>
     table_stats_max_entries x = table_stats_max_entries y \<and>
     table_stats_active_count x = table_stats_active_count y \<and>
     table_stats_lookup_count x = table_stats_lookup_count y \<and>
     table_stats_matched_count x = table_stats_matched_count y"

definition of_table_stats_wf :: "of_table_stats \<Rightarrow> bool" where
  "of_table_stats_wf x \<longleftrightarrow> length (table_stats_pad x) = 3 \<and>
     0 \<notin> set (table_stats_name x) \<and> length (table_stats_name x) < 32"

interpretation table_stats: wire_codec of_table_stats_pack of_table_stats_unpack of_table_stats_eq 64 of_table_stats_wf
proof
  show "length (of_table_stats_pack x) = 64" if "of_table_stats_wf x" for x
    using that by (simp add: of_table_stats_pack_def of_table_stats_wf_def codec_length)
  show "of_table_stats_unpack (of_table_stats_pack x @ rest) = Some x" if "of_table_stats_wf x" for x rest
    using that by (simp add: of_table_stats_pack_def of_table_stats_unpack_def of_table_stats_wf_def codec_length codec_unpack byteorder)
  show "of_table_stats_unpack mem = None" if "length mem < 64" for mem
    using that by (simp add: of_table_stats_unpack_def)
  show "of_table_stats_eq x y \<longleftrightarrow> x = y" if "of_table_stats_wf x" "of_table_stats_wf y" for x y
    using that by (cases x; cases y) (simp add: of_table_stats_eq_def of_table_stats_wf_def codec_eq)
qed

lemmas table_stats_codec [codec_length, codec_unpack, codec_eq] = table_stats.length_pack table_stats.unpack_pack table_stats.eq_iff

record of_port_stats_request =
  port_stats_request_port_no :: uint16
  port_stats_request_pad :: bytes

definition of_port_stats_request_new :: of_port_stats_request where
  "of_port_stats_request_new =
     \<lparr>port_stats_request_port_no = 0, port_stats_request_pad = replicate 6 0\<rparr>"

definition of_port_stats_request_pack :: "of_port_stats_request \<Rightarrow> bytes" where
  "of_port_stats_request_pack x =
     store16 (htons (port_stats_request_port_no x)) @ take 6 (port_stats_request_pad x)"

definition of_port_stats_request_unpack :: "bytes \<Rightarrow> of_port_stats_request option" where
  "of_port_stats_request_unpack mem =
     (if length mem < 8 then None
      else Some \<lparr>port_stats_request_port_no = ntohs (load16 0 mem), port_stats_request_pad = take 6 (drop 2 mem)\<rparr>)"

definition of_port_stats_request_eq :: "of_port_stats_request \<Rightarrow> of_port_stats_request \<Rightarrow> bool" where
  "of_port_stats_request_eq x y \<longleftrightarrow>
     port_stats_request_port_no x = port_stats_request_port_no y \<and>
     take 6 (port_stats_request_pad x) = take 6 (port_stats_request_pad y)"

definition of_port_stats_request_wf :: "of_port_stats_request \<Rightarrow> bool" where
  "of_port_stats_request_wf x \<longleftrightarrow> length (port_stats_request_pad x) = 6"

interpretation port_stats_request: wire_bijection of_port_stats_request_pack of_port_stats_request_unpack of_port_stats_request_eq 8 of_port_stats_request_wf
proof
  show "length (of_port_stats_request_pack x) = 8" if "of_port_stats_request_wf x" for x
    using that by (simp add: of_port_stats_request_pack_def of_port_stats_request_wf_def codec_length)
  show "of_port_stats_request_unpack (of_port_stats_request_pack x @ rest) = Some x" if "of_port_stats_request_wf x" for x rest
    using that by (simp add: of_port_stats_request_pack_def of_port_stats_request_unpack_def of_port_stats_request_wf_def codec_length codec_unpack byteorder)
  show "of_port_stats_request_unpack mem = None" if "length mem < 8" for mem
    using that by (simp add: of_port_stats_request_unpack_def)
  show "of_port_stats_request_eq x y \<longleftrightarrow> x = y" if "of_port_stats_request_wf x" "of_port_stats_request_wf y" for x y
    using that by (cases x; cases y) (simp add: of_port_stats_request_eq_def of_port_stats_request_wf_def codec_eq)
  show "\<exists>x. of_port_stats_request_unpack mem = Some x \<and> of_port_stats_request_wf x \<and> of_port_stats_request_pack x = take 8 mem" if len: "8 \<le> length mem" for mem
    using len by (simp add: of_port_stats_request_pack_def of_port_stats_request_unpack_def of_port_stats_request_wf_def codec_chunks)
qed

lemmas port_stats_request_codec [codec_length, codec_unpack, codec_eq] = port_stats_request.length_pack port_stats_request.unpack_pack port_stats_request.eq_iff

record of_port_stats =
  port_stats_port_no :: uint16
  port_stats_pad :: bytes
  port_stats_rx_packets :: uint64
  port_stats_tx_packets :: uint64
  port_stats_rx_bytes :: uint64
  port_stats_tx_bytes :: uint64
  port_stats_rx_dropped :: uint64
  port_stats_tx_dropped :: uint64
  port_stats_rx_errors :: uint64
  port_stats_tx_errors :: uint64
  port_stats_rx_frame_err :: uint64
  port_stats_rx_over_err :: uint64
  port_stats_rx_crc_err :: uint64
  port_stats_collisions :: uint64

definition of_port_stats_new :: of_port_stats where
  "of_port_stats_new =
     \<lparr>port_stats_port_no = 0, port_stats_pad = replicate 6 0, port_stats_rx_packets = 0,
      port_stats_tx_packets = 0, port_stats_rx_bytes = 0, port_stats_tx_bytes = 0, port_stats_rx_dropped = 0,
      port_stats_tx_dropped = 0, port_stats_rx_errors = 0, port_stats_tx_errors = 0,
      port_stats_rx_frame_err = 0, port_stats_rx_over_err = 0, port_stats_rx_crc_err = 0,
      port_stats_collisions = 0\<rparr>"

definition of_port_stats_pack :: "of_port_stats \<Rightarrow> bytes" where
  "of_port_stats_pack x =
     store16 (htons (port_stats_port_no x)) @ take 6 (port_stats_pad x) @
     store64 (htonll (port_stats_rx_packets x)) @ store64 (htonll (port_stats_tx_packets x)) @
     store64 (htonll (port_stats_rx_bytes x)) @ store64 (htonll (port_stats_tx_bytes x)) @
     store64 (htonll (port_stats_rx_dropped x)) @ store64 (htonll (port_stats_tx_dropped x)) @
     store64 (htonll (port_stats_rx_errors x)) @ store64 (htonll (port_stats_tx_errors x)) @
     store64 (htonll (port_stats_rx_frame_err x)) @ store64 (htonll (port_stats_rx_over_err x)) @
     store64 (htonll (port_stats_rx_crc_err x)) @ store64 (htonll (port_stats_collisions x))"

definition of_port_stats_unpack :: "bytes \<Rightarrow> of_port_stats option" where
  "of_port_stats_unpack mem =
     (if length mem < 104 then None
      else Some \<lparr>port_stats_port_no = ntohs (load16 0 mem), port_stats_pad = take 6 (drop 2 mem),
            port_stats_rx_packets = ntohll (load64 8 mem), port_stats_tx_packets = ntohll (load64 16 mem),
            port_stats_rx_bytes = ntohll (load64 24 mem), port_stats_tx_bytes = ntohll (load64 32 mem),
            port_stats_rx_dropped = ntohll (load64 40 mem), port_stats_tx_dropped = ntohll (load64 48 mem),
            port_stats_rx_errors = ntohll (load64 56 mem), port_stats_tx_errors = ntohll (load64 64 mem),
            port_stats_rx_frame_err = ntohll (load64 72 mem), port_stats_rx_over_err = ntohll (load64 80 mem),
            port_stats_rx_crc_err = ntohll (load64 88 mem), port_stats_collisions = ntohll (load64 96 mem)\<rparr>)"

definition of_port_stats_eq :: "of_port_stats \<Rightarrow> of_port_stats \<Rightarrow> bool" where
  "of_port_stats_eq x y \<longleftrightarrow>
     port_stats_port_no x = port_stats_port_no y \<and>
     take 6 (port_stats_pad x) = take 6 (port_stats_pad y) \<and>
     port_stats_rx_packets x = port_stats_rx_packets y \<and>
     port_stats_tx_packets x = port_stats_tx_packets y \<and>
     port_stats_rx_bytes x = port_stats_rx_bytes y \<and> port_stats_tx_bytes x = port_stats_tx_bytes y \<and>
     port_stats_rx_dropped x = port_stats_rx_dropped y \<and>
     port_stats_tx_dropped x = port_stats_tx_dropped y \<and>
     port_stats_rx_errors x = port_stats_rx_errors y \<and>
     port_stats_tx_errors x = port_stats_tx_errors y \<and>
     port_stats_rx_frame_err x = port_stats_rx_frame_err y \<and>
     port_stats_rx_over_err x = port_stats_rx_over_err y \<and>
     port_stats_rx_crc_err x = port_stats_rx_crc_err y \<and> port_stats_collisions x = port_stats_collisions y"

definition of_port_stats_wf :: "of_port_stats \<Rightarrow> bool" where
  "of_port_stats_wf x \<longleftrightarrow> length (port_stats_pad x) = 6"

interpretation port_stats: wire_bijection of_port_stats_pack of_port_stats_unpack of_port_stats_eq 104 of_port_stats_wf
proof
  show "length (of_port_stats_pack x) = 104" if "of_port_stats_wf x" for x
    using that by (simp add: of_port_stats_pack_def of_port_stats_wf_def codec_length)
  show "of_port_stats_unpack (of_port_stats_pack x @ rest) = Some x" if "of_port_stats_wf x" for x rest
    using that by (simp add: of_port_stats_pack_def of_port_stats_unpack_def of_port_stats_wf_def codec_length codec_unpack byteorder)
  show "of_port_stats_unpack mem = None" if "length mem < 104" for mem
    using that by (simp add: of_port_stats_unpack_def)
  show "of_port_stats_eq x y \<longleftrightarrow> x = y" if "of_port_stats_wf x" "of_port_stats_wf y" for x y
    using that by (cases x; cases y) (simp add: of_port_stats_eq_def of_port_stats_wf_def codec_eq)
  show "\<exists>x. of_port_stats_unpack mem = Some x \<and> of_port_stats_wf x \<and> of_port_stats_pack x = take 104 mem" if len: "104 \<le> length mem" for mem
    using len by (simp add: of_port_stats_pack_def of_port_stats_unpack_def of_port_stats_wf_def codec_chunks)
qed

lemmas port_stats_codec [codec_length, codec_unpack, codec_eq] = port_stats.length_pack port_stats.unpack_pack port_stats.eq_iff

record of_queue_stats_request =
  queue_stats_request_port_no :: uint16
  queue_stats_request_pad :: bytes
  queue_stats_request_queue_id :: uint32

definition of_queue_stats_request_new :: of_queue_stats_request where
  "of_queue_stats_request_new =
     \<lparr>queue_stats_request_port_no = 0, queue_stats_request_pad = replicate 2 0, queue_stats_request_queue_id = 0\<rparr>"

definition of_queue_stats_request_pack :: "of_queue_stats_request \<Rightarrow> bytes" where
  "of_queue_stats_request_pack x =
     store16 (htons (queue_stats_request_port_no x)) @ take 2 (queue_stats_request_pad x) @
     store32 (htonl (queue_stats_request_queue_id x))"

definition of_queue_stats_request_unpack :: "bytes \<Rightarrow> of_queue_stats_request option" where
  "of_queue_stats_request_unpack mem =
     (if length mem < 8 then None
      else Some \<lparr>queue_stats_request_port_no = ntohs (load16 0 mem), queue_stats_request_pad = take 2 (drop 2 mem),
            queue_stats_request_queue_id = ntohl (load32 4 mem)\<rparr>)"

definition of_queue_stats_request_eq :: "of_queue_stats_request \<Rightarrow> of_queue_stats_request \<Rightarrow> bool" where
  "of_queue_stats_request_eq x y \<longleftrightarrow>
     queue_stats_request_port_no x = queue_stats_request_port_no y \<and>
     take 2 (queue_stats_request_pad x) = take 2 (queue_stats_request_pad y) \<and>
     queue_stats_request_queue_id x = queue_stats_request_queue_id y"

definition of_queue_stats_request_wf :: "of_queue_stats_request \<Rightarrow> bool" where
  "of_queue_stats_request_wf x \<longleftrightarrow> length (queue_stats_request_pad x) = 2"

interpretation queue_stats_request: wire_bijection of_queue_stats_request_pack of_queue_stats_request_unpack of_queue_stats_request_eq 8 of_queue_stats_request_wf
proof
  show "length (of_queue_stats_request_pack x) = 8" if "of_queue_stats_request_wf x" for x
    using that by (simp add: of_queue_stats_request_pack_def of_queue_stats_request_wf_def codec_length)
  show "of_queue_stats_request_unpack (of_queue_stats_request_pack x @ rest) = Some x" if "of_queue_stats_request_wf x" for x rest
    using that by (simp add: of_queue_stats_request_pack_def of_queue_stats_request_unpack_def of_queue_stats_request_wf_def codec_length codec_unpack byteorder)
  show "of_queue_stats_request_unpack mem = None" if "length mem < 8" for mem
    using that by (simp add: of_queue_stats_request_unpack_def)
  show "of_queue_stats_request_eq x y \<longleftrightarrow> x = y" if "of_queue_stats_request_wf x" "of_queue_stats_request_wf y" for x y
    using that by (cases x; cases y) (simp add: of_queue_stats_request_eq_def of_queue_stats_request_wf_def codec_eq)
  show "\<exists>x. of_queue_stats_request_unpack mem = Some x \<and> of_queue_stats_request_wf x \<and> of_queue_stats_request_pack x = take 8 mem" if len: "8 \<le> length mem" for mem
    using len by (simp add: of_queue_stats_request_pack_def of_queue_stats_request_unpack_def of_queue_stats_request_wf_def codec_chunks)
qed

lemmas queue_stats_request_codec [codec_length, codec_unpack, codec_eq] = queue_stats_request.length_pack queue_stats_request.unpack_pack queue_stats_request.eq_iff

record of_queue_stats =
  queue_stats_port_no :: uint16
  queue_stats_pad :: bytes
  queue_stats_queue_id :: uint32
  queue_stats_tx_bytes :: uint64
  queue_stats_tx_packets :: uint64
  queue_stats_tx_errors :: uint64

definition of_queue_stats_new :: of_queue_stats where
  "of_queue_stats_new =
     \<lparr>queue_stats_port_no = 0, queue_stats_pad = replicate 2 0, queue_stats_queue_id = 0,
      queue_stats_tx_bytes = 0, queue_stats_tx_packets = 0, queue_stats_tx_errors = 0\<rparr>"

definition of_queue_stats_pack :: "of_queue_stats \<Rightarrow> bytes" where
  "of_queue_stats_pack x =
     store16 (htons (queue_stats_port_no x)) @ take 2 (queue_stats_pad x) @
     store32 (htonl (queue_stats_queue_id x)) @ store64 (htonll (queue_stats_tx_bytes x)) @
     store64 (htonll (queue_stats_tx_packets x)) @ store64 (htonll (queue_stats_tx_errors x))"

definition of_queue_stats_unpack :: "bytes \<Rightarrow> of_queue_stats option" where
  "of_queue_stats_unpack mem =
     (if length mem < 32 then None
      else Some \<lparr>queue_stats_port_no = ntohs (load16 0 mem), queue_stats_pad = take 2 (drop 2 mem),
            queue_stats_queue_id = ntohl (load32 4 mem), queue_stats_tx_bytes = ntohll (load64 8 mem),
            queue_stats_tx_packets = ntohll (load64 16 mem), queue_stats_tx_errors = ntohll (load64 24 mem)\<rparr>)"

definition of_queue_stats_eq :: "of_queue_stats \<Rightarrow> of_queue_stats \<Rightarrow> bool" where
  "of_queue_stats_eq x y \<longleftrightarrow>
     queue_stats_port_no x = queue_stats_port_no y \<and>
     take 2 (queue_stats_pad x) = take 2 (queue_stats_pad y) \<and>
     queue_stats_queue_id x = queue_stats_queue_id y \<and>
     queue_stats_tx_bytes x = queue_stats_tx_bytes y \<and>
     queue_stats_tx_packets x = queue_stats_tx_packets y \<and>
     queue_stats_tx_errors x = queue_stats_tx_errors y"

definition of_queue_stats_wf :: "of_queue_stats \<Rightarrow> bool" where
  "of_queue_stats_wf x \<longleftrightarrow> length (queue_stats_pad x) = 2"

interpretation queue_stats: wire_bijection of_queue_stats_pack of_queue_stats_unpack of_queue_stats_eq 32 of_queue_stats_wf
proof
  show "length (of_queue_stats_pack x) = 32" if "of_queue_stats_wf x" for x
    using that by (simp add: of_queue_stats_pack_def of_queue_stats_wf_def codec_length)
  show "of_queue_stats_unpack (of_queue_stats_pack x @ rest) = Some x" if "of_queue_stats_wf x" for x rest
    using that by (simp add: of_queue_stats_pack_def of_queue_stats_unpack_def of_queue_stats_wf_def codec_length codec_unpack byteorder)
  show "of_queue_stats_unpack mem = None" if "length mem < 32" for mem
    using that by (simp add: of_queue_stats_unpack_def)
  show "of_queue_stats_eq x y \<longleftrightarrow> x = y" if "of_queue_stats_wf x" "of_queue_stats_wf y" for x y
    using that by (cases x; cases y) (simp add: of_queue_stats_eq_def of_queue_stats_wf_def codec_eq)
  show "\<exists>x. of_queue_stats_unpack mem = Some x \<and> of_queue_stats_wf x \<and> of_queue_stats_pack x = take 32 mem" if len: "32 \<le> length mem" for mem
    using len by (simp add: of_queue_stats_pack_def of_queue_stats_unpack_def of_queue_stats_wf_def codec_chunks)
qed

lemmas queue_stats_codec [codec_length, codec_unpack, codec_eq] = queue_stats.length_pack queue_stats.unpack_pack queue_stats.eq_iff

record of_packet_queue =
  packet_queue_queue_id :: uint32
  packet_queue_len :: uint16
  packet_queue_pad :: bytes

definition of_packet_queue_new :: of_packet_queue where
  "of_packet_queue_new =
     \<lparr>packet_queue_queue_id = 0, packet_queue_len = 0, packet_queue_pad = replicate 2 0\<rparr>"

definition of_packet_queue_pack :: "of_packet_queue \<Rightarrow> bytes" where
  "of_packet_queue_pack x =
     store32 (htonl (packet_queue_queue_id x)) @ store16 (htons (packet_queue_len x)) @
     take 2 (packet_queue_pad x)"

definition of_packet_queue_unpack :: "bytes \<Rightarrow> of_packet_queue option" where
  "of_packet_queue_unpack mem =
     (if length mem < 8 then None
      else Some \<lparr>packet_queue_queue_id = ntohl (load32 0 mem), packet_queue_len = ntohs (load16 4 mem),
            packet_queue_pad = take 2 (drop 6 mem)\<rparr>)"

definition of_packet_queue_eq :: "of_packet_queue \<Rightarrow> of_packet_queue \<Rightarrow> bool" where
  "of_packet_queue_eq x y \<longleftrightarrow>
     packet_queue_queue_id x = packet_queue_queue_id y \<and> packet_queue_len x = packet_queue_len y \<and>
     take 2 (packet_queue_pad x) = take 2 (packet_queue_pad y)"

definition of_packet_queue_wf :: "of_packet_queue \<Rightarrow> bool" where
  "of_packet_queue_wf x \<longleftrightarrow> length (packet_queue_pad x) = 2"

interpretation packet_queue: wire_bijection of_packet_queue_pack of_packet_queue_unpack of_packet_queue_eq 8 of_packet_queue_wf
proof
  show "length (of_packet_queue_pack x) = 8" if "of_packet_queue_wf x" for x
    using that by (simp add: of_packet_queue_pack_def of_packet_queue_wf_def codec_length)
  show "of_packet_queue_unpack (of_packet_queue_pack x @ rest) = Some x" if "of_packet_queue_wf x" for x rest
    using that by (simp add: of_packet_queue_pack_def of_packet_queue_unpack_def of_packet_queue_wf_def codec_length codec_unpack byteorder)
  show "of_packet_queue_unpack mem = None" if "length mem < 8" for mem
    using that by (simp add: of_packet_queue_unpack_def)
  show "of_packet_queue_eq x y \<longleftrightarrow> x = y" if "of_packet_queue_wf x" "of_packet_queue_wf y" for x y
    using that by (cases x; cases y) (simp add: of_packet_queue_eq_def of_packet_queue_wf_def codec_eq)
  show "\<exists>x. of_packet_queue_unpack mem = Some x \<and> of_packet_queue_wf x \<and> of_packet_queue_pack x = take 8 mem" if len: "8 \<le> length mem" for mem
    using len by (simp add: of_packet_queue_pack_def of_packet_queue_unpack_def of_packet_queue_wf_def codec_chunks)
qed

lemmas packet_queue_codec [codec_length, codec_unpack, codec_eq] = packet_queue.length_pack packet_queue.unpack_pack packet_queue.eq_iff

record of_queue_prop_min_rate =
  queue_prop_min_rate_prop_header :: of_queue_prop_header
  queue_prop_min_rate_rate :: uint16
  queue_prop_min_rate_pad :: bytes

definition of_queue_prop_min_rate_new :: of_queue_prop_min_rate where
  "of_queue_prop_min_rate_new =
     \<lparr>queue_prop_min_rate_prop_header = of_queue_prop_header_new, queue_prop_min_rate_rate = 0,
      queue_prop_min_rate_pad = replicate 6 0\<rparr>"

definition of_queue_prop_min_rate_pack :: "of_queue_prop_min_rate \<Rightarrow> bytes" where
  "of_queue_prop_min_rate_pack x =
     of_queue_prop_header_pack (queue_prop_min_rate_prop_header x) @
     store16 (htons (queue_prop_min_rate_rate x)) @ take 6 (queue_prop_min_rate_pad x)"

definition of_queue_prop_min_rate_unpack :: "bytes \<Rightarrow> of_queue_prop_min_rate option" where
  "of_queue_prop_min_rate_unpack mem =
     (if length mem < 16 then None
      else Option.bind (of_queue_prop_header_unpack mem) (\<lambda>prop_header.
        Some \<lparr>queue_prop_min_rate_prop_header = prop_header, queue_prop_min_rate_rate = ntohs (load16 8 mem),
            queue_prop_min_rate_pad = take 6 (drop 10 mem)\<rparr>))"

definition of_queue_prop_min_rate_eq :: "of_queue_prop_min_rate \<Rightarrow> of_queue_prop_min_rate \<Rightarrow> bool" where
  "of_queue_prop_min_rate_eq x y \<longleftrightarrow>
     of_queue_prop_header_eq (queue_prop_min_rate_prop_header x) (queue_prop_min_rate_prop_header y) \<and>
     queue_prop_min_rate_rate x = queue_prop_min_rate_rate y \<and>
     take 6 (queue_prop_min_rate_pad x) = take 6 (queue_prop_min_rate_pad y)"

definition of_queue_prop_min_rate_wf :: "of_queue_prop_min_rate \<Rightarrow> bool" where
  "of_queue_prop_min_rate_wf x \<longleftrightarrow> of_queue_prop_header_wf (queue_prop_min_rate_prop_header x) \<and> length (queue_prop_min_rate_pad x) = 6"

interpretation queue_prop_min_rate: wire_bijection of_queue_prop_min_rate_pack of_queue_prop_min_rate_unpack of_queue_prop_min_rate_eq 16 of_queue_prop_min_rate_wf
proof
  show "length (of_queue_prop_min_rate_pack x) = 16" if "of_queue_prop_min_rate_wf x" for x
    using that by (simp add: of_queue_prop_min_rate_pack_def of_queue_prop_min_rate_wf_def codec_length)
  show "of_queue_prop_min_rate_unpack (of_queue_prop_min_rate_pack x @ rest) = Some x" if "of_queue_prop_min_rate_wf x" for x rest
    using that by (simp add: of_queue_prop_min_rate_pack_def of_queue_prop_min_rate_unpack_def of_queue_prop_min_rate_wf_def codec_length codec_unpack byteorder)
  show "of_queue_prop_min_rate_unpack mem = None" if "length mem < 16" for mem
    using that by (simp add: of_queue_prop_min_rate_unpack_def)
  show "of_queue_prop_min_rate_eq x y \<longleftrightarrow> x = y" if "of_queue_prop_min_rate_wf x" "of_queue_prop_min_rate_wf y" for x y
    using that by (cases x; cases y) (simp add: of_queue_prop_min_rate_eq_def of_queue_prop_min_rate_wf_def codec_eq)
  show "\<exists>x. of_queue_prop_min_rate_unpack mem = Some x \<and> of_queue_prop_min_rate_wf x \<and> of_queue_prop_min_rate_pack x = take 16 mem" if len: "16 \<le> length mem" for mem
  proof -
    obtain prop_header where prop_header_ok: "of_queue_prop_header_unpack mem = Some prop_header" "of_queue_prop_header_wf prop_header" "of_queue_prop_header_pack prop_header = take 8 mem"
      using len queue_prop_header.pack_unpack_at [of 0 mem] by auto
    from len prop_header_ok show ?thesis
      by (simp add: of_queue_prop_min_rate_pack_def of_queue_prop_min_rate_unpack_def of_queue_prop_min_rate_wf_def codec_chunks)
  qed
qed

lemmas queue_prop_min_rate_codec [codec_length, codec_unpack, codec_eq] = queue_prop_min_rate.length_pack queue_prop_min_rate.unpack_pack queue_prop_min_rate.eq_iff

end
