(* ===== verification/Nox_Ofpack_Msg.thy ===== *)
theory Nox_Ofpack_Msg
  imports Nox_Ofpack
begin

text \<open>The structures of OpenFlow messages.  See \<^verbatim>\<open>src/src/lib/openflow-pack-raw.cc\<close>.\<close>

record of_hello =
  hello_header :: of_header

definition of_hello_new :: of_hello where
  "of_hello_new =
     \<lparr>hello_header = of_header_new\<lparr>header_type := 0\<rparr>\<rparr>"

definition of_hello_pack :: "of_hello \<Rightarrow> bytes" where
  "of_hello_pack x =
     of_header_pack (hello_header x)"

definition of_hello_unpack :: "bytes \<Rightarrow> of_hello option" where
  "of_hello_unpack mem =
     (if length mem < 8 then None
      else Option.bind (of_header_unpack mem) (\<lambda>header.
        Some \<lparr>hello_header = header\<rparr>))"

definition of_hello_eq :: "of_hello \<Rightarrow> of_hello \<Rightarrow> bool" where
  "of_hello_eq x y \<longleftrightarrow>
     of_header_eq (hello_header x) (hello_header y)"

definition of_hello_wf :: "of_hello \<Rightarrow> bool" where
  "of_hello_wf x \<longleftrightarrow> of_header_wf (hello_header x)"

interpretation hello: wire_bijection of_hello_pack of_hello_unpack of_hello_eq 8 of_hello_wf
proof
  show "length (of_hello_pack x) = 8" if "of_hello_wf x" for x
    using that by (simp add: of_hello_pack_def of_hello_wf_def codec_length)
  show "of_hello_unpack (of_hello_pack x @ rest) = Some x" if "of_hello_wf x" for x rest
    using that by (simp add: of_hello_pack_def of_hello_unpack_def of_hello_wf_def codec_length codec_unpack byteorder)
  show "of_hello_unpack mem = None" if "length mem < 8" for mem
    using that by (simp add: of_hello_unpack_def)
  show "of_hello_eq x y \<longleftrightarrow> x = y" if "of_hello_wf x" "of_hello_wf y" for x y
    using that by (cases x; cases y) (simp add: of_hello_eq_def of_hello_wf_def codec_eq)
  show "\<exists>x. of_hello_unpack mem = Some x \<and> of_hello_wf x \<and> of_hello_pack x = take 8 mem" if len: "8 \<le> length mem" for mem
  proof -
    obtain header where header_ok: "of_header_unpack mem = Some header" "of_header_wf header" "of_header_pack header = take 8 mem"
      using len header.pack_unpack_at [of 0 mem] by auto
    from len header_ok show ?thesis
      by (simp add: of_hello_pack_def of_hello_unpack_def of_hello_wf_def codec_chunks)
  qed
qed

lemmas hello_codec [codec_length, codec_unpack, codec_eq] = hello.length_pack hello.unpack_pack hello.eq_iff

record of_error_msg =
  error_msg_header :: of_header
  error_msg_type :: uint16
  error_msg_code :: uint16

definition of_error_msg_new :: of_error_msg where
  "of_error_msg_new =
     \<lparr>error_msg_header = of_header_new\<lparr>header_type := 1\<rparr>, error_msg_type = 0, error_msg_code = 0\<rparr>"

definition of_error_msg_pack :: "of_error_msg \<Rightarrow> bytes" where
  "of_error_msg_pack x =
     of_header_pack (error_msg_header x) @ store16 (htons (error_msg_type x)) @
     store16 (htons (error_msg_code x))"

definition of_error_msg_unpack :: "bytes \<Rightarrow> of_error_msg option" where
  "of_error_msg_unpack mem =
     (if length mem < 12 then None
      else Option.bind (of_header_unpack mem) (\<lambda>header.
        Some \<lparr>error_msg_header = header, error_msg_type = ntohs (load16 8 mem),
            error_msg_code = ntohs (load16 10 mem)\<rparr>))"

definition of_error_msg_eq :: "of_error_msg \<Rightarrow> of_error_msg \<Rightarrow> bool" where
  "of_error_msg_eq x y \<longleftrightarrow>
     of_header_eq (error_msg_header x) (error_msg_header y) \<and> error_msg_type x = error_msg_type y \<and>
     error_msg_code x = error_msg_code y"

definition of_error_msg_wf :: "of_error_msg \<Rightarrow> bool" where
  "of_error_msg_wf x \<longleftrightarrow> of_header_wf (error_msg_header x)"

interpretation error_msg: wire_bijection of_error_msg_pack of_error_msg_unpack of_error_msg_eq 12 of_error_msg_wf
proof
  show "length (of_error_msg_pack x) = 12" if "of_error_msg_wf x" for x
    using that by (simp add: of_error_msg_pack_def of_error_msg_wf_def codec_length)
  show "of_error_msg_unpack (of_error_msg_pack x @ rest) = Some x" if "of_error_msg_wf x" for x rest
    using that by (simp add: of_error_msg_pack_def of_error_msg_unpack_def of_error_msg_wf_def codec_length codec_unpack byteorder)
  show "of_error_msg_unpack mem = None" if "length mem < 12" for mem
    using that by (simp add: of_error_msg_unpack_def)
  show "of_error_msg_eq x y \<longleftrightarrow> x = y" if "of_error_msg_wf x" "of_error_msg_wf y" for x y
    using that by (cases x; cases y) (simp add: of_error_msg_eq_def of_error_msg_wf_def codec_eq)
  show "\<exists>x. of_error_msg_unpack mem = Some x \<and> of_error_msg_wf x \<and> of_error_msg_pack x = take 12 mem" if len: "12 \<le> length mem" for mem
  proof -
    obtain header where header_ok: "of_header_unpack mem = Some header" "of_header_wf header" "of_header_pack header = take 8 mem"
      using len header.pack_unpack_at [of 0 mem] by auto
    from len header_ok show ?thesis
      by (simp add: of_error_msg_pack_def of_error_msg_unpack_def of_error_msg_wf_def codec_chunks)
  qed
qed

lemmas error_msg_codec [codec_length, codec_unpack, codec_eq] = error_msg.length_pack error_msg.unpack_pack error_msg.eq_iff

record of_vendor_header =
  vendor_header_header :: of_header
  vendor_header_vendor :: uint32

definition of_vendor_header_new :: of_vendor_header where
  "of_vendor_header_new =
     \<lparr>vendor_header_header = of_header_new\<lparr>header_type := 4\<rparr>, vendor_header_vendor = 0\<rparr>"

definition of_vendor_header_pack :: "of_vendor_header \<Rightarrow> bytes" where
  "of_vendor_header_pack x =
     of_header_pack (vendor_header_header x) @ store32 (htonl (vendor_header_vendor x))"

definition of_vendor_header_unpack :: "bytes \<Rightarrow> of_vendor_header option" where
  "of_vendor_header_unpack mem =
     (if length mem < 12 then None
      else Option.bind (of_header_unpack mem) (\<lambda>header.
        Some \<lparr>vendor_header_header = header, vendor_header_vendor = ntohl (load32 8 mem)\<rparr>))"

definition of_vendor_header_eq :: "of_vendor_header \<Rightarrow> of_vendor_header \<Rightarrow> bool" where
  "of_vendor_header_eq x y \<longleftrightarrow>
     of_header_eq (vendor_header_header x) (vendor_header_header y) \<and>
     vendor_header_vendor x = vendor_header_vendor y"

definition of_vendor_header_wf :: "of_vendor_header \<Rightarrow> bool" where
  "of_vendor_header_wf x \<longleftrightarrow> of_header_wf (vendor_header_header x)"

interpretation vendor_header: wire_bijection of_vendor_header_pack of_vendor_header_unpack of_vendor_header_eq 12 of_vendor_header_wf
proof
  show "length (of_vendor_header_pack x) = 12" if "of_vendor_header_wf x" for x
    using that by (simp add: of_vendor_header_pack_def of_vendor_header_wf_def codec_length)
  show "of_vendor_header_unpack (of_vendor_header_pack x @ rest) = Some x" if "of_vendor_header_wf x" for x rest
    using that by (simp add: of_vendor_header_pack_def of_vendor_header_unpack_def of_vendor_header_wf_def codec_length codec_unpack byteorder)
  show "of_vendor_header_unpack mem = None" if "length mem < 12" for mem
    using that by (simp add: of_vendor_header_unpack_def)
  show "of_vendor_header_eq x y \<longleftrightarrow> x = y" if "of_vendor_header_wf x" "of_vendor_header_wf y" for x y
    using that by (cases x; cases y) (simp add: of_vendor_header_eq_def of_vendor_header_wf_def codec_eq)
  show "\<exists>x. of_vendor_header_unpack mem = Some x \<and> of_vendor_header_wf x \<and> of_vendor_header_pack x = take 12 mem" if len: "12 \<le> length mem" for mem
  proof -
    obtain header where header_ok: "of_header_unpack mem = Some header" "of_header_wf header" "of_header_pack header = take 8 mem"
      using len header.pack_unpack_at [of 0 mem] by auto
    from len header_ok show ?thesis
      by (simp add: of_vendor_header_pack_def of_vendor_header_unpack_def of_vendor_header_wf_def codec_chunks)
  qed
qed

lemmas vendor_header_codec [codec_length, codec_unpack, codec_eq] = vendor_header.length_pack vendor_header.unpack_pack vendor_header.eq_iff

record of_switch_features =
  switch_features_header :: of_header
  switch_features_datapath_id :: uint64
  switch_features_n_buffers :: uint32
  switch_features_n_tables :: uint8
  switch_features_pad :: bytes
  switch_features_capabilities :: uint32
  switch_features_actions :: uint32

definition of_switch_features_new :: of_switch_features where
  "of_switch_features_new =
     \<lparr>switch_features_header = of_header_new\<lparr>header_type := 6\<rparr>, switch_features_datapath_id = 0,
      switch_features_n_buffers = 0, switch_features_n_tables = 0, switch_features_pad = replicate 3 0,
      switch_features_capabilities = 0, switch_features_actions = 0\<rparr>"

definition of_switch_features_pack :: "of_switch_features \<Rightarrow> bytes" where
  "of_switch_features_pack x =
     of_header_pack (switch_features_header x) @ store64 (htonll (switch_features_datapath_id x)) @
     store32 (htonl (switch_features_n_buffers x)) @ store8 (switch_features_n_tables x) @
     take 3 (switch_features_pad x) @ store32 (htonl (switch_features_capabilities x)) @
     store32 (htonl (switch_features_actions x))"

definition of_switch_features_unpack :: "bytes \<Rightarrow> of_switch_features option" where
  "of_switch_features_unpack mem =
     (if length mem < 32 then None
      else Option.bind (of_header_unpack mem) (\<lambda>header.
        Some \<lparr>switch_features_header = header, switch_features_datapath_id = ntohll (load64 8 mem),
            switch_features_n_buffers = ntohl (load32 16 mem), switch_features_n_tables = load8 20 mem,
            switch_features_pad = take 3 (drop 21 mem), switch_features_capabilities = ntohl (load32 24 mem),
            switch_features_actions = ntohl (load32 28 mem)\<rparr>))"

definition of_switch_features_eq :: "of_switch_features \<Rightarrow> of_switch_features \<Rightarrow> bool" where
  "of_switch_features_eq x y \<longleftrightarrow>
     of_header_eq (switch_features_header x) (switch_features_header y) \<and>
     switch_features_datapath_id x = switch_features_datapath_id y \<and>
     switch_features_n_buffers x = switch_features_n_buffers y \<and>
     switch_features_n_tables x = switch_features_n_tables y \<and>
     take 3 (switch_features_pad x) = take 3 (switch_features_pad y) \<and>
     switch_features_capabilities x = switch_features_capabilities y \<and>
     switch_features_actions x = switch_features_actions y"

definition of_switch_features_wf :: "of_switch_features \<Rightarrow> bool" where
  "of_switch_features_wf x \<longleftrightarrow> of_header_wf (switch_features_header x) \<and> length (switch_features_pad x) = 3"

interpretation switch_features: wire_bijection of_switch_features_pack of_switch_features_unpack of_switch_features_eq 32 of_switch_features_wf
proof
  show "length (of_switch_features_pack x) = 32" if "of_switch_features_wf x" for x
    using that by (simp add: of_switch_features_pack_def of_switch_features_wf_def codec_length)
  show "of_switch_features_unpack (of_switch_features_pack x @ rest) = Some x" if "of_switch_features_wf x" for x rest
    using that by (simp add: of_switch_features_pack_def of_switch_features_unpack_def of_switch_features_wf_def codec_length codec_unpack byteorder)
  show "of_switch_features_unpack mem = None" if "length mem < 32" for mem
    using that by (simp add: of_switch_features_unpack_def)
  show "of_switch_features_eq x y \<longleftrightarrow> x = y" if "of_switch_features_wf x" "of_switch_features_wf y" for x y
    using that by (cases x; cases y) (simp add: of_switch_features_eq_def of_switch_features_wf_def codec_eq)
  show "\<exists>x. of_switch_features_unpack mem = Some x \<and> of_switch_features_wf x \<and> of_switch_features_pack x = take 32 mem" if len: "32 \<le> length mem" for mem
  proof -
    obtain header where header_ok: "of_header_unpack mem = Some header" "of_header_wf header" "of_header_pack header = take 8 mem"
      using len header.pack_unpack_at [of 0 mem] by auto
    from len header_ok show ?thesis
      by (simp add: of_switch_features_pack_def of_switch_features_unpack_def of_switch_features_wf_def codec_chunks)
  qed
qed

lemmas switch_features_codec [codec_length, codec_unpack, codec_eq] = switch_features.length_pack switch_features.unpack_pack switch_features.eq_iff

record of_switch_config =
  switch_config_header :: of_header
  switch_config_flags :: uint16
  switch_config_miss_send_len :: uint16

definition of_switch_config_new :: of_switch_config where
  "of_switch_config_new =
     \<lparr>switch_config_header = of_header_new, switch_config_flags = 0, switch_config_miss_send_len = 128\<rparr>"

definition of_switch_config_pack :: "of_switch_config \<Rightarrow> bytes" where
  "of_switch_config_pack x =
     of_header_pack (switch_config_header x) @ store16 (htons (switch_config_flags x)) @
     store16 (htons (switch_config_miss_send_len x))"

definition of_switch_config_unpack :: "bytes \<Rightarrow> of_switch_config option" where
  "of_switch_config_unpack mem =
     (if length mem < 12 then None
      else Option.bind (of_header_unpack mem) (\<lambda>header.
        Some \<lparr>switch_config_header = header, switch_config_flags = ntohs (load16 8 mem),
            switch_config_miss_send_len = ntohs (load16 10 mem)\<rparr>))"

definition of_switch_config_eq :: "of_switch_config \<Rightarrow> of_switch_config \<Rightarrow> bool" where
  "of_switch_config_eq x y \<longleftrightarrow>
     of_header_eq (switch_config_header x) (switch_config_header y) \<and>
     switch_config_flags x = switch_config_flags y \<and>
     switch_config_miss_send_len x = switch_config_miss_send_len y"

definition of_switch_config_wf :: "of_switch_config \<Rightarrow> bool" where
  "of_switch_config_wf x \<longleftrightarrow> of_header_wf (switch_config_header x)"

interpretation switch_config: wire_bijection of_switch_config_pack of_switch_config_unpack of_switch_config_eq 12 of_switch_config_wf
proof
  show "length (of_switch_config_pack x) = 12" if "of_switch_config_wf x" for x
    using that by (simp add: of_switch_config_pack_def of_switch_config_wf_def codec_length)
  show "of_switch_config_unpack (of_switch_config_pack x @ rest) = Some x" if "of_switch_config_wf x" for x rest
    using that by (simp add: of_switch_config_pack_def of_switch_config_unpack_def of_switch_config_wf_def codec_length codec_unpack byteorder)
  show "of_switch_config_unpack mem = None" if "length mem < 12" for mem
    using that by (simp add: of_switch_config_unpack_def)
  show "of_switch_config_eq x y \<longleftrightarrow> x = y" if "of_switch_config_wf x" "of_switch_config_wf y" for x y
    using that by (cases x; cases y) (simp add: of_switch_config_eq_def of_switch_config_wf_def codec_eq)
  show "\<exists>x. of_switch_config_unpack mem = Some x \<and> of_switch_config_wf x \<and> of_switch_config_pack x = take 12 mem" if len: "12 \<le> length mem" for mem
  proof -
    obtain header where header_ok: "of_header_unpack mem = Some header" "of_header_wf header" "of_header_pack header = take 8 mem"
      using len header.pack_unpack_at [of 0 mem] by auto
    from len header_ok show ?thesis
      by (simp add: of_switch_config_pack_def of_switch_config_unpack_def of_switch_config_wf_def codec_chunks)
  qed
qed

lemmas switch_config_codec [codec_length, codec_unpack, codec_eq] = switch_config.length_pack switch_config.unpack_pack switch_config.eq_iff

record of_packet_in =
  packet_in_header :: of_header
  packet_in_buffer_id :: uint32
  packet_in_total_len :: uint16
  packet_in_in_port :: uint16
  packet_in_reason :: uint8
  packet_in_pad :: uint8

definition of_packet_in_new :: of_packet_in where
  "of_packet_in_new =
     \<lparr>packet_in_header = of_header_new\<lparr>header_type := 10\<rparr>, packet_in_buffer_id = 0,
      packet_in_total_len = 0, packet_in_in_port = 0, packet_in_reason = 0, packet_in_pad = 0\<rparr>"

definition of_packet_in_pack :: "of_packet_in \<Rightarrow> bytes" where
  "of_packet_in_pack x =
     of_header_pack (packet_in_header x) @ store32 (htonl (packet_in_buffer_id x)) @
     store16 (htons (packet_in_total_len x)) @ store16 (htons (packet_in_in_port x)) @
     store8 (packet_in_reason x) @ store8 (packet_in_pad x)"

definition of_packet_in_unpack :: "bytes \<Rightarrow> of_packet_in option" where
  "of_packet_in_unpack mem =
     (if length mem < 18 then None
      else Option.bind (of_header_unpack mem) (\<lambda>header.
        Some \<lparr>packet_in_header = header, packet_in_buffer_id = ntohl (load32 8 mem),
            packet_in_total_len = ntohs (load16 12 mem), packet_in_in_port = ntohs (load16 14 mem),
            packet_in_reason = load8 16 mem, packet_in_pad = load8 17 mem\<rparr>))"

definition of_packet_in_eq :: "of_packet_in \<Rightarrow> of_packet_in \<Rightarrow> bool" where
  "of_packet_in_eq x y \<longleftrightarrow>
     of_header_eq (packet_in_header x) (packet_in_header y) \<and>
     packet_in_buffer_id x = packet_in_buffer_id y \<and> packet_in_total_len x = packet_in_total_len y \<and>
     packet_in_in_port x = packet_in_in_port y \<and> packet_in_reason x = packet_in_reason y \<and>
     packet_in_pad x = packet_in_pad y"

definition of_packet_in_wf :: "of_packet_in \<Rightarrow> bool" where
  "of_packet_in_wf x \<longleftrightarrow> of_header_wf (packet_in_header x)"

interpretation packet_in: wire_bijection of_packet_in_pack of_packet_in_unpack of_packet_in_eq 18 of_packet_in_wf
proof
  show "length (of_packet_in_pack x) = 18" if "of_packet_in_wf x" for x
    using that by (simp add: of_packet_in_pack_def of_packet_in_wf_def codec_length)
  show "of_packet_in_unpack (of_packet_in_pack x @ rest) = Some x" if "of_packet_in_wf x" for x rest
    using that by (simp add: of_packet_in_pack_def of_packet_in_unpack_def of_packet_in_wf_def codec_length codec_unpack byteorder)
  show "of_packet_in_unpack mem = None" if "length mem < 18" for mem
    using that by (simp add: of_packet_in_unpack_def)
  show "of_packet_in_eq x y \<longleftrightarrow> x = y" if "of_packet_in_wf x" "of_packet_in_wf y" for x y
    using that by (cases x; cases y) (simp add: of_packet_in_eq_def of_packet_in_wf_def codec_eq)
  show "\<exists>x. of_packet_in_unpack mem = Some x \<and> of_packet_in_wf x \<and> of_packet_in_pack x = take 18 mem" if len: "18 \<le> length mem" for mem
  proof -
    obtain header where header_ok: "of_header_unpack mem = Some header" "of_header_wf header" "of_header_pack header = take 8 mem"
      using len header.pack_unpack_at [of 0 mem] by auto
    from len header_ok show ?thesis
      by (simp add: of_packet_in_pack_def of_packet_in_unpack_def of_packet_in_wf_def codec_chunks)
  qed
qed

lemmas packet_in_codec [codec_length, codec_unpack, codec_eq] = packet_in.length_pack packet_in.unpack_pack packet_in.eq_iff

record of_flow_removed =
  flow_removed_header :: of_header
  flow_removed_match :: of_match
  flow_removed_cookie :: uint64
  flow_removed_priority :: uint16
  flow_removed_reason :: uint8
  flow_removed_pad :: bytes
  flow_removed_duration_sec :: uint32
  flow_removed_duration_nsec :: uint32
  flow_removed_idle_timeout :: uint16
  flow_removed_pad2 :: bytes
  flow_removed_packet_count :: uint64
  flow_removed_byte_count :: uint64

definition of_flow_removed_new :: of_flow_removed where
  "of_flow_removed_new =
     \<lparr>flow_removed_header = of_header_new\<lparr>header_type := 11\<rparr>, flow_removed_match = of_match_new,
      flow_removed_cookie = 0, flow_removed_priority = 0, flow_removed_reason = 0,
      flow_removed_pad = replicate 1 0, flow_removed_duration_sec = 0, flow_removed_duration_nsec = 0,
      flow_removed_idle_timeout = 0, flow_removed_pad2 = replicate 2 0, flow_removed_packet_count = 0,
      flow_removed_byte_count = 0\<rparr>"

definition of_flow_removed_pack :: "of_flow_removed \<Rightarrow> bytes" where
  "of_flow_removed_pack x =
     of_header_pack (flow_removed_header x) @ of_match_pack (flow_removed_match x) @
     store64 (htonll (flow_removed_cookie x)) @ store16 (htons (flow_removed_priority x)) @
     store8 (flow_removed_reason x) @ take 1 (flow_removed_pad x) @
     store32 (htonl (flow_removed_duration_sec x)) @ store32 (htonl (flow_removed_duration_nsec x)) @
     store16 (htons (flow_removed_idle_timeout x)) @ take 2 (flow_removed_pad2 x) @
     store64 (htonll (flow_removed_packet_count x)) @ store64 (htonll (flow_removed_byte_count x))"

definition of_flow_removed_unpack :: "bytes \<Rightarrow> of_flow_removed option" where
  "of_flow_removed_unpack mem =
     (if length mem < 88 then None
      else Option.bind (of_header_unpack mem) (\<lambda>header.
        Option.bind (of_match_unpack (drop 8 mem)) (\<lambda>match.
        Some \<lparr>flow_removed_header = header, flow_removed_match = match,
            flow_removed_cookie = ntohll (load64 48 mem), flow_removed_priority = ntohs (load16 56 mem),
            flow_removed_reason = load8 58 mem, flow_removed_pad = take 1 (drop 59 mem),
            flow_removed_duration_sec = ntohl (load32 60 mem),
            flow_removed_duration_nsec = ntohl (load32 64 mem),
            flow_removed_idle_timeout = ntohs (load16 68 mem), flow_removed_pad2 = take 2 (drop 70 mem),
            flow_removed_packet_count = ntohll (load64 72 mem), flow_removed_byte_count = ntohll (load64 80 mem)\<rparr>)))"

definition of_flow_removed_eq :: "of_flow_removed \<Rightarrow> of_flow_removed \<Rightarrow> bool" where
  "of_flow_removed_eq x y \<longleftrightarrow>
     of_header_eq (flow_removed_header x) (flow_removed_header y) \<and>
     of_match_eq (flow_removed_match x) (flow_removed_match y) \<and>
     flow_removed_cookie x = flow_removed_cookie y \<and>
     flow_removed_priority x = flow_removed_priority y \<and>
     flow_removed_reason x = flow_removed_reason y \<and>
     take 1 (flow_removed_pad x) = take 1 (flow_removed_pad y) \<and>
     flow_removed_duration_sec x = flow_removed_duration_sec y \<and>
     flow_removed_duration_nsec x = flow_removed_duration_nsec y \<and>
     flow_removed_idle_timeout x = flow_removed_idle_timeout y \<and>
     take 2 (flow_removed_pad2 x) = take 2 (flow_removed_pad2 y) \<and>
     flow_removed_packet_count x = flow_removed_packet_count y \<and>
     flow_removed_byte_count x = flow_removed_byte_count y"

definition of_flow_removed_wf :: "of_flow_removed \<Rightarrow> bool" where
  "of_flow_removed_wf x \<longleftrightarrow> of_header_wf (flow_removed_header x) \<and> of_match_wf (flow_removed_match x) \<and>
     length (flow_removed_pad x) = 1 \<and> length (flow_removed_pad2 x) = 2"

interpretation flow_removed: wire_bijection of_flow_removed_pack of_flow_removed_unpack of_flow_removed_eq 88 of_flow_removed_wf
proof
  show "length (of_flow_removed_pack x) = 88" if "of_flow_removed_wf x" for x
    using that by (simp add: of_flow_removed_pack_def of_flow_removed_wf_def codec_length)
  show "of_flow_removed_unpack (of_flow_removed_pack x @ rest) = Some x" if "of_flow_removed_wf x" for x rest
    using that by (simp add: of_flow_removed_pack_def of_flow_removed_unpack_def of_flow_removed_wf_def codec_length codec_unpack byteorder)
  show "of_flow_removed_unpack mem = None" if "length mem < 88" for mem
    using that by (simp add: of_flow_removed_unpack_def)
  show "of_flow_removed_eq x y \<longleftrightarrow> x = y" if "of_flow_removed_wf x" "of_flow_removed_wf y" for x y
    using that by (cases x; cases y) (simp add: of_flow_removed_eq_def of_flow_removed_wf_def codec_eq)
  show "\<exists>x. of_flow_removed_unpack mem = Some x \<and> of_flow_removed_wf x \<and> of_flow_removed_pack x = take 88 mem" if len: "88 \<le> length mem" for mem
  proof -
    obtain header where header_ok: "of_header_unpack mem = Some header" "of_header_wf header" "of_header_pack header = take 8 mem"
      using len header.pack_unpack_at [of 0 mem] by auto
    obtain match where match_ok: "of_match_unpack (drop 8 mem) = Some match" "of_match_wf match" "of_match_pack match = take 40 (drop 8 mem)"
      using len match.pack_unpack_at [of 8 mem] by auto
    from len header_ok match_ok show ?thesis
      by (simp add: of_flow_removed_pack_def of_flow_removed_unpack_def of_flow_removed_wf_def codec_chunks)
  qed
qed

lemmas flow_removed_codec [codec_length, codec_unpack, codec_eq] = flow_removed.length_pack flow_removed.unpack_pack flow_removed.eq_iff

record of_port_status =
  port_status_header :: of_header
  port_status_reason :: uint8
  port_status_pad :: bytes
  port_status_desc :: of_phy_port

definition of_port_status_new :: of_port_status where
  "of_port_status_new =
     \<lparr>port_status_header = of_header_new\<lparr>header_type := 12\<rparr>, port_status_reason = 0,
      port_status_pad = replicate 7 0, port_status_desc = of_phy_port_new\<rparr>"

definition of_port_status_pack :: "of_port_status \<Rightarrow> bytes" where
  "of_port_status_pack x =
     of_header_pack (port_status_header x) @ store8 (port_status_reason x) @ take 7 (port_status_pad x) @
     of_phy_port_pack (port_status_desc x)"

definition of_port_status_unpack :: "bytes \<Rightarrow> of_port_status option" where
  "of_port_status_unpack mem =
     (if length mem < 64 then None
      else Option.bind (of_header_unpack mem) (\<lambda>header.
        Option.bind (of_phy_port_unpack (drop 16 mem)) (\<lambda>desc.
        Some \<lparr>port_status_header = header, port_status_reason = load8 8 mem,
            port_status_pad = take 7 (drop 9 mem), port_status_desc = desc\<rparr>)))"

definition of_port_status_eq :: "of_port_status \<Rightarrow> of_port_status \<Rightarrow> bool" where
  "of_port_status_eq x y \<longleftrightarrow>
     of_header_eq (port_status_header x) (port_status_header y) \<and>
     port_status_reason x = port_status_reason y \<and>
     take 7 (port_status_pad x) = take 7 (port_status_pad y) \<and>
     of_phy_port_eq (port_status_desc x) (port_status_desc y)"

definition of_port_status_wf :: "of_port_status \<Rightarrow> bool" where
  "of_port_status_wf x \<longleftrightarrow> of_header_wf (port_status_header x) \<and> length (port_status_pad x) = 7 \<and>
     of_phy_port_wf (port_status_desc x)"

interpretation port_status: wire_codec of_port_status_pack of_port_status_unpack of_port_status_eq 64 of_port_status_wf
proof
  show "length (of_port_status_pack x) = 64" if "of_port_status_wf x" for x
    using that by (simp add: of_port_status_pack_def of_port_status_wf_def codec_length)
  show "of_port_status_unpack (of_port_status_pack x @ rest) = Some x" if "of_port_status_wf x" for x rest
    using that by (simp add: of_port_status_pack_def of_port_status_unpack_def of_port_status_wf_def codec_length codec_unpack byteorder)
  show "of_port_status_unpack mem = None" if "length mem < 64" for mem
    using that by (simp add: of_port_status_unpack_def)
  show "of_port_status_eq x y \<longleftrightarrow> x = y" if "of_port_status_wf x" "of_port_status_wf y" for x y
    using that by (cases x; cases y) (simp add: of_port_status_eq_def of_port_status_wf_def codec_eq)
qed

lemmas port_status_codec [codec_length, codec_unpack, codec_eq] = port_status.length_pack port_status.unpack_pack port_status.eq_iff

record of_packet_out =
  packet_out_header :: of_header
  packet_out_buffer_id :: uint32
  packet_out_in_port :: uint16
  packet_out_actions_len :: uint16

definition of_packet_out_new :: of_packet_out where
  "of_packet_out_new =
     \<lparr>packet_out_header = of_header_new\<lparr>header_type := 13\<rparr>, packet_out_buffer_id = 0xffffffff,
      packet_out_in_port = 0, packet_out_actions_len = 0\<rparr>"

definition of_packet_out_pack :: "of_packet_out \<Rightarrow> bytes" where
  "of_packet_out_pack x =
     of_header_pack (packet_out_header x) @ store32 (htonl (packet_out_buffer_id x)) @
     store16 (htons (packet_out_in_port x)) @ store16 (htons (packet_out_actions_len x))"

definition of_packet_out_unpack :: "bytes \<Rightarrow> of_packet_out option" where
  "of_packet_out_unpack mem =
     (if length mem < 16 then None
      else Option.bind (of_header_unpack mem) (\<lambda>header.
        Some \<lparr>packet_out_header = header, packet_out_buffer_id = ntohl (load32 8 mem),
            packet_out_in_port = ntohs (load16 12 mem), packet_out_actions_len = ntohs (load16 14 mem)\<rparr>))"

definition of_packet_out_eq :: "of_packet_out \<Rightarrow> of_packet_out \<Rightarrow> bool" where
  "of_packet_out_eq x y \<longleftrightarrow>
     of_header_eq (packet_out_header x) (packet_out_header y) \<and>
     packet_out_buffer_id x = packet_out_buffer_id y \<and> packet_out_in_port x = packet_out_in_port y \<and>
     packet_out_actions_len x = packet_out_actions_len y"

definition of_packet_out_wf :: "of_packet_out \<Rightarrow> bool" where
  "of_packet_out_wf x \<longleftrightarrow> of_header_wf (packet_out_header x)"

interpretation packet_out: wire_bijection of_packet_out_pack of_packet_out_unpack of_packet_out_eq 16 of_packet_out_wf
proof
  show "length (of_packet_out_pack x) = 16" if "of_packet_out_wf x" for x
    using that by (simp add: of_packet_out_pack_def of_packet_out_wf_def codec_length)
  show "of_packet_out_unpack (of_packet_out_pack x @ rest) = Some x" if "of_packet_out_wf x" for x rest
    using that by (simp add: of_packet_out_pack_def of_packet_out_unpack_def of_packet_out_wf_def codec_length codec_unpack byteorder)
  show "of_packet_out_unpack mem = None" if "length mem < 16" for mem
    using that by (simp add: of_packet_out_unpack_def)
  show "of_packet_out_eq x y \<longleftrightarrow> x = y" if "of_packet_out_wf x" "of_packet_out_wf y" for x y
    using that by (cases x; cases y) (simp add: of_packet_out_eq_def of_packet_out_wf_def codec_eq)
  show "\<exists>x. of_packet_out_unpack mem = Some x \<and> of_packet_out_wf x \<and> of_packet_out_pack x = take 16 mem" if len: "16 \<le> length mem" for mem
  proof -
    obtain header where header_ok: "of_header_unpack mem = Some header" "of_header_wf header" "of_header_pack header = take 8 mem"
      using len header.pack_unpack_at [of 0 mem] by auto
    from len header_ok show ?thesis
      by (simp add: of_packet_out_pack_def of_packet_out_unpack_def of_packet_out_wf_def codec_chunks)
  qed
qed

lemmas packet_out_codec [codec_length, codec_unpack, codec_eq] = packet_out.length_pack packet_out.unpack_pack packet_out.eq_iff

record of_flow_mod =
  flow_mod_header :: of_header
  flow_mod_match :: of_match
  flow_mod_cookie :: uint64
  flow_mod_command :: uint16
  flow_mod_idle_timeout :: uint16
  flow_mod_hard_timeout :: uint16
  flow_mod_priority :: uint16
  flow_mod_buffer_id :: uint32
  flow_mod_out_port :: uint16
  flow_mod_flags :: uint16

definition of_flow_mod_new :: of_flow_mod where
  "of_flow_mod_new =
     \<lparr>flow_mod_header = of_header_new\<lparr>header_type := 14\<rparr>, flow_mod_match = of_match_new,
      flow_mod_cookie = 0, flow_mod_command = 0, flow_mod_idle_timeout = 0, flow_mod_hard_timeout = 0,
      flow_mod_priority = 0x8000, flow_mod_buffer_id = 0, flow_mod_out_port = 0, flow_mod_flags = 0\<rparr>"

definition of_flow_mod_pack :: "of_flow_mod \<Rightarrow> bytes" where
  "of_flow_mod_pack x =
     of_header_pack (flow_mod_header x) @ of_match_pack (flow_mod_match x) @
     store64 (htonll (flow_mod_cookie x)) @ store16 (htons (flow_mod_command x)) @
     store16 (htons (flow_mod_idle_timeout x)) @ store16 (htons (flow_mod_hard_timeout x)) @
     store16 (htons (flow_mod_priority x)) @ store32 (htonl (flow_mod_buffer_id x)) @
     store16 (htons (flow_mod_out_port x)) @ store16 (htons (flow_mod_flags x))"

definition of_flow_mod_unpack :: "bytes \<Rightarrow> of_flow_mod option" where
  "of_flow_mod_unpack mem =
     (if length mem < 72 then None
      else Option.bind (of_header_unpack mem) (\<lambda>header.
        Option.bind (of_match_unpack (drop 8 mem)) (\<lambda>match.
        Some \<lparr>flow_mod_header = header, flow_mod_match = match, flow_mod_cookie = ntohll (load64 48 mem),
            flow_mod_command = ntohs (load16 56 mem), flow_mod_idle_timeout = ntohs (load16 58 mem),
            flow_mod_hard_timeout = ntohs (load16 60 mem), flow_mod_priority = ntohs (load16 62 mem),
            flow_mod_buffer_id = ntohl (load32 64 mem), flow_mod_out_port = ntohs (load16 68 mem),
            flow_mod_flags = ntohs (load16 70 mem)\<rparr>)))"

definition of_flow_mod_eq :: "of_flow_mod \<Rightarrow> of_flow_mod \<Rightarrow> bool" where
  "of_flow_mod_eq x y \<longleftrightarrow>
     of_header_eq (flow_mod_header x) (flow_mod_header y) \<and>
     of_match_eq (flow_mod_match x) (flow_mod_match y) \<and> flow_mod_cookie x = flow_mod_cookie y \<and>
     flow_mod_command x = flow_mod_command y \<and> flow_mod_idle_timeout x = flow_mod_idle_timeout y \<and>
     flow_mod_hard_timeout x = flow_mod_hard_timeout y \<and> flow_mod_priority x = flow_mod_priority y \<and>
     flow_mod_buffer_id x = flow_mod_buffer_id y \<and> flow_mod_out_port x = flow_mod_out_port y \<and>
     flow_mod_flags x = flow_mod_flags y"

definition of_flow_mod_wf :: "of_flow_mod \<Rightarrow> bool" where
  "of_flow_mod_wf x \<longleftrightarrow> of_header_wf (flow_mod_header x) \<and> of_match_wf (flow_mod_match x)"

interpretation flow_mod: wire_bijection of_flow_mod_pack of_flow_mod_unpack of_flow_mod_eq 72 of_flow_mod_wf
proof
  show "length (of_flow_mod_pack x) = 72" if "of_flow_mod_wf x" for x
    using that by (simp add: of_flow_mod_pack_def of_flow_mod_wf_def codec_length)
  show "of_flow_mod_unpack (of_flow_mod_pack x @ rest) = Some x" if "of_flow_mod_wf x" for x rest
    using that by (simp add: of_flow_mod_pack_def of_flow_mod_unpack_def of_flow_mod_wf_def codec_length codec_unpack byteorder)
  show "of_flow_mod_unpack mem = None" if "length mem < 72" for mem
    using that by (simp add: of_flow_mod_unpack_def)
  show "of_flow_mod_eq x y \<longleftrightarrow> x = y" if "of_flow_mod_wf x" "of_flow_mod_wf y" for x y
    using that by (cases x; cases y) (simp add: of_flow_mod_eq_def of_flow_mod_wf_def codec_eq)
  show "\<exists>x. of_flow_mod_unpack mem = Some x \<and> of_flow_mod_wf x \<and> of_flow_mod_pack x = take 72 mem" if len: "72 \<le> length mem" for mem
  proof -
    obtain header where header_ok: "of_header_unpack mem = Some header" "of_header_wf header" "of_header_pack header = take 8 mem"
      using len header.pack_unpack_at [of 0 mem] by auto
    obtain match where match_ok: "of_match_unpack (drop 8 mem) = Some match" "of_match_wf match" "of_match_pack match = take 40 (drop 8 mem)"
      using len match.pack_unpack_at [of 8 mem] by auto
    from len header_ok match_ok show ?thesis
      by (simp add: of_flow_mod_pack_def of_flow_mod_unpack_def of_flow_mod_wf_def codec_chunks)
  qed
qed

lemmas flow_mod_codec [codec_length, codec_unpack, codec_eq] = flow_mod.length_pack flow_mod.unpack_pack flow_mod.eq_iff

record of_port_mod =
  port_mod_header :: of_header
  port_mod_port_no :: uint16
  port_mod_hw_addr :: bytes
  port_mod_config :: uint32
  port_mod_mask :: uint32
  port_mod_advertise :: uint32
  port_mod_pad :: bytes

definition of_port_mod_new :: of_port_mod where
  "of_port_mod_new =
     \<lparr>port_mod_header = of_header_new\<lparr>header_type := 15\<rparr>, port_mod_port_no = 0,
      port_mod_hw_addr = replicate 6 0, port_mod_config = 0, port_mod_mask = 0, port_mod_advertise = 0,
      port_mod_pad = replicate 4 0\<rparr>"

definition of_port_mod_pack :: "of_port_mod \<Rightarrow> bytes" where
  "of_port_mod_pack x =
     of_header_pack (port_mod_header x) @ store16 (htons (port_mod_port_no x)) @ take 6 (port_mod_hw_addr x) @
     store32 (htonl (port_mod_config x)) @ store32 (htonl (port_mod_mask x)) @
     store32 (htonl (port_mod_advertise x)) @ take 4 (port_mod_pad x)"

definition of_port_mod_unpack :: "bytes \<Rightarrow> of_port_mod option" where
  "of_port_mod_unpack mem =
     (if length mem < 32 then None
      else Option.bind (of_header_unpack mem) (\<lambda>header.
        Some \<lparr>port_mod_header = header, port_mod_port_no = ntohs (load16 8 mem),
            port_mod_hw_addr = take 6 (drop 10 mem), port_mod_config = ntohl (load32 16 mem),
            port_mod_mask = ntohl (load32 20 mem), port_mod_advertise = ntohl (load32 24 mem),
            port_mod_pad = take 4 (drop 28 mem)\<rparr>))"

definition of_port_mod_eq :: "of_port_mod \<Rightarrow> of_port_mod \<Rightarrow> bool" where
  "of_port_mod_eq x y \<longleftrightarrow>
     of_header_eq (port_mod_header x) (port_mod_header y) \<and> port_mod_port_no x = port_mod_port_no y \<and>
     take 6 (port_mod_hw_addr x) = take 6 (port_mod_hw_addr y) \<and>
     port_mod_config x = port_mod_config y \<and> port_mod_mask x = port_mod_mask y \<and>
     port_mod_advertise x = port_mod_advertise y \<and> take 4 (port_mod_pad x) = take 4 (port_mod_pad y)"

definition of_port_mod_wf :: "of_port_mod \<Rightarrow> bool" where
  "of_port_mod_wf x \<longleftrightarrow> of_header_wf (port_mod_header x) \<and> length (port_mod_hw_addr x) = 6 \<and> length (port_mod_pad x) = 4"

interpretation port_mod: wire_bijection of_port_mod_pack of_port_mod_unpack of_port_mod_eq 32 of_port_mod_wf
proof
  show "length (of_port_mod_pack x) = 32" if "of_port_mod_wf x" for x
    using that by (simp add: of_port_mod_pack_def of_port_mod_wf_def codec_length)
  show "of_port_mod_unpack (of_port_mod_pack x @ rest) = Some x" if "of_port_mod_wf x" for x rest
    using that by (simp add: of_port_mod_pack_def of_port_mod_unpack_def of_port_mod_wf_def codec_length codec_unpack byteorder)
  show "of_port_mod_unpack mem = None" if "length mem < 32" for mem
    using that by (simp add: of_port_mod_unpack_def)
  show "of_port_mod_eq x y \<longleftrightarrow> x = y" if "of_port_mod_wf x" "of_port_mod_wf y" for x y
    using that by (cases x; cases y) (simp add: of_port_mod_eq_def of_port_mod_wf_def codec_eq)
  show "\<exists>x. of_port_mod_unpack mem = Some x \<and> of_port_mod_wf x \<and> of_port_mod_pack x = take 32 mem" if len: "32 \<le> length mem" for mem
  proof -
    obtain header where header_ok: "of_header_unpack mem = Some header" "of_header_wf header" "of_header_pack header = take 8 mem"
      using len header.pack_unpack_at [of 0 mem] by auto
    from len header_ok show ?thesis
      by (simp add: of_port_mod_pack_def of_port_mod_unpack_def of_port_mod_wf_def codec_chunks)
  qed
qed

lemmas port_mod_codec [codec_length, codec_unpack, codec_eq] = port_mod.length_pack port_mod.unpack_pack port_mod.eq_iff

record of_stats_request =
  stats_request_header :: of_header
  stats_request_type :: uint16
  stats_request_flags :: uint16

definition of_stats_request_new :: of_stats_request where
  "of_stats_request_new =
     \<lparr>stats_request_header = of_header_new\<lparr>header_type := 16\<rparr>, stats_request_type = 0,
      stats_request_flags = 0\<rparr>"

definition of_stats_request_pack :: "of_stats_request \<Rightarrow> bytes" where
  "of_stats_request_pack x =
     of_header_pack (stats_request_header x) @ store16 (htons (stats_request_type x)) @
     store16 (htons (stats_request_flags x))"

definition of_stats_request_unpack :: "bytes \<Rightarrow> of_stats_request option" where
  "of_stats_request_unpack mem =
     (if length mem < 12 then None
      else Option.bind (of_header_unpack mem) (\<lambda>header.
        Some \<lparr>stats_request_header = header, stats_request_type = ntohs (load16 8 mem),
            stats_request_flags = ntohs (load16 10 mem)\<rparr>))"

definition of_stats_request_eq :: "of_stats_request \<Rightarrow> of_stats_request \<Rightarrow> bool" where
  "of_stats_request_eq x y \<longleftrightarrow>
     of_header_eq (stats_request_header x) (stats_request_header y) \<and>
     stats_request_type x = stats_request_type y \<and> stats_request_flags x = stats_request_flags y"

definition of_stats_request_wf :: "of_stats_request \<Rightarrow> bool" where
  "of_stats_request_wf x \<longleftrightarrow> of_header_wf (stats_request_header x)"

interpretation stats_request: wire_bijection of_stats_request_pack of_stats_request_unpack of_stats_request_eq 12 of_stats_request_wf
proof
  show "length (of_stats_request_pack x) = 12" if "of_stats_request_wf x" for x
    using that by (simp add: of_stats_request_pack_def of_stats_request_wf_def codec_length)
  show "of_stats_request_unpack (of_stats_request_pack x @ rest) = Some x" if "of_stats_request_wf x" for x rest
    using that by (simp add: of_stats_request_pack_def of_stats_request_unpack_def of_stats_request_wf_def codec_length codec_unpack byteorder)
  show "of_stats_request_unpack mem = None" if "length mem < 12" for mem
    using that by (simp add: of_stats_request_unpack_def)
  show "of_stats_request_eq x y \<longleftrightarrow> x = y" if "of_stats_request_wf x" "of_stats_request_wf y" for x y
    using that by (cases x; cases y) (simp add: of_stats_request_eq_def of_stats_request_wf_def codec_eq)
  show "\<exists>x. of_stats_request_unpack mem = Some x \<and> of_stats_request_wf x \<and> of_stats_request_pack x = take 12 mem" if len: "12 \<le> length mem" for mem
  proof -
    obtain header where header_ok: "of_header_unpack mem = Some header" "of_header_wf header" "of_header_pack header = take 8 mem"
      using len header.pack_unpack_at [of 0 mem] by auto
    from len header_ok show ?thesis
      by (simp add: of_stats_request_pack_def of_stats_request_unpack_def of_stats_request_wf_def codec_chunks)
  qed
qed

lemmas stats_request_codec [codec_length, codec_unpack, codec_eq] = stats_request.length_pack stats_request.unpack_pack stats_request.eq_iff

record of_stats_reply =
  stats_reply_header :: of_header
  stats_reply_type :: uint16
  stats_reply_flags :: uint16

definition of_stats_reply_new :: of_stats_reply where
  "of_stats_reply_new =
     \<lparr>stats_reply_header = of_header_new\<lparr>header_type := 17\<rparr>, stats_reply_type = 0,
      stats_reply_flags = 0\<rparr>"

definition of_stats_reply_pack :: "of_stats_reply \<Rightarrow> bytes" where
  "of_stats_reply_pack x =
     of_header_pack (stats_reply_header x) @ store16 (htons (stats_reply_type x)) @
     store16 (htons (stats_reply_flags x))"

definition of_stats_reply_unpack :: "bytes \<Rightarrow> of_stats_reply option" where
  "of_stats_reply_unpack mem =
     (if length mem < 12 then None
      else Option.bind (of_header_unpack mem) (\<lambda>header.
        Some \<lparr>stats_reply_header = header, stats_reply_type = ntohs (load16 8 mem),
            stats_reply_flags = ntohs (load16 10 mem)\<rparr>))"

definition of_stats_reply_eq :: "of_stats_reply \<Rightarrow> of_stats_reply \<Rightarrow> bool" where
  "of_stats_reply_eq x y \<longleftrightarrow>
     of_header_eq (stats_reply_header x) (stats_reply_header y) \<and>
     stats_reply_type x = stats_reply_type y \<and> stats_reply_flags x = stats_reply_flags y"

definition of_stats_reply_wf :: "of_stats_reply \<Rightarrow> bool" where
  "of_stats_reply_wf x \<longleftrightarrow> of_header_wf (stats_reply_header x)"

interpretation stats_reply: wire_bijection of_stats_reply_pack of_stats_reply_unpack of_stats_reply_eq 12 of_stats_reply_wf
proof
  show "length (of_stats_reply_pack x) = 12" if "of_stats_reply_wf x" for x
    using that by (simp add: of_stats_reply_pack_def of_stats_reply_wf_def codec_length)
  show "of_stats_reply_unpack (of_stats_reply_pack x @ rest) = Some x" if "of_stats_reply_wf x" for x rest
    using that by (simp add: of_stats_reply_pack_def of_stats_reply_unpack_def of_stats_reply_wf_def codec_length codec_unpack byteorder)
  show "of_stats_reply_unpack mem = None" if "length mem < 12" for mem
    using that by (simp add: of_stats_reply_unpack_def)
  show "of_stats_reply_eq x y \<longleftrightarrow> x = y" if "of_stats_reply_wf x" "of_stats_reply_wf y" for x y
    using that by (cases x; cases y) (simp add: of_stats_reply_eq_def of_stats_reply_wf_def codec_eq)
  show "\<exists>x. of_stats_reply_unpack mem = Some x \<and> of_stats_reply_wf x \<and> of_stats_reply_pack x = take 12 mem" if len: "12 \<le> length mem" for mem
  proof -
    obtain header where header_ok: "of_header_unpack mem = Some header" "of_header_wf header" "of_header_pack header = take 8 mem"
      using len header.pack_unpack_at [of 0 mem] by auto
    from len header_ok show ?thesis
      by (simp add: of_stats_reply_pack_def of_stats_reply_unpack_def of_stats_reply_wf_def codec_chunks)
  qed
qed

lemmas stats_reply_codec [codec_length, codec_unpack, codec_eq] = stats_reply.length_pack stats_reply.unpack_pack stats_reply.eq_iff

record of_queue_get_config_request =
  queue_get_config_request_header :: of_header
  queue_get_config_request_port :: uint16
  queue_get_config_request_pad :: bytes

definition of_queue_get_config_request_new :: of_queue_get_config_request where
  "of_queue_get_config_request_new =
     \<lparr>queue_get_config_request_header = of_header_new, queue_get_config_request_port = 0,
      queue_get_config_request_pad = replicate 2 0\<rparr>"

definition of_queue_get_config_request_pack :: "of_queue_get_config_request \<Rightarrow> bytes" where
  "of_queue_get_config_request_pack x =
     of_header_pack (queue_get_config_request_header x) @ store16 (htons (queue_get_config_request_port x)) @
     take 2 (queue_get_config_request_pad x)"

definition of_queue_get_config_request_unpack :: "bytes \<Rightarrow> of_queue_get_config_request option" where
  "of_queue_get_config_request_unpack mem =
     (if length mem < 12 then None
      else Option.bind (of_header_unpack mem) (\<lambda>header.
        Some \<lparr>queue_get_config_request_header = header, queue_get_config_request_port = ntohs (load16 8 mem),
            queue_get_config_request_pad = take 2 (drop 10 mem)\<rparr>))"

definition of_queue_get_config_request_eq :: "of_queue_get_config_request \<Rightarrow> of_queue_get_config_request \<Rightarrow> bool" where
  "of_queue_get_config_request_eq x y \<longleftrightarrow>
     of_header_eq (queue_get_config_request_header x) (queue_get_config_request_header y) \<and>
     queue_get_config_request_port x = queue_get_config_request_port y \<and>
     take 2 (queue_get_config_request_pad x) = take 2 (queue_get_config_request_pad y)"

definition of_queue_get_config_request_wf :: "of_queue_get_config_request \<Rightarrow> bool" where
  "of_queue_get_config_request_wf x \<longleftrightarrow> of_header_wf (queue_get_config_request_header x) \<and> length (queue_get_config_request_pad x) = 2"

interpretation queue_get_config_request: wire_bijection of_queue_get_config_request_pack of_queue_get_config_request_unpack of_queue_get_config_request_eq 12 of_queue_get_config_request_wf
proof
  show "length (of_queue_get_config_request_pack x) = 12" if "of_queue_get_config_request_wf x" for x
    using that by (simp add: of_queue_get_config_request_pack_def of_queue_get_config_request_wf_def codec_length)
  show "of_queue_get_config_request_unpack (of_queue_get_config_request_pack x @ rest) = Some x" if "of_queue_get_config_request_wf x" for x rest
    using that by (simp add: of_queue_get_config_request_pack_def of_queue_get_config_request_unpack_def of_queue_get_config_request_wf_def codec_length codec_unpack byteorder)
  show "of_queue_get_config_request_unpack mem = None" if "length mem < 12" for mem
    using that by (simp add: of_queue_get_config_request_unpack_def)
  show "of_queue_get_config_request_eq x y \<longleftrightarrow> x = y" if "of_queue_get_config_request_wf x" "of_queue_get_config_request_wf y" for x y
    using that by (cases x; cases y) (simp add: of_queue_get_config_request_eq_def of_queue_get_config_request_wf_def codec_eq)
  show "\<exists>x. of_queue_get_config_request_unpack mem = Some x \<and> of_queue_get_config_request_wf x \<and> of_queue_get_config_request_pack x = take 12 mem" if len: "12 \<le> length mem" for mem
  proof -
    obtain header where header_ok: "of_header_unpack mem = Some header" "of_header_wf header" "of_header_pack header = take 8 mem"
      using len header.pack_unpack_at [of 0 mem] by auto
    from len header_ok show ?thesis
      by (simp add: of_queue_get_config_request_pack_def of_queue_get_config_request_unpack_def of_queue_get_config_request_wf_def codec_chunks)
  qed
qed

lemmas queue_get_config_request_codec [codec_length, codec_unpack, codec_eq] = queue_get_config_request.length_pack queue_get_config_request.unpack_pack queue_get_config_request.eq_iff

record of_queue_get_config_reply =
  queue_get_config_reply_header :: of_header
  queue_get_config_reply_port :: uint16
  queue_get_config_reply_pad :: bytes

definition of_queue_get_config_reply_new :: of_queue_get_config_reply where
  "of_queue_get_config_reply_new =
     \<lparr>queue_get_config_reply_header = of_header_new, queue_get_config_reply_port = 0,
      queue_get_config_reply_pad = replicate 6 0\<rparr>"

definition of_queue_get_config_reply_pack :: "of_queue_get_config_reply \<Rightarrow> bytes" where
  "of_queue_get_config_reply_pack x =
     of_header_pack (queue_get_config_reply_header x) @ store16 (htons (queue_get_config_reply_port x)) @
     take 6 (queue_get_config_reply_pad x)"

definition of_queue_get_config_reply_unpack :: "bytes \<Rightarrow> of_queue_get_config_reply option" where
  "of_queue_get_config_reply_unpack mem =
     (if length mem < 16 then None
      else Option.bind (of_header_unpack mem) (\<lambda>header.
        Some \<lparr>queue_get_config_reply_header = header, queue_get_config_reply_port = ntohs (load16 8 mem),
            queue_get_config_reply_pad = take 6 (drop 10 mem)\<rparr>))"

definition of_queue_get_config_reply_eq :: "of_queue_get_config_reply \<Rightarrow> of_queue_get_config_reply \<Rightarrow> bool" where
  "of_queue_get_config_reply_eq x y \<longleftrightarrow>
     of_header_eq (queue_get_config_reply_header x) (queue_get_config_reply_header y) \<and>
     queue_get_config_reply_port x = queue_get_config_reply_port y \<and>
     take 6 (queue_get_config_reply_pad x) = take 6 (queue_get_config_reply_pad y)"

definition of_queue_get_config_reply_wf :: "of_queue_get_config_reply \<Rightarrow> bool" where
  "of_queue_get_config_reply_wf x \<longleftrightarrow> of_header_wf (queue_get_config_reply_header x) \<and> length (queue_get_config_reply_pad x) = 6"

interpretation queue_get_config_reply: wire_bijection of_queue_get_config_reply_pack of_queue_get_config_reply_unpack of_queue_get_config_reply_eq 16 of_queue_get_config_reply_wf
proof
  show "length (of_queue_get_config_reply_pack x) = 16" if "of_queue_get_config_reply_wf x" for x
    using that by (simp add: of_queue_get_config_reply_pack_def of_queue_get_config_reply_wf_def codec_length)
  show "of_queue_get_config_reply_unpack (of_queue_get_config_reply_pack x @ rest) = Some x" if "of_queue_get_config_reply_wf x" for x rest
    using that by (simp add: of_queue_get_config_reply_pack_def of_queue_get_config_reply_unpack_def of_queue_get_config_reply_wf_def codec_length codec_unpack byteorder)
  show "of_queue_get_config_reply_unpack mem = None" if "length mem < 16" for mem
    using that by (simp add: of_queue_get_config_reply_unpack_def)
  show "of_queue_get_config_reply_eq x y \<longleftrightarrow> x = y" if "of_queue_get_config_reply_wf x" "of_queue_get_config_reply_wf y" for x y
    using that by (cases x; cases y) (simp add: of_queue_get_config_reply_eq_def of_queue_get_config_reply_wf_def codec_eq)
  show "\<exists>x. of_queue_get_config_reply_unpack mem = Some x \<and> of_queue_get_config_reply_wf x \<and> of_queue_get_config_reply_pack x = take 16 mem" if len: "16 \<le> length mem" for mem
  proof -
    obtain header where header_ok: "of_header_unpack mem = Some header" "of_header_wf header" "of_header_pack header = take 8 mem"
      using len header.pack_unpack_at [of 0 mem] by auto
    from len header_ok show ?thesis
      by (simp add: of_queue_get_config_reply_pack_def of_queue_get_config_reply_unpack_def of_queue_get_config_reply_wf_def codec_chunks)
  qed
qed

lemmas queue_get_config_reply_codec [codec_length, codec_unpack, codec_eq] = queue_get_config_reply.length_pack queue_get_config_reply.unpack_pack queue_get_config_reply.eq_iff

end
