(* ===== verification/Nox_Wire.thy ===== *)
theory Nox_Wire
  imports Nox_Ofpack_Action Nox_Ofpack_Stats Nox_Ofpack_Msg
begin

text \<open>
  What the codecs of \<^verbatim>\<open>src/src/lib/openflow-pack-raw.cc\<close> guarantee together: the facts of the interpretations of
  \<open>wire_codec\<close> and \<open>wire_bijection\<close>, structure by structure.
\<close>

lemmas wire_wf_defs =
  of_header_wf_def
  of_hello_wf_def
  of_error_msg_wf_def
  of_vendor_header_wf_def
  of_switch_features_wf_def
  of_switch_config_wf_def
  of_packet_in_wf_def
  of_flow_removed_wf_def
  of_port_status_wf_def
  of_packet_out_wf_def
  of_flow_mod_wf_def
  of_port_mod_wf_def
  of_stats_request_wf_def
  of_stats_reply_wf_def
  of_queue_get_config_request_wf_def
  of_queue_get_config_reply_wf_def
  of_match_wf_def
  of_phy_port_wf_def
  of_action_header_wf_def
  of_action_output_wf_def
  of_action_vlan_vid_wf_def
  of_action_vlan_pcp_wf_def
  of_action_dl_addr_wf_def
  of_action_nw_addr_wf_def
  of_action_nw_tos_wf_def
  of_action_tp_port_wf_def
  of_action_enqueue_wf_def
  of_action_vendor_header_wf_def
  of_desc_stats_wf_def
  of_flow_stats_request_wf_def
  of_flow_stats_wf_def
  of_aggregate_stats_request_wf_def
  of_aggregate_stats_reply_wf_def
  of_table_stats_wf_def
  of_port_stats_request_wf_def
  of_port_stats_wf_def
  of_queue_stats_request_wf_def
  of_queue_stats_wf_def
  of_packet_queue_wf_def
  of_queue_prop_header_wf_def
  of_queue_prop_min_rate_wf_def

lemmas wire_new_defs =
  of_header_new_def
  of_hello_new_def
  of_error_msg_new_def
  of_vendor_header_new_def
  of_switch_features_new_def
  of_switch_config_new_def
  of_packet_in_new_def
  of_flow_removed_new_def
  of_port_status_new_def
  of_packet_out_new_def
  of_flow_mod_new_def
  of_port_mod_new_def
  of_stats_request_new_def
  of_stats_reply_new_def
  of_queue_get_config_request_new_def
  of_queue_get_config_reply_new_def
  of_match_new_def
  of_phy_port_new_def
  of_action_header_new_def
  of_action_output_new_def
  of_action_vlan_vid_new_def
  of_action_vlan_pcp_new_def
  of_action_dl_addr_new_def
  of_action_nw_addr_new_def
  of_action_nw_tos_new_def
  of_action_tp_port_new_def
  of_action_enqueue_new_def
  of_action_vendor_header_new_def
  of_desc_stats_new_def
  of_flow_stats_request_new_def
  of_flow_stats_new_def
  of_aggregate_stats_request_new_def
  of_aggregate_stats_reply_new_def
  of_table_stats_new_def
  of_port_stats_request_new_def
  of_port_stats_new_def
  of_queue_stats_request_new_def
  of_queue_stats_new_def
  of_packet_queue_new_def
  of_queue_prop_header_new_def
  of_queue_prop_min_rate_new_def

text \<open>The empty constructors make well-formed structures.\<close>

lemma wire_new_wf:
  "of_header_wf of_header_new"
  "of_hello_wf of_hello_new"
  "of_error_msg_wf of_error_msg_new"
  "of_vendor_header_wf of_vendor_header_new"
  "of_switch_features_wf of_switch_features_new"
  "of_switch_config_wf of_switch_config_new"
  "of_packet_in_wf of_packet_in_new"
  "of_flow_removed_wf of_flow_removed_new"
  "of_port_status_wf of_port_status_new"
  "of_packet_out_wf of_packet_out_new"
  "of_flow_mod_wf of_flow_mod_new"
  "of_port_mod_wf of_port_mod_new"
  "of_stats_request_wf of_stats_request_new"
  "of_stats_reply_wf of_stats_reply_new"
  "of_queue_get_config_request_wf of_queue_get_config_request_new"
  "of_queue_get_config_reply_wf of_queue_get_config_reply_new"
  "of_match_wf of_match_new"
  "of_phy_port_wf of_phy_port_new"
  "of_action_header_wf of_action_header_new"
  "of_action_output_wf of_action_output_new"
  "of_action_vlan_vid_wf of_action_vlan_vid_new"
  "of_action_vlan_pcp_wf of_action_vlan_pcp_new"
  "of_action_dl_addr_wf of_action_dl_addr_new"
  "of_action_nw_addr_wf of_action_nw_addr_new"
  "of_action_nw_tos_wf of_action_nw_tos_new"
  "of_action_tp_port_wf of_action_tp_port_new"
  "of_action_enqueue_wf of_action_enqueue_new"
  "of_action_vendor_header_wf of_action_vendor_header_new"
  "of_desc_stats_wf of_desc_stats_new"
  "of_flow_stats_request_wf of_flow_stats_request_new"
  "of_flow_stats_wf of_flow_stats_new"
  "of_aggregate_stats_request_wf of_aggregate_stats_request_new"
  "of_aggregate_stats_reply_wf of_aggregate_stats_reply_new"
  "of_table_stats_wf of_table_stats_new"
  "of_port_stats_request_wf of_port_stats_request_new"
  "of_port_stats_wf of_port_stats_new"
  "of_queue_stats_request_wf of_queue_stats_request_new"
  "of_queue_stats_wf of_queue_stats_new"
  "of_packet_queue_wf of_packet_queue_new"
  "of_queue_prop_header_wf of_queue_prop_header_new"
  "of_queue_prop_min_rate_wf of_queue_prop_min_rate_new"
  by (simp_all add: wire_wf_defs wire_new_defs)

text \<open>
  C28: unpacking a packed message structure gives the structure back, whatever bytes follow it, and its packed length is the size of the
  structure of the OpenFlow protocol, for the header and every message type of the controller.
\<close>

theorem message_roundtrip:
  assumes "of_header_wf header_x"
    and "of_hello_wf hello_x"
    and "of_error_msg_wf error_msg_x"
    and "of_vendor_header_wf vendor_header_x"
    and "of_switch_features_wf switch_features_x"
    and "of_switch_config_wf switch_config_x"
    and "of_packet_in_wf packet_in_x"
    and "of_flow_removed_wf flow_removed_x"
    and "of_port_status_wf port_status_x"
    and "of_packet_out_wf packet_out_x"
    and "of_flow_mod_wf flow_mod_x"
    and "of_port_mod_wf port_mod_x"
    and "of_stats_request_wf stats_request_x"
    and "of_stats_reply_wf stats_reply_x"
    and "of_queue_get_config_request_wf queue_get_config_request_x"
    and "of_queue_get_config_reply_wf queue_get_config_reply_x"
  shows "of_header_unpack (of_header_pack header_x @ rest) = Some header_x \<and> length (of_header_pack header_x) = 8 \<and>
    of_hello_unpack (of_hello_pack hello_x @ rest) = Some hello_x \<and> length (of_hello_pack hello_x) = 8 \<and>
    of_error_msg_unpack (of_error_msg_pack error_msg_x @ rest) = Some error_msg_x \<and> length (of_error_msg_pack error_msg_x) = 12 \<and>
    of_vendor_header_unpack (of_vendor_header_pack vendor_header_x @ rest) = Some vendor_header_x \<and> length (of_vendor_header_pack vendor_header_x) = 12 \<and>
    of_switch_features_unpack (of_switch_features_pack switch_features_x @ rest) = Some switch_features_x \<and> length (of_switch_features_pack switch_features_x) = 32 \<and>
    of_switch_config_unpack (of_switch_config_pack switch_config_x @ rest) = Some switch_config_x \<and> length (of_switch_config_pack switch_config_x) = 12 \<and>
    of_packet_in_unpack (of_packet_in_pack packet_in_x @ rest) = Some packet_in_x \<and> length (of_packet_in_pack packet_in_x) = 18 \<and>
    of_flow_removed_unpack (of_flow_removed_pack flow_removed_x @ rest) = Some flow_removed_x \<and> length (of_flow_removed_pack flow_removed_x) = 88 \<and>
    of_port_status_unpack (of_port_status_pack port_status_x @ rest) = Some port_status_x \<and> length (of_port_status_pack port_status_x) = 64 \<and>
    of_packet_out_unpack (of_packet_out_pack packet_out_x @ rest) = Some packet_out_x \<and> length (of_packet_out_pack packet_out_x) = 16 \<and>
    of_flow_mod_unpack (of_flow_mod_pack flow_mod_x @ rest) = Some flow_mod_x \<and> length (of_flow_mod_pack flow_mod_x) = 72 \<and>
    of_port_mod_unpack (of_port_mod_pack port_mod_x @ rest) = Some port_mod_x \<and> length (of_port_mod_pack port_mod_x) = 32 \<and>
    of_stats_request_unpack (of_stats_request_pack stats_request_x @ rest) = Some stats_request_x \<and> length (of_stats_request_pack stats_request_x) = 12 \<and>
    of_stats_reply_unpack (of_stats_reply_pack stats_reply_x @ rest) = Some stats_reply_x \<and> length (of_stats_reply_pack stats_reply_x) = 12 \<and>
    of_queue_get_config_request_unpack (of_queue_get_config_request_pack queue_get_config_request_x @ rest) = Some queue_get_config_request_x \<and> length (of_queue_get_config_request_pack queue_get_config_request_x) = 12 \<and>
    of_queue_get_config_reply_unpack (of_queue_get_config_reply_pack queue_get_config_reply_x @ rest) = Some queue_get_config_reply_x \<and> length (of_queue_get_config_reply_pack queue_get_config_reply_x) = 16"
  using assms
  by (intro conjI)
    (simp_all only: header.unpack_pack header.length_pack
      hello.unpack_pack hello.length_pack
      error_msg.unpack_pack error_msg.length_pack
      vendor_header.unpack_pack vendor_header.length_pack
      switch_features.unpack_pack switch_features.length_pack
      switch_config.unpack_pack switch_config.length_pack
      packet_in.unpack_pack packet_in.length_pack
      flow_removed.unpack_pack flow_removed.length_pack
      port_status.unpack_pack port_status.length_pack
      packet_out.unpack_pack packet_out.length_pack
      flow_mod.unpack_pack flow_mod.length_pack
      port_mod.unpack_pack port_mod.length_pack
      stats_request.unpack_pack stats_request.length_pack
      stats_reply.unpack_pack stats_reply.length_pack
      queue_get_config_request.unpack_pack queue_get_config_request.length_pack
      queue_get_config_reply.unpack_pack queue_get_config_reply.length_pack)

theorem message_roundtrip_witness:
  "of_header_unpack (of_header_pack of_header_new @ [1]) = Some of_header_new \<and> length (of_header_pack of_header_new) = 8 \<and>
    of_hello_unpack (of_hello_pack of_hello_new @ [1]) = Some of_hello_new \<and> length (of_hello_pack of_hello_new) = 8 \<and>
    of_error_msg_unpack (of_error_msg_pack of_error_msg_new @ [1]) = Some of_error_msg_new \<and> length (of_error_msg_pack of_error_msg_new) = 12 \<and>
    of_vendor_header_unpack (of_vendor_header_pack of_vendor_header_new @ [1]) = Some of_vendor_header_new \<and> length (of_vendor_header_pack of_vendor_header_new) = 12 \<and>
    of_switch_features_unpack (of_switch_features_pack of_switch_features_new @ [1]) = Some of_switch_features_new \<and> length (of_switch_features_pack of_switch_features_new) = 32 \<and>
    of_switch_config_unpack (of_switch_config_pack of_switch_config_new @ [1]) = Some of_switch_config_new \<and> length (of_switch_config_pack of_switch_config_new) = 12 \<and>
    of_packet_in_unpack (of_packet_in_pack of_packet_in_new @ [1]) = Some of_packet_in_new \<and> length (of_packet_in_pack of_packet_in_new) = 18 \<and>
    of_flow_removed_unpack (of_flow_removed_pack of_flow_removed_new @ [1]) = Some of_flow_removed_new \<and> length (of_flow_removed_pack of_flow_removed_new) = 88 \<and>
    of_port_status_unpack (of_port_status_pack of_port_status_new @ [1]) = Some of_port_status_new \<and> length (of_port_status_pack of_port_status_new) = 64 \<and>
    of_packet_out_unpack (of_packet_out_pack of_packet_out_new @ [1]) = Some of_packet_out_new \<and> length (of_packet_out_pack of_packet_out_new) = 16 \<and>
    of_flow_mod_unpack (of_flow_mod_pack of_flow_mod_new @ [1]) = Some of_flow_mod_new \<and> length (of_flow_mod_pack of_flow_mod_new) = 72 \<and>
    of_port_mod_unpack (of_port_mod_pack of_port_mod_new @ [1]) = Some of_port_mod_new \<and> length (of_port_mod_pack of_port_mod_new) = 32 \<and>
    of_stats_request_unpack (of_stats_request_pack of_stats_request_new @ [1]) = Some of_stats_request_new \<and> length (of_stats_request_pack of_stats_request_new) = 12 \<and>
    of_stats_reply_unpack (of_stats_reply_pack of_stats_reply_new @ [1]) = Some of_stats_reply_new \<and> length (of_stats_reply_pack of_stats_reply_new) = 12 \<and>
    of_queue_get_config_request_unpack (of_queue_get_config_request_pack of_queue_get_config_request_new @ [1]) = Some of_queue_get_config_request_new \<and> length (of_queue_get_config_request_pack of_queue_get_config_request_new) = 12 \<and>
    of_queue_get_config_reply_unpack (of_queue_get_config_reply_pack of_queue_get_config_reply_new @ [1]) = Some of_queue_get_config_reply_new \<and> length (of_queue_get_config_reply_pack of_queue_get_config_reply_new) = 16"
  by (rule message_roundtrip) (rule wire_new_wf)+

text \<open>
  Unpacking a packed match, port description or action gives it back, and its packed length is the size of its structure.
\<close>

theorem action_roundtrip:
  assumes "of_match_wf match_x"
    and "of_phy_port_wf phy_port_x"
    and "of_action_header_wf action_header_x"
    and "of_action_output_wf action_output_x"
    and "of_action_vlan_vid_wf action_vlan_vid_x"
    and "of_action_vlan_pcp_wf action_vlan_pcp_x"
    and "of_action_dl_addr_wf action_dl_addr_x"
    and "of_action_nw_addr_wf action_nw_addr_x"
    and "of_action_nw_tos_wf action_nw_tos_x"
    and "of_action_tp_port_wf action_tp_port_x"
    and "of_action_enqueue_wf action_enqueue_x"
    and "of_action_vendor_header_wf action_vendor_header_x"
  shows "of_match_unpack (of_match_pack match_x @ rest) = Some match_x \<and> length (of_match_pack match_x) = 40 \<and>
    of_phy_port_unpack (of_phy_port_pack phy_port_x @ rest) = Some phy_port_x \<and> length (of_phy_port_pack phy_port_x) = 48 \<and>
    of_action_header_unpack (of_action_header_pack action_header_x @ rest) = Some action_header_x \<and> length (of_action_header_pack action_header_x) = 8 \<and>
    of_action_output_unpack (of_action_output_pack action_output_x @ rest) = Some action_output_x \<and> length (of_action_output_pack action_output_x) = 8 \<and>
    of_action_vlan_vid_unpack (of_action_vlan_vid_pack action_vlan_vid_x @ rest) = Some action_vlan_vid_x \<and> length (of_action_vlan_vid_pack action_vlan_vid_x) = 8 \<and>
    of_action_vlan_pcp_unpack (of_action_vlan_pcp_pack action_vlan_pcp_x @ rest) = Some action_vlan_pcp_x \<and> length (of_action_vlan_pcp_pack action_vlan_pcp_x) = 8 \<and>
    of_action_dl_addr_unpack (of_action_dl_addr_pack action_dl_addr_x @ rest) = Some action_dl_addr_x \<and> length (of_action_dl_addr_pack action_dl_addr_x) = 16 \<and>
    of_action_nw_addr_unpack (of_action_nw_addr_pack action_nw_addr_x @ rest) = Some action_nw_addr_x \<and> length (of_action_nw_addr_pack action_nw_addr_x) = 8 \<and>
    of_action_nw_tos_unpack (of_action_nw_tos_pack action_nw_tos_x @ rest) = Some action_nw_tos_x \<and> length (of_action_nw_tos_pack action_nw_tos_x) = 8 \<and>
    of_action_tp_port_unpack (of_action_tp_port_pack action_tp_port_x @ rest) = Some action_tp_port_x \<and> length (of_action_tp_port_pack action_tp_port_x) = 8 \<and>
    of_action_enqueue_unpack (of_action_enqueue_pack action_enqueue_x @ rest) = Some action_enqueue_x \<and> length (of_action_enqueue_pack action_enqueue_x) = 16 \<and>
    of_action_vendor_header_unpack (of_action_vendor_header_pack action_vendor_header_x @ rest) = Some action_vendor_header_x \<and> length (of_action_vendor_header_pack action_vendor_header_x) = 8"
  using assms
  by (intro conjI)
    (simp_all only: match.unpack_pack match.length_pack
      phy_port.unpack_pack phy_port.length_pack
      action_header.unpack_pack action_header.length_pack
      action_output.unpack_pack action_output.length_pack
      action_vlan_vid.unpack_pack action_vlan_vid.length_pack
      action_vlan_pcp.unpack_pack action_vlan_pcp.length_pack
      action_dl_addr.unpack_pack action_dl_addr.length_pack
      action_nw_addr.unpack_pack action_nw_addr.length_pack
      action_nw_tos.unpack_pack action_nw_tos.length_pack
      action_tp_port.unpack_pack action_tp_port.length_pack
      action_enqueue.unpack_pack action_enqueue.length_pack
      action_vendor_header.unpack_pack action_vendor_header.length_pack)

theorem action_roundtrip_witness:
  "of_match_unpack (of_match_pack of_match_new @ [1]) = Some of_match_new \<and> length (of_match_pack of_match_new) = 40 \<and>
    of_phy_port_unpack (of_phy_port_pack of_phy_port_new @ [1]) = Some of_phy_port_new \<and> length (of_phy_port_pack of_phy_port_new) = 48 \<and>
    of_action_header_unpack (of_action_header_pack of_action_header_new @ [1]) = Some of_action_header_new \<and> length (of_action_header_pack of_action_header_new) = 8 \<and>
    of_action_output_unpack (of_action_output_pack of_action_output_new @ [1]) = Some of_action_output_new \<and> length (of_action_output_pack of_action_output_new) = 8 \<and>
    of_action_vlan_vid_unpack (of_action_vlan_vid_pack of_action_vlan_vid_new @ [1]) = Some of_action_vlan_vid_new \<and> length (of_action_vlan_vid_pack of_action_vlan_vid_new) = 8 \<and>
    of_action_vlan_pcp_unpack (of_action_vlan_pcp_pack of_action_vlan_pcp_new @ [1]) = Some of_action_vlan_pcp_new \<and> length (of_action_vlan_pcp_pack of_action_vlan_pcp_new) = 8 \<and>
    of_action_dl_addr_unpack (of_action_dl_addr_pack of_action_dl_addr_new @ [1]) = Some of_action_dl_addr_new \<and> length (of_action_dl_addr_pack of_action_dl_addr_new) = 16 \<and>
    of_action_nw_addr_unpack (of_action_nw_addr_pack of_action_nw_addr_new @ [1]) = Some of_action_nw_addr_new \<and> length (of_action_nw_addr_pack of_action_nw_addr_new) = 8 \<and>
    of_action_nw_tos_unpack (of_action_nw_tos_pack of_action_nw_tos_new @ [1]) = Some of_action_nw_tos_new \<and> length (of_action_nw_tos_pack of_action_nw_tos_new) = 8 \<and>
    of_action_tp_port_unpack (of_action_tp_port_pack of_action_tp_port_new @ [1]) = Some of_action_tp_port_new \<and> length (of_action_tp_port_pack of_action_tp_port_new) = 8 \<and>
    of_action_enqueue_unpack (of_action_enqueue_pack of_action_enqueue_new @ [1]) = Some of_action_enqueue_new \<and> length (of_action_enqueue_pack of_action_enqueue_new) = 16 \<and>
    of_action_vendor_header_unpack (of_action_vendor_header_pack of_action_vendor_header_new @ [1]) = Some of_action_vendor_header_new \<and> length (of_action_vendor_header_pack of_action_vendor_header_new) = 8"
  by (rule action_roundtrip) (rule wire_new_wf)+

text \<open>
  Unpacking packed statistics and queue structures gives them back, and their packed length is the size of their structure.
\<close>

theorem stats_roundtrip:
  assumes "of_desc_stats_wf desc_stats_x"
    and "of_flow_stats_request_wf flow_stats_request_x"
    and "of_flow_stats_wf flow_stats_x"
    and "of_aggregate_stats_request_wf aggregate_stats_request_x"
    and "of_aggregate_stats_reply_wf aggregate_stats_reply_x"
    and "of_table_stats_wf table_stats_x"
    and "of_port_stats_request_wf port_stats_request_x"
    and "of_port_stats_wf port_stats_x"
    and "of_queue_stats_request_wf queue_stats_request_x"
    and "of_queue_stats_wf queue_stats_x"
    and "of_packet_queue_wf packet_queue_x"
    and "of_queue_prop_header_wf queue_prop_header_x"
    and "of_queue_prop_min_rate_wf queue_prop_min_rate_x"
  shows "of_desc_stats_unpack (of_desc_stats_pack desc_stats_x @ rest) = Some desc_stats_x \<and> length (of_desc_stats_pack desc_stats_x) = 1056 \<and>
    of_flow_stats_request_unpack (of_flow_stats_request_pack flow_stats_request_x @ rest) = Some flow_stats_request_x \<and> length (of_flow_stats_request_pack flow_stats_request_x) = 44 \<and>
    of_flow_stats_unpack (of_flow_stats_pack flow_stats_x @ rest) = Some flow_stats_x \<and> length (of_flow_stats_pack flow_stats_x) = 88 \<and>
    of_aggregate_stats_request_unpack (of_aggregate_stats_request_pack aggregate_stats_request_x @ rest) = Some aggregate_stats_request_x \<and> length (of_aggregate_stats_request_pack aggregate_stats_request_x) = 44 \<and>
    of_aggregate_stats_reply_unpack (of_aggregate_stats_reply_pack aggregate_stats_reply_x @ rest) = Some aggregate_stats_reply_x \<and> length (of_aggregate_stats_reply_pack aggregate_stats_reply_x) = 24 \<and>
    of_table_stats_unpack (of_table_stats_pack table_stats_x @ rest) = Some table_stats_x \<and> length (of_table_stats_pack table_stats_x) = 64 \<and>
    of_port_stats_request_unpack (of_port_stats_request_pack port_stats_request_x @ rest) = Some port_stats_request_x \<and> length (of_port_stats_request_pack port_stats_request_x) = 8 \<and>
    of_port_stats_unpack (of_port_stats_pack port_stats_x @ rest) = Some port_stats_x \<and> length (of_port_stats_pack port_stats_x) = 104 \<and>
    of_queue_stats_request_unpack (of_queue_stats_request_pack queue_stats_request_x @ rest) = Some queue_stats_request_x \<and> length (of_queue_stats_request_pack queue_stats_request_x) = 8 \<and>
    of_queue_stats_unpack (of_queue_stats_pack queue_stats_x @ rest) = Some queue_stats_x \<and> length (of_queue_stats_pack queue_stats_x) = 32 \<and>
    of_packet_queue_unpack (of_packet_queue_pack packet_queue_x @ rest) = Some packet_queue_x \<and> length (of_packet_queue_pack packet_queue_x) = 8 \<and>
    of_queue_prop_header_unpack (of_queue_prop_header_pack queue_prop_header_x @ rest) = Some queue_prop_header_x \<and> length (of_queue_prop_header_pack queue_prop_header_x) = 8 \<and>
    of_queue_prop_min_rate_unpack (of_queue_prop_min_rate_pack queue_prop_min_rate_x @ rest) = Some queue_prop_min_rate_x \<and> length (of_queue_prop_min_rate_pack queue_prop_min_rate_x) = 16"
  using assms
  by (intro conjI)
    (simp_all only: desc_stats.unpack_pack desc_stats.length_pack
      flow_stats_request.unpack_pack flow_stats_request.length_pack
      flow_stats.unpack_pack flow_stats.length_pack
      aggregate_stats_request.unpack_pack aggregate_stats_request.length_pack
      aggregate_stats_reply.unpack_pack aggregate_stats_reply.length_pack
      table_stats.unpack_pack table_stats.length_pack
      port_stats_request.unpack_pack port_stats_request.length_pack
      port_stats.unpack_pack port_stats.length_pack
      queue_stats_request.unpack_pack queue_stats_request.length_pack
      queue_stats.unpack_pack queue_stats.length_pack
      packet_queue.unpack_pack packet_queue.length_pack
      queue_prop_header.unpack_pack queue_prop_header.length_pack
      queue_prop_min_rate.unpack_pack queue_prop_min_rate.length_pack)

theorem stats_roundtrip_witness:
  "of_desc_stats_unpack (of_desc_stats_pack of_desc_stats_new @ [1]) = Some of_desc_stats_new \<and> length (of_desc_stats_pack of_desc_stats_new) = 1056 \<and>
    of_flow_stats_request_unpack (of_flow_stats_request_pack of_flow_stats_request_new @ [1]) = Some of_flow_stats_request_new \<and> length (of_flow_stats_request_pack of_flow_stats_request_new) = 44 \<and>
    of_flow_stats_unpack (of_flow_stats_pack of_flow_stats_new @ [1]) = Some of_flow_stats_new \<and> length (of_flow_stats_pack of_flow_stats_new) = 88 \<and>
    of_aggregate_stats_request_unpack (of_aggregate_stats_request_pack of_aggregate_stats_request_new @ [1]) = Some of_aggregate_stats_request_new \<and> length (of_aggregate_stats_request_pack of_aggregate_stats_request_new) = 44 \<and>
    of_aggregate_stats_reply_unpack (of_aggregate_stats_reply_pack of_aggregate_stats_reply_new @ [1]) = Some of_aggregate_stats_reply_new \<and> length (of_aggregate_stats_reply_pack of_aggregate_stats_reply_new) = 24 \<and>
    of_table_stats_unpack (of_table_stats_pack of_table_stats_new @ [1]) = Some of_table_stats_new \<and> length (of_table_stats_pack of_table_stats_new) = 64 \<and>
    of_port_stats_request_unpack (of_port_stats_request_pack of_port_stats_request_new @ [1]) = Some of_port_stats_request_new \<and> length (of_port_stats_request_pack of_port_stats_request_new) = 8 \<and>
    of_port_stats_unpack (of_port_stats_pack of_port_stats_new @ [1]) = Some of_port_stats_new \<and> length (of_port_stats_pack of_port_stats_new) = 104 \<and>
    of_queue_stats_request_unpack (of_queue_stats_request_pack of_queue_stats_request_new @ [1]) = Some of_queue_stats_request_new \<and> length (of_queue_stats_request_pack of_queue_stats_request_new) = 8 \<and>
    of_queue_stats_unpack (of_queue_stats_pack of_queue_stats_new @ [1]) = Some of_queue_stats_new \<and> length (of_queue_stats_pack of_queue_stats_new) = 32 \<and>
    of_packet_queue_unpack (of_packet_queue_pack of_packet_queue_new @ [1]) = Some of_packet_queue_new \<and> length (of_packet_queue_pack of_packet_queue_new) = 8 \<and>
    of_queue_prop_header_unpack (of_queue_prop_header_pack of_queue_prop_header_new @ [1]) = Some of_queue_prop_header_new \<and> length (of_queue_prop_header_pack of_queue_prop_header_new) = 8 \<and>
    of_queue_prop_min_rate_unpack (of_queue_prop_min_rate_pack of_queue_prop_min_rate_new @ [1]) = Some of_queue_prop_min_rate_new \<and> length (of_queue_prop_min_rate_pack of_queue_prop_min_rate_new) = 16"
  by (rule stats_roundtrip) (rule wire_new_wf)+

text \<open>
  C35: for the structures without strings, every memory that is long enough unpacks, and packing the result restores the bytes
  exactly: no bit of a received message is lost or reinterpreted.
\<close>

theorem wire_exact:
  assumes "104 \<le> length mem"
  shows "map_option of_header_pack (of_header_unpack mem) = Some (take 8 mem) \<and>
    map_option of_hello_pack (of_hello_unpack mem) = Some (take 8 mem) \<and>
    map_option of_error_msg_pack (of_error_msg_unpack mem) = Some (take 12 mem) \<and>
    map_option of_vendor_header_pack (of_vendor_header_unpack mem) = Some (take 12 mem) \<and>
    map_option of_switch_features_pack (of_switch_features_unpack mem) = Some (take 32 mem) \<and>
    map_option of_switch_config_pack (of_switch_config_unpack mem) = Some (take 12 mem) \<and>
    map_option of_packet_in_pack (of_packet_in_unpack mem) = Some (take 18 mem) \<and>
    map_option of_flow_removed_pack (of_flow_removed_unpack mem) = Some (take 88 mem) \<and>
    map_option of_packet_out_pack (of_packet_out_unpack mem) = Some (take 16 mem) \<and>
    map_option of_flow_mod_pack (of_flow_mod_unpack mem) = Some (take 72 mem) \<and>
    map_option of_port_mod_pack (of_port_mod_unpack mem) = Some (take 32 mem) \<and>
    map_option of_stats_request_pack (of_stats_request_unpack mem) = Some (take 12 mem) \<and>
    map_option of_stats_reply_pack (of_stats_reply_unpack mem) = Some (take 12 mem) \<and>
    map_option of_queue_get_config_request_pack (of_queue_get_config_request_unpack mem) = Some (take 12 mem) \<and>
    map_option of_queue_get_config_reply_pack (of_queue_get_config_reply_unpack mem) = Some (take 16 mem) \<and>
    map_option of_match_pack (of_match_unpack mem) = Some (take 40 mem) \<and>
    map_option of_action_header_pack (of_action_header_unpack mem) = Some (take 8 mem) \<and>
    map_option of_action_output_pack (of_action_output_unpack mem) = Some (take 8 mem) \<and>
    map_option of_action_vlan_vid_pack (of_action_vlan_vid_unpack mem) = Some (take 8 mem) \<and>
    map_option of_action_vlan_pcp_pack (of_action_vlan_pcp_unpack mem) = Some (take 8 mem) \<and>
    map_option of_action_dl_addr_pack (of_action_dl_addr_unpack mem) = Some (take 16 mem) \<and>
    map_option of_action_nw_addr_pack (of_action_nw_addr_unpack mem) = Some (take 8 mem) \<and>
    map_option of_action_nw_tos_pack (of_action_nw_tos_unpack mem) = Some (take 8 mem) \<and>
    map_option of_action_tp_port_pack (of_action_tp_port_unpack mem) = Some (take 8 mem) \<and>
    map_option of_action_enqueue_pack (of_action_enqueue_unpack mem) = Some (take 16 mem) \<and>
    map_option of_action_vendor_header_pack (of_action_vendor_header_unpack mem) = Some (take 8 mem) \<and>
    map_option of_flow_stats_request_pack (of_flow_stats_request_unpack mem) = Some (take 44 mem) \<and>
    map_option of_flow_stats_pack (of_flow_stats_unpack mem) = Some (take 88 mem) \<and>
    map_option of_aggregate_stats_request_pack (of_aggregate_stats_request_unpack mem) = Some (take 44 mem) \<and>
    map_option of_aggregate_stats_reply_pack (of_aggregate_stats_reply_unpack mem) = Some (take 24 mem) \<and>
    map_option of_port_stats_request_pack (of_port_stats_request_unpack mem) = Some (take 8 mem) \<and>
    map_option of_port_stats_pack (of_port_stats_unpack mem) = Some (take 104 mem) \<and>
    map_option of_queue_stats_request_pack (of_queue_stats_request_unpack mem) = Some (take 8 mem) \<and>
    map_option of_queue_stats_pack (of_queue_stats_unpack mem) = Some (take 32 mem) \<and>
    map_option of_packet_queue_pack (of_packet_queue_unpack mem) = Some (take 8 mem) \<and>
    map_option of_queue_prop_header_pack (of_queue_prop_header_unpack mem) = Some (take 8 mem) \<and>
    map_option of_queue_prop_min_rate_pack (of_queue_prop_min_rate_unpack mem) = Some (take 16 mem)"
  using assms
  by (simp add: header.map_pack_unpack
      hello.map_pack_unpack
      error_msg.map_pack_unpack
      vendor_header.map_pack_unpack
      switch_features.map_pack_unpack
      switch_config.map_pack_unpack
      packet_in.map_pack_unpack
      flow_removed.map_pack_unpack
      packet_out.map_pack_unpack
      flow_mod.map_pack_unpack
      port_mod.map_pack_unpack
      stats_request.map_pack_unpack
      stats_reply.map_pack_unpack
      queue_get_config_request.map_pack_unpack
      queue_get_config_reply.map_pack_unpack
      match.map_pack_unpack
      action_header.map_pack_unpack
      action_output.map_pack_unpack
      action_vlan_vid.map_pack_unpack
      action_vlan_pcp.map_pack_unpack
      action_dl_addr.map_pack_unpack
      action_nw_addr.map_pack_unpack
      action_nw_tos.map_pack_unpack
      action_tp_port.map_pack_unpack
      action_enqueue.map_pack_unpack
      action_vendor_header.map_pack_unpack
      flow_stats_request.map_pack_unpack
      flow_stats.map_pack_unpack
      aggregate_stats_request.map_pack_unpack
      aggregate_stats_reply.map_pack_unpack
      port_stats_request.map_pack_unpack
      port_stats.map_pack_unpack
      queue_stats_request.map_pack_unpack
      queue_stats.map_pack_unpack
      packet_queue.map_pack_unpack
      queue_prop_header.map_pack_unpack
      queue_prop_min_rate.map_pack_unpack)

theorem wire_exact_witness:
  "104 \<le> length (replicate 200 (7 :: uint8)) \<and>
   map_option of_flow_mod_pack (of_flow_mod_unpack (replicate 200 7)) = Some (take 72 (replicate 200 7))"
proof -
  have l: "104 \<le> length (replicate 200 (7 :: uint8))" by simp
  with wire_exact [OF l] show ?thesis by blast
qed

end
