(* ===== verification/Nox_Openflow_Pack.thy ===== *)
theory Nox_Openflow_Pack
  imports Nox_Ofpack_Action Nox_Netaddr
begin

unbundle bit_operations_syntax

text \<open>
  Transaction ids and message headers of \<^verbatim>\<open>src/src/lib/openflow-pack.cc\<close>, and the actions and action lists of
  \<^verbatim>\<open>src/src/lib/openflow-action.cc\<close>.  An action is the array \<^verbatim>\<open>action_raw\<close> that holds its packed structure.
\<close>

section \<open>Transaction ids\<close>

text \<open>
  The generator of the compiled method, \<^verbatim>\<open>OPENFLOW_PACK_XID_METHOD_PRIVSPACE\<close>: the id and the next value of the static
  counter \<^verbatim>\<open>nextxid\<close>.
\<close>

abbreviation OPENFLOW_PACK_MIN_XID :: uint32 where "OPENFLOW_PACK_MIN_XID \<equiv> 256"

definition get_xid :: "uint32 \<Rightarrow> uint32 \<times> uint32" where
  "get_xid nextxid =
     (let nextxid = (if nextxid \<ge> 0x80000000 then 0 else nextxid) in (nextxid, nextxid + 1))"

definition openflow_header :: "uint8 \<Rightarrow> uint16 \<Rightarrow> uint32 \<Rightarrow> of_header \<times> uint32" where
  "openflow_header ty len nextxid =
     (case get_xid nextxid of (xid, n) \<Rightarrow>
        (\<lparr>header_version = 1, header_type = ty, header_length = len, header_xid = xid\<rparr>, n))"

fun xids :: "nat \<Rightarrow> uint32 \<Rightarrow> uint32 list" where
  "xids 0 s = []"
| "xids (Suc n) s = (case get_xid s of (x, s') \<Rightarrow> x # xids n s')"

lemma get_xid_unat:
  assumes "unat s \<le> 2 ^ 31"
  shows "unat (fst (get_xid s)) = unat s mod 2 ^ 31" and "unat (snd (get_xid s)) = Suc (unat s mod 2 ^ 31)"
proof -
  let ?x = "fst (get_xid s)"
  have x: "unat ?x = unat s mod 2 ^ 31"
    using assms by (auto simp: get_xid_def Let_def word_le_nat_alt not_le mod_if)
  moreover have "unat s mod 2 ^ 31 < 2 ^ 31" by (rule mod_less_divisor) simp
  moreover have "unat (- 1 :: uint32) = 2 ^ 32 - 1" by (simp add: unsigned_minus_1_eq_mask mask_eq_exp_minus_1)
  ultimately have "?x \<noteq> - 1" by auto
  then have "unat (?x + 1) = Suc (unat ?x)" by (rule unat_plus_one)
  moreover have "snd (get_xid s) = ?x + 1" by (simp add: get_xid_def Let_def)
  ultimately show "unat ?x = unat s mod 2 ^ 31" and "unat (snd (get_xid s)) = Suc (unat s mod 2 ^ 31)"
    using x by simp_all
qed

lemma xids_unat:
  assumes "unat s \<le> 2 ^ 31"
  shows "map unat (xids n s) = map (\<lambda>k. (unat s + k) mod 2 ^ 31) [0..<n]"
  using assms
proof (induction n arbitrary: s)
  case (Suc n)
  let ?s = "snd (get_xid s)"
  have m: "(Suc (a mod N) + k) mod N = (a + Suc k) mod N" for a k N :: nat
    using mod_add_left_eq [of a N "Suc k"] by simp
  note g = get_xid_unat [OF Suc.prems]
  have "unat ?s \<le> 2 ^ 31" using g(2) by (simp add: Suc_leI)
  from Suc.IH [OF this] have "map unat (xids n ?s) = map (\<lambda>k. (Suc (unat s mod 2 ^ 31) + k) mod 2 ^ 31) [0..<n]"
    by (simp only: g(2))
  also have "\<dots> = map (\<lambda>k. (unat s + Suc k) mod 2 ^ 31) [0..<n]"
    by (simp only: m)
  also have "\<dots> = map (\<lambda>k. (unat s + k) mod 2 ^ 31) [1..<Suc n]"
    by (simp add: map_Suc_upt [symmetric] del: upt_Suc)
  finally show ?case
    using g(1) by (simp add: split_beta upt_conv_Cons del: upt_Suc)
qed simp

section \<open>Actions\<close>

definition set_action_nw_addr :: "uint16 \<Rightarrow> uint32 \<Rightarrow> bytes" where
  "set_action_nw_addr ty ip =
     of_action_nw_addr_pack \<lparr>action_nw_addr_type = ty, action_nw_addr_len = 8, action_nw_addr_nw_addr = ip\<rparr>"

definition set_action_dl_addr :: "uint16 \<Rightarrow> ethernetaddr \<Rightarrow> bytes" where
  "set_action_dl_addr ty mac =
     of_action_dl_addr_pack (of_action_dl_addr_new
       \<lparr>action_dl_addr_type := ty, action_dl_addr_len := 16, action_dl_addr_dl_addr := take 6 mac\<rparr>)"

definition set_action_enqueue :: "uint16 \<Rightarrow> uint32 \<Rightarrow> bytes" where
  "set_action_enqueue port queueid =
     of_action_enqueue_pack (of_action_enqueue_new
       \<lparr>action_enqueue_type := 11, action_enqueue_len := 16, action_enqueue_port := port,
        action_enqueue_queue_id := queueid\<rparr>)"

definition set_action_output :: "uint16 \<Rightarrow> uint16 \<Rightarrow> bytes" where
  "set_action_output port max_len =
     of_action_output_pack \<lparr>action_output_type = 0, action_output_len = 8, action_output_port = port,
       action_output_max_len = max_len\<rparr>"

definition get_header :: "bytes \<Rightarrow> of_action_header option" where
  "get_header action_raw = of_action_header_unpack action_raw"

text \<open>
  The loops over an action list.  A \<^verbatim>\<open>memcpy\<close> of more bytes than the array of an action has is a read out of bounds,
  \<open>None\<close>.  \<open>action_list_pack\<close> gives the bytes written from \<^verbatim>\<open>actions\<close> on.
\<close>

fun action_list_mem_size :: "bytes list \<Rightarrow> uint16 option" where
  "action_list_mem_size [] = Some 0"
| "action_list_mem_size (a # as) =
     Option.bind (get_header a) (\<lambda>oah. map_option (\<lambda>n. action_header_len oah + n) (action_list_mem_size as))"

fun action_list_pack :: "bytes list \<Rightarrow> bytes option" where
  "action_list_pack [] = Some []"
| "action_list_pack (a # as) =
     Option.bind (get_header a) (\<lambda>oah.
       if unat (action_header_len oah) \<le> length a
       then map_option (\<lambda>bs. take (unat (action_header_len oah)) a @ bs) (action_list_pack as) else None)"

text \<open>The actions the setters can make.\<close>

inductive made_action :: "bytes \<Rightarrow> bool" where
  nw_addr: "made_action (set_action_nw_addr ty ip)"
| dl_addr: "wf_eth mac \<Longrightarrow> made_action (set_action_dl_addr ty mac)"
| enqueue: "made_action (set_action_enqueue port queueid)"
| out_port: "made_action (set_action_output port max_len)"

lemma action_header_fields:
  "8 \<le> length a \<Longrightarrow> \<exists>oah. get_header a = Some oah \<and> action_header_len oah = ntohs (load16 2 a) \<and>
     action_header_type oah = ntohs (load16 0 a)"
  by (simp add: get_header_def of_action_header_unpack_def)

lemma made_action_length:
  assumes "made_action a"
  shows "8 \<le> length a" and "length a \<le> 16" and "4 dvd length a" and "load16 2 a = htons (of_nat (length a))"
  using assms
  by (induction; simp add: set_action_nw_addr_def set_action_dl_addr_def set_action_enqueue_def set_action_output_def
      of_action_nw_addr_pack_def of_action_dl_addr_pack_def of_action_enqueue_pack_def of_action_output_pack_def
      of_action_dl_addr_new_def of_action_enqueue_new_def wf_eth_def ethernetaddr_LEN_def byteorder)+

lemma made_action_header:
  assumes "made_action a"
  shows "\<exists>oah. get_header a = Some oah \<and> unat (action_header_len oah) = length a"
proof -
  note l = made_action_length [OF assms]
  from action_header_fields [OF l(1)] obtain oah where "get_header a = Some oah" "action_header_len oah = of_nat (length a)"
    by (auto simp: l(4))
  moreover have "unat (of_nat (length a) :: uint16) = length a"
    using l(2) by (simp add: unat_of_nat)
  ultimately show ?thesis by auto
qed

lemma action_list_pack_made:
  "list_all made_action as \<Longrightarrow> action_list_pack as = Some (concat as)"
proof (induction as)
  case (Cons a as)
  then obtain oah where "get_header a = Some oah" "unat (action_header_len oah) = length a"
    using made_action_header [of a] by auto
  with Cons show ?case by simp
qed simp

lemma action_list_mem_size_made:
  "list_all made_action as \<Longrightarrow> action_list_mem_size as = Some (of_nat (length (concat as)))"
proof (induction as)
  case (Cons a as)
  then obtain oah where h: "get_header a = Some oah" "unat (action_header_len oah) = length a"
    using made_action_header [of a] by auto
  then have "action_header_len oah = of_nat (length a)" by (metis of_nat_unat ucast_id)
  with Cons h show ?case by simp
qed simp

section \<open>Properties\<close>

text \<open>
  C34: packing an action list writes the actions one after the other and never reads past an action; the computed size is
  the number of bytes written, as long as that is below 65536.
\<close>

theorem action_list_layout:
  assumes "list_all made_action as" and "length (concat as) < 65536"
  shows "action_list_pack as = Some (concat as) \<and> map_option unat (action_list_mem_size as) = Some (length (concat as))"
  using assms by (simp add: action_list_pack_made action_list_mem_size_made unat_of_nat)

theorem action_list_layout_witness:
  "action_list_pack [set_action_output 3 0, set_action_enqueue 1 2] =
     Some (concat [set_action_output 3 0, set_action_enqueue 1 2]) \<and>
   map_option unat (action_list_mem_size [set_action_output 3 0, set_action_enqueue 1 2]) = Some 24"
proof -
  let ?as = "[set_action_output 3 0, set_action_enqueue 1 2]"
  have m: "list_all made_action ?as" by (simp add: made_action.out_port made_action.enqueue)
  have l: "length (concat ?as) = 24"
    by (simp add: set_action_output_def set_action_enqueue_def of_action_output_pack_def of_action_enqueue_pack_def of_action_enqueue_new_def)
  then have "length (concat ?as) < 65536" by simp
  from action_list_layout [OF m this] show ?thesis by (simp only: l)
qed

text \<open>
  The size of an action list is a 16-bit sum: for 8192 output actions it is zero, while 65536 bytes are written.
\<close>

theorem action_list_size_wraps:
  "action_list_mem_size (replicate 8192 (set_action_output port max_len)) = Some 0 \<and>
   map_option length (action_list_pack (replicate 8192 (set_action_output port max_len))) = Some 65536"
proof -
  let ?as = "replicate 8192 (set_action_output port max_len)"
  have m: "list_all made_action ?as" by (simp add: list_all_iff made_action.out_port)
  have "length (set_action_output port max_len) = 8" by (simp add: set_action_output_def of_action_output_pack_def)
  then have l: "length (concat ?as) = 65536" by (simp add: length_concat sum_list_replicate)
  show ?thesis
    unfolding action_list_pack_made [OF m] action_list_mem_size_made [OF m] by (simp only: option.map l) simp
qed

text \<open>
  C40: the transaction ids count from 256 modulo \<open>2 ^ 31\<close>: the ids of any \<open>2 ^ 31\<close> consecutive messages are distinct, and
  after \<open>2 ^ 31 - 256\<close> messages the reserved ids below 256 are handed out.
\<close>

theorem xid_sequence:
  "map unat (xids n OPENFLOW_PACK_MIN_XID) = map (\<lambda>k. (256 + k) mod 2 ^ 31) [0..<n] \<and>
   distinct (xids (2 ^ 31) OPENFLOW_PACK_MIN_XID) \<and>
   fst (get_xid 0x80000000) = 0"
proof -
  have e: "map unat (xids m OPENFLOW_PACK_MIN_XID) = map (\<lambda>k. (256 + k) mod 2 ^ 31) [0..<m]" for m
    using xids_unat [of OPENFLOW_PACK_MIN_XID m] by simp
  have *: "b \<le> a" if "(256 + a) mod N = (256 + b) mod N" and "b < N" and "a \<le> b" for a b N :: nat
    using that mod_eq_dvd_iff_nat [of "256 + a" "256 + b" N] dvd_imp_le [of N "b - a"] by (cases "a = b") simp_all
  have "inj_on (\<lambda>k :: nat. (256 + k) mod N) {0..<N}" for N
  proof (rule inj_onI)
    fix a b assume "a \<in> {0..<N}" "b \<in> {0..<N}" and eq: "(256 + a) mod N = (256 + b) mod N"
    then have lt: "a < N" "b < N" by simp_all
    from * [OF eq lt(2)] * [OF eq [symmetric] lt(1)] le_cases [of a b] show "a = b" using le_antisym by blast
  qed
  then have "distinct (map (\<lambda>k. (256 + k) mod 2 ^ 31) [0..<2 ^ 31 :: nat])"
    by (simp only: distinct_map distinct_upt set_upt simp_thms)
  then have "distinct (map unat (xids (2 ^ 31) OPENFLOW_PACK_MIN_XID))" by (simp only: e)
  then have "distinct (xids (2 ^ 31) OPENFLOW_PACK_MIN_XID)" by (simp only: distinct_map)
  moreover have "fst (get_xid 0x80000000) = 0" by (simp add: get_xid_def)
  ultimately show ?thesis using e by blast
qed

end
