(* ===== verification/Nox_Stats_In.thy ===== *)
theory Nox_Stats_In
  imports Nox_Ofpack_Stats Nox_Ofpack_Msg Nox_Openflow_Pack
begin

unbundle bit_operations_syntax

text \<open>
  The parts of incoming messages that are decoded by constructors of their own: ports (\<^verbatim>\<open>src/src/include/port.hh\<close>), table,
  port, queue, description and flow statistics (\<^verbatim>\<open>table-stats-in.hh\<close>, \<^verbatim>\<open>port-stats-in.hh\<close>, \<^verbatim>\<open>queue-stats-in.cc\<close>,
  \<^verbatim>\<open>desc-stats-in.hh\<close>, \<^verbatim>\<open>flow-stats-in.cc\<close>) and queue configurations (\<^verbatim>\<open>queue-config-in.cc\<close>).  A pointer into a message
  is the memory from there on, or an offset where the code keeps it; \<open>None\<close> is a read past the end of the message, an
  exception, or, for the two loops whose step is a length taken from the message, no return.
\<close>

section \<open>Ports\<close>

record port =
  port_no :: uint16
  port_name :: bytes
  port_speed :: uint32
  port_config :: uint32
  port_state :: uint32
  port_curr :: uint32
  port_advertised :: uint32
  port_supported :: uint32
  port_peer :: uint32
  port_hw_addr :: ethernetaddr

definition port_speed_of :: "uint32 \<Rightarrow> uint32" where
  "port_speed_of c =
     (if c AND 3 \<noteq> 0 then 10 else if c AND 12 \<noteq> 0 then 100 else if c AND 48 \<noteq> 0 then 1000
      else if c AND 64 \<noteq> 0 then 10000 else 0)"

definition Port :: "bytes \<Rightarrow> port option" where
  "Port mem =
     (if length mem < 48 then None
      else Option.bind (c_string (drop 8 mem)) (\<lambda>name.
        Some \<lparr>port_no = ntohs (load16 0 mem), port_name = name, port_speed = port_speed_of (ntohl (load32 32 mem)),
          port_config = ntohl (load32 24 mem), port_state = ntohl (load32 28 mem), port_curr = ntohl (load32 32 mem),
          port_advertised = ntohl (load32 36 mem), port_supported = ntohl (load32 40 mem),
          port_peer = ntohl (load32 44 mem), port_hw_addr = set_octet (drop 2 mem)\<rparr>))"

text \<open>The copy constructor, and the assignment operator, which leaves two members of the target alone.\<close>

definition Port_copy :: "port \<Rightarrow> port" where
  "Port_copy p =
     \<lparr>port_no = port_no p, port_name = port_name p, port_speed = port_speed p, port_config = port_config p,
      port_state = port_state p, port_curr = port_curr p, port_advertised = port_advertised p,
      port_supported = port_supported p, port_peer = port_peer p, port_hw_addr = set_octet (port_hw_addr p)\<rparr>"

definition Port_assign :: "port \<Rightarrow> port \<Rightarrow> port" where
  "Port_assign t p =
     t\<lparr>port_no := port_no p, port_name := port_name p, port_speed := port_speed p, port_config := port_config p,
       port_curr := port_curr p, port_advertised := port_advertised p, port_supported := port_supported p,
       port_peer := port_peer p\<rparr>"

section \<open>Arrays of structures\<close>

text \<open>The loops that read \<open>n\<close> structures of \<open>w\<close> bytes one after the other.\<close>

fun read_array :: "(bytes \<Rightarrow> 'a option) \<Rightarrow> nat \<Rightarrow> nat \<Rightarrow> bytes \<Rightarrow> 'a list option" where
  "read_array f w 0 mem = Some []"
| "read_array f w (Suc n) mem =
     Option.bind (f mem) (\<lambda>x. map_option ((#) x) (read_array f w n (drop w mem)))"

record table_stats =
  ts_table_id :: uint8
  ts_name :: bytes
  ts_max_entries :: uint32
  ts_active_count :: uint32
  ts_lookup_count :: uint64
  ts_matched_count :: uint64

definition Table_stats :: "bytes \<Rightarrow> table_stats option" where
  "Table_stats mem =
     (if length mem < 64 then None
      else Option.bind (c_string (drop 4 mem)) (\<lambda>name.
        Some \<lparr>ts_table_id = load8 0 mem, ts_name = name, ts_max_entries = htonl (load32 40 mem),
          ts_active_count = htonl (load32 44 mem), ts_lookup_count = htonll (load64 48 mem),
          ts_matched_count = htonll (load64 56 mem)\<rparr>))"

record port_stats =
  ps_port_no :: uint16
  ps_rx_packets :: uint64
  ps_tx_packets :: uint64
  ps_rx_bytes :: uint64
  ps_tx_bytes :: uint64
  ps_rx_dropped :: uint64
  ps_tx_dropped :: uint64
  ps_rx_errors :: uint64
  ps_tx_errors :: uint64
  ps_rx_frame_err :: uint64
  ps_rx_over_err :: uint64
  ps_rx_crc_err :: uint64
  ps_collisions :: uint64

definition Port_stats :: "bytes \<Rightarrow> port_stats option" where
  "Port_stats mem =
     (if length mem < 104 then None
      else Some \<lparr>ps_port_no = ntohs (load16 0 mem), ps_rx_packets = ntohll (load64 8 mem),
        ps_tx_packets = ntohll (load64 16 mem), ps_rx_bytes = ntohll (load64 24 mem), ps_tx_bytes = ntohll (load64 32 mem),
        ps_rx_dropped = ntohll (load64 40 mem), ps_tx_dropped = ntohll (load64 48 mem),
        ps_rx_errors = ntohll (load64 56 mem), ps_tx_errors = ntohll (load64 64 mem),
        ps_rx_frame_err = ntohll (load64 72 mem), ps_rx_over_err = ntohll (load64 80 mem),
        ps_rx_crc_err = ntohll (load64 88 mem), ps_collisions = ntohll (load64 96 mem)\<rparr>)"

record queue_stats =
  qs_port_no :: uint16
  qs_queue_id :: uint32
  qs_tx_bytes :: uint64
  qs_tx_packets :: uint64
  qs_tx_errors :: uint64

definition Queue_stats :: "bytes \<Rightarrow> queue_stats option" where
  "Queue_stats mem =
     (if length mem < 32 then None
      else Some \<lparr>qs_port_no = ntohs (load16 0 mem), qs_queue_id = ntohl (load32 4 mem), qs_tx_bytes = ntohll (load64 8 mem),
        qs_tx_packets = ntohll (load64 16 mem), qs_tx_errors = ntohll (load64 24 mem)\<rparr>)"

record desc_stats =
  ds_mfr_desc :: bytes
  ds_hw_desc :: bytes
  ds_sw_desc :: bytes
  ds_dp_desc :: bytes
  ds_serial_num :: bytes

definition Desc_stats :: "bytes \<Rightarrow> desc_stats option" where
  "Desc_stats mem =
     Option.bind (c_string mem) (\<lambda>mfr.
     Option.bind (c_string (drop 256 mem)) (\<lambda>hw.
     Option.bind (c_string (drop 512 mem)) (\<lambda>sw.
     Option.bind (c_string (drop 800 mem)) (\<lambda>dp.
     Option.bind (c_string (drop 768 mem)) (\<lambda>serial.
       Some \<lparr>ds_mfr_desc = mfr, ds_hw_desc = hw, ds_sw_desc = sw, ds_dp_desc = dp, ds_serial_num = serial\<rparr>)))))"

section \<open>Flow statistics\<close>

text \<open>
  An entry keeps a copy of the fixed structure in network byte order, a copy of the actions, and pointers to the action
  headers inside the message, here as offsets.
\<close>

record flow_stats =
  fs_fixed :: bytes
  fs_action_data :: bytes
  fs_v_actions :: "nat list"

partial_function (option) action_walk :: "bytes \<Rightarrow> nat \<Rightarrow> nat \<Rightarrow> nat list option" where
  "action_walk msg p e =
     (if p < e
      then if p + 4 \<le> length msg
           then Option.bind (action_walk msg (p + unat (ntohs (load16 (p + 2) msg))) e) (\<lambda>as. Some (p # as))
           else None
      else Some [])"

definition Flow_stats :: "bytes \<Rightarrow> nat \<Rightarrow> flow_stats option" where
  "Flow_stats msg ofs =
     (if length msg < ofs + 88 then None
      else let len = unat (ntohs (load16 ofs msg)) in
        if len < 88 \<or> length msg < ofs + len then None
        else map_option (\<lambda>as. \<lparr>fs_fixed = take 88 (drop ofs msg), fs_action_data = take (len - 88) (drop (ofs + 88) msg),
            fs_v_actions = as\<rparr>) (action_walk msg (ofs + 88) (ofs + len)))"

function flow_stats_loop :: "bytes \<Rightarrow> nat \<Rightarrow> nat \<Rightarrow> flow_stats list option" where
  "flow_stats_loop msg ofs flow_len =
     (if flow_len < 88 then Some []
      else if length msg < ofs + 2 then None
      else let len = unat (ntohs (load16 ofs msg)) in
        if flow_len < len then Some []
        else (case Flow_stats msg ofs of
                None \<Rightarrow> None
              | Some fs \<Rightarrow> map_option ((#) fs) (flow_stats_loop msg (ofs + len) (flow_len - len))))"
  by pat_completeness auto
termination
proof (relation "measure (\<lambda>(msg, ofs, flow_len). flow_len)", goal_cases)
  case 1
  show ?case by simp
next
  case (2 msg ofs flow_len len fs)
  then have "88 \<le> len" by (auto simp: Flow_stats_def Let_def split: if_splits)
  with 2 show ?case by auto
qed

declare flow_stats_loop.simps [simp del]

section \<open>Queue configurations\<close>

text \<open>
  The properties of a queue are kept in a vector of \<^verbatim>\<open>Packet_queue_property\<close>, a class without members: what is left of a
  property is that there is one.  The lengths are the unsigned 64-bit integers of the code.
\<close>

record packet_queue =
  pq_queue_id :: uint32
  pq_len :: uint16
  pq_properties :: "unit list"

partial_function (option) property_loop :: "bytes \<Rightarrow> nat \<Rightarrow> uint64 \<Rightarrow> unit list option" where
  "property_loop msg oqph len =
     (if - 8 < len
      then if length msg < oqph + 4 then None
           else if len < ucast (ntohs (load16 (oqph + 2) msg)) then Some []
           else if ntohs (load16 oqph msg) = 1 \<and> length msg < oqph + 10 then None
           else Option.bind (property_loop msg (oqph + unat (ntohs (load16 (oqph + 2) msg)))
                  (len - ucast (ntohs (load16 (oqph + 2) msg))))
                  (\<lambda>ps. Some (if ntohs (load16 oqph msg) = 1 then () # ps else ps))
      else Some [])"

definition Packet_queue :: "bytes \<Rightarrow> nat \<Rightarrow> packet_queue option" where
  "Packet_queue msg opq =
     (if length msg < opq + 6 then None
      else map_option (\<lambda>ps. \<lparr>pq_queue_id = ucast (ntohll (ucast (load32 opq msg))), pq_len = ntohs (load16 (opq + 4) msg),
            pq_properties = ps\<rparr>) (property_loop msg (opq + 8) (ucast (ntohs (load16 (opq + 4) msg)) - 8)))"

partial_function (option) queue_loop :: "bytes \<Rightarrow> nat \<Rightarrow> nat \<Rightarrow> packet_queue list option" where
  "queue_loop msg opq len =
     (if 8 \<le> len
      then if length msg < opq + 6 then None
           else if len < unat (ntohs (load16 (opq + 4) msg)) then Some []
           else Option.bind (Packet_queue msg opq) (\<lambda>q.
                  Option.bind (queue_loop msg (opq + unat (ntohs (load16 (opq + 4) msg)))
                    (len - unat (ntohs (load16 (opq + 4) msg)))) (\<lambda>qs. Some (q # qs)))
      else Some [])"

section \<open>Decoding what a switch encodes\<close>

text \<open>
  A reader of a structure does less than the codec of the structure: it keeps some of the members.  What a client relies on
  is that it reads the members of a packed structure, and nothing past it.
\<close>

locale struct_reader = wire_codec pack unpack same width wf
  for pack :: "'a \<Rightarrow> bytes" and unpack :: "bytes \<Rightarrow> 'a option" and same :: "'a \<Rightarrow> 'a \<Rightarrow> bool" and width :: nat
    and wf :: "'a \<Rightarrow> bool" +
  fixes read :: "bytes \<Rightarrow> 'b option" and view :: "'a \<Rightarrow> 'b"
  assumes read_pack: "wf x \<Longrightarrow> read (pack x @ rest) = Some (view x)"
begin

lemma read_array_pack:
  "list_all wf xs \<Longrightarrow> read_array read width (length xs) (concat (map pack xs) @ rest) = Some (map view xs)"
  by (induction xs) (simp_all add: read_pack length_pack)

lemma length_concat_pack: "list_all wf xs \<Longrightarrow> length (concat (map pack xs)) = length xs * width"
  by (induction xs) (simp_all add: length_pack)

end

lemma read_array_defined:
  assumes "\<And>mem. w \<le> length mem \<Longrightarrow> f mem \<noteq> None" and "n * w \<le> length mem"
  shows "read_array f w n mem \<noteq> None"
  using assms(2)
proof (induction n arbitrary: mem)
  case (Suc n)
  then have "f mem \<noteq> None" and "read_array f w n (drop w mem) \<noteq> None"
    by (simp_all add: assms(1) del: not_None_eq)
  then show ?case by auto
qed simp

definition port_of :: "of_phy_port \<Rightarrow> port" where
  "port_of p =
     \<lparr>port_no = phy_port_port_no p, port_name = phy_port_name p, port_speed = port_speed_of (phy_port_curr p),
      port_config = phy_port_config p, port_state = phy_port_state p, port_curr = phy_port_curr p,
      port_advertised = phy_port_advertised p, port_supported = phy_port_supported p, port_peer = phy_port_peer p,
      port_hw_addr = phy_port_hw_addr p\<rparr>"

interpretation ports: struct_reader of_phy_port_pack of_phy_port_unpack of_phy_port_eq 48 of_phy_port_wf Port port_of
proof
  show "Port (of_phy_port_pack x @ rest) = Some (port_of x)" if "of_phy_port_wf x" for x rest
    using that
    by (simp add: Port_def port_of_def of_phy_port_pack_def of_phy_port_wf_def set_octet_def ethernetaddr_LEN_def
        codec_length codec_unpack byteorder)
qed

definition table_stats_of :: "of_table_stats \<Rightarrow> table_stats" where
  "table_stats_of t =
     \<lparr>ts_table_id = table_stats_table_id t, ts_name = table_stats_name t, ts_max_entries = table_stats_max_entries t,
      ts_active_count = table_stats_active_count t, ts_lookup_count = table_stats_lookup_count t,
      ts_matched_count = table_stats_matched_count t\<rparr>"

interpretation tables: struct_reader of_table_stats_pack of_table_stats_unpack of_table_stats_eq 64 of_table_stats_wf
  Table_stats table_stats_of
proof
  show "Table_stats (of_table_stats_pack x @ rest) = Some (table_stats_of x)" if "of_table_stats_wf x" for x rest
    using that
    by (simp add: Table_stats_def table_stats_of_def of_table_stats_pack_def of_table_stats_wf_def
        codec_length codec_unpack byteorder)
qed

definition port_stats_of :: "of_port_stats \<Rightarrow> port_stats" where
  "port_stats_of p =
     \<lparr>ps_port_no = port_stats_port_no p, ps_rx_packets = port_stats_rx_packets p, ps_tx_packets = port_stats_tx_packets p,
      ps_rx_bytes = port_stats_rx_bytes p, ps_tx_bytes = port_stats_tx_bytes p, ps_rx_dropped = port_stats_rx_dropped p,
      ps_tx_dropped = port_stats_tx_dropped p, ps_rx_errors = port_stats_rx_errors p, ps_tx_errors = port_stats_tx_errors p,
      ps_rx_frame_err = port_stats_rx_frame_err p, ps_rx_over_err = port_stats_rx_over_err p,
      ps_rx_crc_err = port_stats_rx_crc_err p, ps_collisions = port_stats_collisions p\<rparr>"

interpretation port_counters: struct_reader of_port_stats_pack of_port_stats_unpack of_port_stats_eq 104 of_port_stats_wf
  Port_stats port_stats_of
proof
  show "Port_stats (of_port_stats_pack x @ rest) = Some (port_stats_of x)" if "of_port_stats_wf x" for x rest
    using that
    by (simp add: Port_stats_def port_stats_of_def of_port_stats_pack_def of_port_stats_wf_def
        codec_length codec_unpack byteorder)
qed

definition queue_stats_of :: "of_queue_stats \<Rightarrow> queue_stats" where
  "queue_stats_of q =
     \<lparr>qs_port_no = queue_stats_port_no q, qs_queue_id = queue_stats_queue_id q, qs_tx_bytes = queue_stats_tx_bytes q,
      qs_tx_packets = queue_stats_tx_packets q, qs_tx_errors = queue_stats_tx_errors q\<rparr>"

interpretation queue_counters: struct_reader of_queue_stats_pack of_queue_stats_unpack of_queue_stats_eq 32 of_queue_stats_wf
  Queue_stats queue_stats_of
proof
  show "Queue_stats (of_queue_stats_pack x @ rest) = Some (queue_stats_of x)" if "of_queue_stats_wf x" for x rest
    using that
    by (simp add: Queue_stats_def queue_stats_of_def of_queue_stats_pack_def of_queue_stats_wf_def
        codec_length codec_unpack byteorder)
qed

definition desc_stats_of :: "of_desc_stats \<Rightarrow> desc_stats" where
  "desc_stats_of d =
     \<lparr>ds_mfr_desc = desc_stats_mfr_desc d, ds_hw_desc = desc_stats_hw_desc d, ds_sw_desc = desc_stats_sw_desc d,
      ds_dp_desc = desc_stats_dp_desc d, ds_serial_num = desc_stats_serial_num d\<rparr>"

interpretation descriptions: struct_reader of_desc_stats_pack of_desc_stats_unpack of_desc_stats_eq 1056 of_desc_stats_wf
  Desc_stats desc_stats_of
proof
  show "Desc_stats (of_desc_stats_pack x @ rest) = Some (desc_stats_of x)" if "of_desc_stats_wf x" for x rest
    using that
    by (simp add: Desc_stats_def desc_stats_of_def of_desc_stats_pack_def of_desc_stats_wf_def
        codec_length codec_unpack byteorder)
qed

section \<open>Flow entries\<close>

text \<open>An action as it may stand in a message: its length field is its length.\<close>

definition action_bytes :: "bytes \<Rightarrow> bool" where
  "action_bytes a \<longleftrightarrow> 4 \<le> length a \<and> length a < 65536 \<and> load16 2 a = htons (of_nat (length a))"

lemma made_action_bytes: "made_action a \<Longrightarrow> action_bytes a"
  using made_action_length [of a] by (auto simp: action_bytes_def)

fun offsets :: "nat \<Rightarrow> bytes list \<Rightarrow> nat list" where
  "offsets p [] = []"
| "offsets p (a # as) = p # offsets (p + length a) as"

lemma load16_append_left: "k + 2 \<le> length xs \<Longrightarrow> load16 k (xs @ ys) = load16 k xs"
  by (simp add: load16_def)

lemma load16_inside: "k + 2 \<le> length xs \<Longrightarrow> load16 (length pre + k) (pre @ xs @ ys) = load16 k xs"
  by (simp add: load16_def)

lemma unat_of_nat16: "n < 65536 \<Longrightarrow> unat (of_nat n :: uint16) = n"
  by (simp add: unat_of_nat)

lemma action_walk_bytes:
  assumes "list_all action_bytes as"
  shows "action_walk (pre @ concat as @ rest) (length pre) (length pre + length (concat as)) = Some (offsets (length pre) as)"
  using assms
proof (induction as arbitrary: pre)
  case Nil
  show ?case by (subst action_walk.simps) simp
next
  case (Cons a as)
  then have a: "4 \<le> length a" "length a < 65536" "load16 2 a = htons (of_nat (length a))" and as: "list_all action_bytes as"
    using action_bytes_def [of a] by simp_all
  have l: "load16 (length pre + 2) (pre @ concat (a # as) @ rest) = htons (of_nat (length a))"
    using a load16_inside [of 2 a pre "concat as @ rest"] by simp
  have w: "unat (ntohs (htons (of_nat (length a)))) = length a"
    using a(2) by (simp add: byteorder unat_of_nat16)
  from Cons.IH [OF as, of "pre @ a"]
  have "action_walk (pre @ concat (a # as) @ rest) (length pre + length a) (length pre + length (concat (a # as))) =
      Some (offsets (length pre + length a) as)" by (simp add: add.assoc)
  with a(1) l w show ?case by (subst action_walk.simps) (auto simp: numeral_2_eq_2)
qed

lemma action_walk_zero:
  assumes "p < e" and "load16 (p + 2) msg = 0"
  shows "action_walk msg p e = None"
proof -
  let ?P = "\<lambda>msg p e (as :: nat list). \<not> (p < e \<and> load16 (p + 2) msg = 0)"
  have "?P msg p e as" if "action_walk msg p e = Some as" for as
  proof (rule action_walk.raw_induct [of ?P, OF _ that])
    fix walk msg p e y
    assume IH: "\<And>msg p e y. walk msg p e = Some y \<Longrightarrow> ?P msg p e y"
      and eq: "(if p < e
          then if p + 4 \<le> length msg
               then Option.bind (walk msg (p + unat (ntohs (load16 (p + 2) msg))) e) (\<lambda>as. Some (p # as)) else None
          else Some []) = Some y"
    show "?P msg p e y"
    proof
      assume z: "p < e \<and> load16 (p + 2) msg = 0"
      with eq obtain y' where "walk msg p e = Some y'"
        by (auto simp: byteorder bind_eq_Some_conv split: if_splits)
      from IH [OF this] z show False by blast
    qed
  qed
  with assms show ?thesis by (cases "action_walk msg p e") auto
qed

text \<open>A flow entry as a switch sends it: the fixed structure, with the length of the whole entry, and the actions.\<close>

type_synonym flow_entry = "of_flow_stats \<times> bytes list"

definition entry_ok :: "flow_entry \<Rightarrow> bool" where
  "entry_ok en \<longleftrightarrow> of_flow_stats_wf (fst en) \<and> list_all action_bytes (snd en) \<and>
     88 + length (concat (snd en)) < 65536 \<and> flow_stats_length (fst en) = of_nat (88 + length (concat (snd en)))"

definition entry_bytes :: "flow_entry \<Rightarrow> bytes" where
  "entry_bytes en = of_flow_stats_pack (fst en) @ concat (snd en)"

definition entry_stats :: "nat \<Rightarrow> flow_entry \<Rightarrow> flow_stats" where
  "entry_stats ofs en =
     \<lparr>fs_fixed = of_flow_stats_pack (fst en), fs_action_data = concat (snd en), fs_v_actions = offsets (ofs + 88) (snd en)\<rparr>"

fun entries_stats :: "nat \<Rightarrow> flow_entry list \<Rightarrow> flow_stats list" where
  "entries_stats ofs [] = []"
| "entries_stats ofs (en # es) = entry_stats ofs en # entries_stats (ofs + length (entry_bytes en)) es"

lemma entry_length:
  assumes "entry_ok en"
  shows "length (entry_bytes en) = 88 + length (concat (snd en))"
    and "unat (ntohs (load16 (length pre) (pre @ entry_bytes en @ rest))) = length (entry_bytes en)"
proof -
  from assms have p: "length (of_flow_stats_pack (fst en)) = 88" by (simp add: entry_ok_def flow_stats.length_pack)
  then show l: "length (entry_bytes en) = 88 + length (concat (snd en))" by (simp add: entry_bytes_def)
  have "load16 0 (of_flow_stats_pack (fst en)) = htons (flow_stats_length (fst en))"
    by (simp add: of_flow_stats_pack_def byteorder)
  with p have "load16 0 (entry_bytes en) = htons (flow_stats_length (fst en))"
    by (simp add: entry_bytes_def load16_append_left)
  then have "load16 (length pre) (pre @ entry_bytes en @ rest) = htons (flow_stats_length (fst en))"
    using load16_inside [of 0 "entry_bytes en" pre rest] l by simp
  with assms l show "unat (ntohs (load16 (length pre) (pre @ entry_bytes en @ rest))) = length (entry_bytes en)"
    by (simp add: entry_ok_def byteorder unat_of_nat16 del: of_nat_add)
qed

lemma Flow_stats_entry:
  assumes "entry_ok en"
  shows "Flow_stats (pre @ entry_bytes en @ rest) (length pre) = Some (entry_stats (length pre) en)"
proof -
  note l = entry_length [OF assms]
  from assms have p: "length (of_flow_stats_pack (fst en)) = 88" and as: "list_all action_bytes (snd en)"
    by (simp_all add: entry_ok_def flow_stats.length_pack)
  have "action_walk (pre @ entry_bytes en @ rest) (length pre + 88) (length pre + (88 + length (concat (snd en)))) =
      Some (offsets (length pre + 88) (snd en))"
    using action_walk_bytes [OF as, of "pre @ of_flow_stats_pack (fst en)" rest] p by (simp add: entry_bytes_def add.assoc)
  then show ?thesis
    unfolding Flow_stats_def Let_def l(2) using l(1) p by (simp add: entry_stats_def entry_bytes_def)
qed

lemma flow_stats_loop_entries:
  assumes "list_all entry_ok es"
  shows "flow_stats_loop (pre @ concat (map entry_bytes es) @ rest) (length pre) (length (concat (map entry_bytes es))) =
    Some (entries_stats (length pre) es)"
  using assms
proof (induction es arbitrary: pre)
  case Nil
  show ?case by (subst flow_stats_loop.simps) simp
next
  case (Cons en es)
  then have en: "entry_ok en" and es: "list_all entry_ok es" by auto
  note l = entry_length [OF en]
  let ?rest = "concat (map entry_bytes es) @ rest"
  note f = Flow_stats_entry [OF en, of pre ?rest] and n = l(2) [of pre ?rest]
  from Cons.IH [OF es, of "pre @ entry_bytes en"]
  have "flow_stats_loop (pre @ entry_bytes en @ ?rest) (length pre + length (entry_bytes en))
      (length (concat (map entry_bytes es))) = Some (entries_stats (length pre + length (entry_bytes en)) es)" by simp
  with f n l(1) show ?case by (subst flow_stats_loop.simps) (simp add: Let_def)
qed

section \<open>Queues\<close>

lemma queue_id_lost: "ucast (ntohll (ucast (x :: uint32))) = (0 :: uint32)"
proof (rule bit_word_eqI)
  fix n assume "n < LENGTH(32)"
  then have "n div 8 \<le> 3" by simp
  then have "\<not> bit x (8 * (7 - n div 8) + n mod 8)" using bit_imp_le_length [of x "8 * (7 - n div 8) + n mod 8"] by auto
  then show "bit (ucast (ntohll (ucast x)) :: uint32) n \<longleftrightarrow> bit (0 :: uint32) n"
    by (simp add: bit_simps bit_htonll ntohll_htonll_eq)
qed

lemma property_loop_skipped: "8 \<le> l \<Longrightarrow> property_loop msg p (ucast l - 8) = Some []" for l :: uint16
proof -
  assume l: "8 \<le> l"
  have b: "unat l < 65536" by (rule order_less_le_trans [OF unsigned_less]) simp
  then have u: "unat (ucast l :: uint64) = unat l"
    by (simp add: unsigned_ucast_eq take_bit_nat_eq_self)
  then have "(8 :: uint64) \<le> ucast l" using l by (simp add: word_le_nat_alt)
  then have "unat (ucast l - 8 :: uint64) = unat (ucast l :: uint64) - 8" by (simp add: unat_sub)
  moreover have "unat (ucast l :: uint64) < 65536" using b by (simp add: u)
  moreover have "unat (- 8 :: uint64) = 2 ^ 64 - 8" by simp
  ultimately have "\<not> (- 8 :: uint64) < ucast l - 8" by (simp add: word_less_nat_alt)
  then show "property_loop msg p (ucast l - 8) = Some []" by (subst property_loop.simps) simp
qed

text \<open>A queue description as a switch sends it: the fixed structure, with the length of the whole, and the properties.\<close>

definition queue_ok :: "of_packet_queue \<times> bytes \<Rightarrow> bool" where
  "queue_ok q \<longleftrightarrow> of_packet_queue_wf (fst q) \<and> 8 + length (snd q) < 65536 \<and>
     packet_queue_len (fst q) = of_nat (8 + length (snd q))"

definition queue_bytes :: "of_packet_queue \<times> bytes \<Rightarrow> bytes" where
  "queue_bytes q = of_packet_queue_pack (fst q) @ snd q"

lemma queue_length:
  assumes "queue_ok q"
  shows "length (queue_bytes q) = 8 + length (snd q)"
    and "ntohs (load16 (length pre + 4) (pre @ queue_bytes q @ rest)) = of_nat (length (queue_bytes q))"
    and "unat (of_nat (length (queue_bytes q)) :: uint16) = length (queue_bytes q)"
proof -
  from assms have p: "length (of_packet_queue_pack (fst q)) = 8" by (simp add: queue_ok_def packet_queue.length_pack)
  then show l: "length (queue_bytes q) = 8 + length (snd q)" by (simp add: queue_bytes_def)
  from assms show "unat (of_nat (length (queue_bytes q)) :: uint16) = length (queue_bytes q)"
    unfolding l by (simp add: queue_ok_def unat_of_nat16 del: of_nat_add)
  have "load16 4 (of_packet_queue_pack (fst q)) = htons (packet_queue_len (fst q))"
    by (simp add: of_packet_queue_pack_def byteorder)
  with p have "load16 4 (queue_bytes q) = htons (packet_queue_len (fst q))"
    by (simp add: queue_bytes_def load16_append_left)
  then show "ntohs (load16 (length pre + 4) (pre @ queue_bytes q @ rest)) = of_nat (length (queue_bytes q))"
    using load16_inside [of 4 "queue_bytes q" pre rest] l assms by (simp add: queue_ok_def byteorder del: of_nat_add)
qed

lemma Packet_queue_bytes:
  assumes "queue_ok q"
  shows "Packet_queue (pre @ queue_bytes q @ rest) (length pre) =
    Some \<lparr>pq_queue_id = 0, pq_len = of_nat (length (queue_bytes q)), pq_properties = []\<rparr>"
proof -
  note l = queue_length [OF assms]
  from l(1,3) have "(8 :: uint16) \<le> of_nat (length (queue_bytes q))" by (simp add: word_le_nat_alt del: of_nat_add)
  from property_loop_skipped [OF this] l(1,2) show ?thesis
    by (simp add: Packet_queue_def queue_id_lost [unfolded ntohll_htonll_eq])
qed

lemma queue_loop_bytes:
  assumes "list_all queue_ok qs"
  shows "queue_loop (pre @ concat (map queue_bytes qs) @ rest) (length pre) (length (concat (map queue_bytes qs))) =
    Some (map (\<lambda>q. \<lparr>pq_queue_id = 0, pq_len = of_nat (length (queue_bytes q)), pq_properties = []\<rparr>) qs)"
  using assms
proof (induction qs arbitrary: pre)
  case Nil
  show ?case by (subst queue_loop.simps) simp
next
  case (Cons q qs)
  then have q: "queue_ok q" and qs: "list_all queue_ok qs" by auto
  let ?rest = "concat (map queue_bytes qs) @ rest"
  note l = queue_length(1,3) [OF q] and n = queue_length(2) [OF q, of pre ?rest]
  from Cons.IH [OF qs, of "pre @ queue_bytes q"]
  have ih: "queue_loop (pre @ queue_bytes q @ ?rest) (length pre + length (queue_bytes q)) (length (concat (map queue_bytes qs))) =
      Some (map (\<lambda>q. \<lparr>pq_queue_id = 0, pq_len = of_nat (length (queue_bytes q)), pq_properties = []\<rparr>) qs)" by simp
  have "queue_loop (pre @ queue_bytes q @ ?rest) (length pre) (length (queue_bytes q) + length (concat (map queue_bytes qs))) =
      Some (\<lparr>pq_queue_id = 0, pq_len = of_nat (length (queue_bytes q)), pq_properties = []\<rparr> #
        map (\<lambda>q. \<lparr>pq_queue_id = 0, pq_len = of_nat (length (queue_bytes q)), pq_properties = []\<rparr>) qs)"
    by (subst queue_loop.simps, unfold n l(2) Packet_queue_bytes [OF q, of pre ?rest]) (use l(1) ih in simp)
  then show ?case by simp
qed

lemma queue_loop_zero:
  assumes "8 \<le> len" and "load16 (opq + 4) msg = 0"
  shows "queue_loop msg opq len = None"
proof -
  let ?P = "\<lambda>msg opq len (qs :: packet_queue list). \<not> (8 \<le> len \<and> load16 (opq + 4) msg = 0)"
  have "?P msg opq len qs" if "queue_loop msg opq len = Some qs" for qs
  proof (rule queue_loop.raw_induct [of ?P, OF _ that])
    fix loop msg opq len y
    assume IH: "\<And>msg opq len y. loop msg opq len = Some y \<Longrightarrow> ?P msg opq len y"
      and eq: "(if 8 \<le> len
        then if length msg < opq + 6 then None
             else if len < unat (ntohs (load16 (opq + 4) msg)) then Some []
             else Option.bind (Packet_queue msg opq) (\<lambda>q.
                  Option.bind (loop msg (opq + unat (ntohs (load16 (opq + 4) msg)))
                    (len - unat (ntohs (load16 (opq + 4) msg)))) (\<lambda>qs. Some (q # qs)))
        else Some []) = Some y"
    show "?P msg opq len y"
    proof
      assume z: "8 \<le> len \<and> load16 (opq + 4) msg = 0"
      with eq obtain y' where "loop msg opq len = Some y'"
        by (auto simp: byteorder bind_eq_Some_conv split: if_splits)
      from IH [OF this] z show False by blast
    qed
  qed
  with assms show ?thesis by (cases "queue_loop msg opq len") auto
qed

end
