(* ===== verification/Nox_Of_Event.thy ===== *)
theory Nox_Of_Event
  imports Nox_Stats_In Nox_Flow
begin

unbundle bit_operations_syntax

text \<open>
  The decoder of OpenFlow messages, \<^verbatim>\<open>src/src/lib/openflow-event.cc\<close>, with the constructors of the events it makes.  The
  result of a handler is \<open>Some None\<close> when it returns no event; \<open>None\<close> is a failed assertion, an exception, a read past the
  end of the message, the use of a null pointer, or no return.  Only the messages of the management channel change the
  connection: \<open>ext_data_buffer\<close> collects the fragments of a message, and is null while it is handed on.
\<close>

section \<open>Connections and events\<close>

record oconn =
  oc_datapath_id :: datapathid
  ext_data_xid :: uint32
  ext_data_buffer :: "bytes option"

definition new_oconn :: "datapathid \<Rightarrow> oconn" where
  "new_oconn dpid = \<lparr>oc_datapath_id = dpid, ext_data_xid = - 1, ext_data_buffer = Some []\<rparr>"

record packet_in_event =
  pi_datapath_id :: datapathid
  pi_in_port :: uint16
  pi_total_len :: nat
  pi_buffer_id :: uint32
  pi_reason :: uint8
  pi_flow :: flow
  pi_buf :: bytes

record flow_removed_event =
  fr_datapath_id :: datapathid
  fr_priority :: uint16
  fr_reason :: uint8
  fr_cookie :: uint64
  fr_duration_sec :: uint32
  fr_duration_nsec :: uint32
  fr_idle_timeout :: uint16
  fr_packet_count :: uint64
  fr_byte_count :: uint64

datatype of_event =
    Openflow_msg_event datapathid bytes
  | Packet_in_event packet_in_event
  | Flow_removed_event flow_removed_event
  | Queue_config_in_event datapathid uint16 "packet_queue list"
  | Port_status_event datapathid uint8 port
  | Queue_stats_in_event datapathid "queue_stats list"
  | Aggregate_stats_in_event datapathid uint64 uint64 uint32
  | Table_stats_in_event datapathid "table_stats list"
  | Port_stats_in_event datapathid "port_stats list"
  | Desc_stats_in_event datapathid desc_stats
  | Flow_stats_in_event datapathid bool "flow_stats list"
  | Ofmp_config_update_event datapathid bytes
  | Ofmp_config_update_ack_event datapathid bytes
  | Ofmp_resources_update_event datapathid bytes
  | Barrier_reply_event datapathid bytes
  | Echo_request_event datapathid bytes
  | Error_event datapathid uint16 uint16 bytes

type_synonym handled = "of_event option option"

section \<open>Constructors of the events\<close>

text \<open>\<open>buf\<close> is the message for most events; a packet-in and an echo request keep what follows their fixed part.\<close>

definition new_Packet_in_event :: "datapathid \<Rightarrow> bytes \<Rightarrow> bytes \<Rightarrow> of_event option" where
  "new_Packet_in_event dpid opi buf =
     (if length opi < 17 then None
      else Some (Packet_in_event
        \<lparr>pi_datapath_id = dpid, pi_in_port = ntohs (load16 14 opi), pi_total_len = unat (ntohs (load16 12 opi)),
         pi_buffer_id = ntohl (load32 8 opi), pi_reason = load8 16 opi,
         pi_flow = Flow_of_packet (htons (ntohs (load16 14 opi))) buf 0, pi_buf = buf\<rparr>))"

definition new_Flow_removed_event :: "datapathid \<Rightarrow> bytes \<Rightarrow> of_event option" where
  "new_Flow_removed_event dpid ofr =
     (if length ofr < 88 then None
      else Some (Flow_removed_event
        \<lparr>fr_datapath_id = dpid, fr_priority = ntohs (load16 56 ofr), fr_reason = load8 58 ofr,
         fr_cookie = ntohll (load64 48 ofr), fr_duration_sec = ntohl (load32 60 ofr),
         fr_duration_nsec = ntohl (load32 64 ofr), fr_idle_timeout = ntohs (load16 68 ofr),
         fr_packet_count = ntohll (load64 72 ofr), fr_byte_count = ntohll (load64 80 ofr)\<rparr>))"

definition new_Queue_config_in_event :: "datapathid \<Rightarrow> bytes \<Rightarrow> of_event option" where
  "new_Queue_config_in_event dpid oqgcr =
     (if length oqgcr < 10 then None
      else map_option (\<lambda>qs. Queue_config_in_event dpid (ntohs (load16 8 oqgcr)) qs)
        (queue_loop oqgcr 16 (unat (ucast (ntohs (load16 2 oqgcr)) - 16 :: uint64))))"

definition new_Port_status_event :: "datapathid \<Rightarrow> bytes \<Rightarrow> of_event option" where
  "new_Port_status_event dpid ops =
     (if length ops < 9 then None
      else map_option (\<lambda>p. Port_status_event dpid (load8 8 ops) p) (Port (drop 16 ops)))"

definition new_Error_event :: "datapathid \<Rightarrow> bytes \<Rightarrow> of_event option" where
  "new_Error_event dpid oem =
     (if length oem < 12 then None
      else Some (Error_event dpid (ntohs (load16 8 oem)) (ntohs (load16 10 oem)) oem))"

text \<open>\<open>stats_len\<close> is \<^verbatim>\<open>htons(osr->header.length) - sizeof(ofp_stats_reply)\<close>, an unsigned 64-bit integer.\<close>

definition stats_len :: "bytes \<Rightarrow> uint64" where
  "stats_len osr = ucast (htons (load16 2 osr)) - 12"

definition new_Queue_stats_in_event :: "datapathid \<Rightarrow> bytes \<Rightarrow> of_event option" where
  "new_Queue_stats_in_event dpid osr =
     map_option (Queue_stats_in_event dpid) (read_array Queue_stats 32 (unat (stats_len osr div 32)) (drop 12 osr))"

definition new_Aggregate_stats_in_event :: "datapathid \<Rightarrow> bytes \<Rightarrow> of_event option" where
  "new_Aggregate_stats_in_event dpid osr =
     (if length osr < 32 then None
      else Some (Aggregate_stats_in_event dpid (ntohll (load64 12 osr)) (ntohll (load64 20 osr)) (ntohl (load32 28 osr))))"

definition new_Desc_stats_in_event :: "datapathid \<Rightarrow> bytes \<Rightarrow> of_event option" where
  "new_Desc_stats_in_event dpid osr = map_option (Desc_stats_in_event dpid) (Desc_stats (drop 12 osr))"

definition new_Flow_stats_in_event :: "datapathid \<Rightarrow> bytes \<Rightarrow> of_event option" where
  "new_Flow_stats_in_event dpid osr =
     map_option (Flow_stats_in_event dpid (load16 10 osr AND htons 1 \<noteq> 0)) (flow_stats_loop osr 12 (unat (stats_len osr)))"

section \<open>Messages with a fixed part\<close>

definition handle_packet_in :: "oconn \<Rightarrow> bytes \<Rightarrow> handled" where
  "handle_packet_in oconn packet =
     (if length packet < 18 then None
      else map_option Some (new_Packet_in_event (oc_datapath_id oconn) packet (drop 18 packet)))"

definition handle_flow_removed :: "oconn \<Rightarrow> bytes \<Rightarrow> handled" where
  "handle_flow_removed oconn buf = map_option Some (new_Flow_removed_event (oc_datapath_id oconn) buf)"

definition handle_queue_config_reply :: "oconn \<Rightarrow> bytes \<Rightarrow> handled" where
  "handle_queue_config_reply oconn buf = map_option Some (new_Queue_config_in_event (oc_datapath_id oconn) buf)"

definition handle_port_status :: "oconn \<Rightarrow> bytes \<Rightarrow> handled" where
  "handle_port_status oconn buf = map_option Some (new_Port_status_event (oc_datapath_id oconn) buf)"

definition handle_features_reply :: "oconn \<Rightarrow> bytes \<Rightarrow> handled" where
  "handle_features_reply oconn buf = Some None"

definition handle_barrier_reply :: "oconn \<Rightarrow> bytes \<Rightarrow> handled" where
  "handle_barrier_reply oconn buf = Some (Some (Barrier_reply_event (oc_datapath_id oconn) buf))"

definition handle_echo_request :: "oconn \<Rightarrow> bytes \<Rightarrow> handled" where
  "handle_echo_request oconn packet =
     (if length packet < 8 then None else Some (Some (Echo_request_event (oc_datapath_id oconn) (drop 8 packet))))"

definition handle_error :: "oconn \<Rightarrow> bytes \<Rightarrow> handled" where
  "handle_error oconn packet =
     (if length packet < 12 then None else map_option Some (new_Error_event (oc_datapath_id oconn) packet))"

section \<open>Statistics\<close>

definition handle_stats_queue_reply :: "oconn \<Rightarrow> bytes \<Rightarrow> handled" where
  "handle_stats_queue_reply oconn osr = map_option Some (new_Queue_stats_in_event (oc_datapath_id oconn) osr)"

definition handle_stats_aggregate_reply :: "oconn \<Rightarrow> bytes \<Rightarrow> handled" where
  "handle_stats_aggregate_reply oconn osr =
     (if stats_len osr \<noteq> 24 then Some None
      else map_option Some (new_Aggregate_stats_in_event (oc_datapath_id oconn) osr))"

definition handle_stats_table_reply :: "oconn \<Rightarrow> bytes \<Rightarrow> handled" where
  "handle_stats_table_reply oconn osr =
     (if stats_len osr mod 64 \<noteq> 0 then Some None
      else map_option (\<lambda>ts. Some (Table_stats_in_event (oc_datapath_id oconn) ts))
        (read_array Table_stats 64 (unat (stats_len osr div 64)) (drop 12 osr)))"

definition handle_stats_port_reply :: "oconn \<Rightarrow> bytes \<Rightarrow> handled" where
  "handle_stats_port_reply oconn osr =
     (if stats_len osr mod 104 \<noteq> 0 then Some None
      else map_option (\<lambda>ps. Some (Port_stats_in_event (oc_datapath_id oconn) ps))
        (read_array Port_stats 104 (unat (stats_len osr div 104)) (drop 12 osr)))"

definition handle_stats_desc_reply :: "oconn \<Rightarrow> bytes \<Rightarrow> handled" where
  "handle_stats_desc_reply oconn osr =
     (if stats_len osr \<noteq> 1056 then Some None
      else map_option Some (new_Desc_stats_in_event (oc_datapath_id oconn) osr))"

definition handle_stats_flow_reply :: "oconn \<Rightarrow> bytes \<Rightarrow> handled" where
  "handle_stats_flow_reply oconn osr =
     (if unat (htons (load16 2 osr)) < 12 then Some None
      else map_option Some (new_Flow_stats_in_event (oc_datapath_id oconn) osr))"

definition handle_stats_reply :: "oconn \<Rightarrow> bytes \<Rightarrow> handled" where
  "handle_stats_reply oconn osr =
     (if length osr < 12 then None
      else let ty = htons (load16 8 osr) in
        if ty = 0 then handle_stats_desc_reply oconn osr
        else if ty = 3 then handle_stats_table_reply oconn osr
        else if ty = 4 then handle_stats_port_reply oconn osr
        else if ty = 2 then handle_stats_aggregate_reply oconn osr
        else if ty = 1 then handle_stats_flow_reply oconn osr
        else if ty = 5 then handle_stats_queue_reply oconn osr
        else Some None)"

section \<open>The management channel\<close>

abbreviation NX_VENDOR_ID :: uint32 where "NX_VENDOR_ID \<equiv> 0x2320"
abbreviation NXT_MGMT :: uint32 where "NXT_MGMT \<equiv> 8"

definition handle_ofmp_config_update :: "oconn \<Rightarrow> bytes \<Rightarrow> of_event option" where
  "handle_ofmp_config_update oconn buf =
     (if length buf < 44 then None else Some (Ofmp_config_update_event (oc_datapath_id oconn) buf))"

definition handle_ofmp_config_update_ack :: "oconn \<Rightarrow> bytes \<Rightarrow> of_event option" where
  "handle_ofmp_config_update_ack oconn buf =
     (if length buf < 48 then None else Some (Ofmp_config_update_ack_event (oc_datapath_id oconn) buf))"

definition handle_ofmp_resources_update :: "oconn \<Rightarrow> bytes \<Rightarrow> of_event option" where
  "handle_ofmp_resources_update oconn buf =
     (if length buf < 20 then None else Some (Ofmp_resources_update_event (oc_datapath_id oconn) buf))"

text \<open>
  \<^verbatim>\<open>handle_ofmp_extended_data\<close> hands the collected message to \<^verbatim>\<open>handle_nx_vendor\<close> as an \<^verbatim>\<open>auto_ptr\<close>, which leaves the member
  \<^verbatim>\<open>ext_data_buffer\<close> null for the duration of that call.
\<close>

function handle_nx_vendor :: "oconn \<Rightarrow> bytes \<Rightarrow> (of_event option \<times> oconn) option"
  and handle_ofmp_extended_data :: "oconn \<Rightarrow> bytes \<Rightarrow> (of_event option \<times> oconn) option" where
  "handle_nx_vendor oconn buf =
     (if length buf < 16 then Some (None, oconn)
      else if ntohl (load32 12 buf) = NXT_MGMT
      then if length buf < 20 then Some (None, oconn)
        else
          (case (if ext_data_xid oconn \<noteq> load32 4 buf
                 then map_option (\<lambda>ext. if length ext > 0 then oconn\<lparr>ext_data_buffer := Some []\<rparr> else oconn)
                        (ext_data_buffer oconn)
                 else Some oconn) of
             None \<Rightarrow> None
           | Some oconn1 \<Rightarrow>
               (let ty = load16 16 buf in
                if ty = htons 5 then Some (handle_ofmp_config_update oconn1 buf, oconn1)
                else if ty = htons 6 then Some (handle_ofmp_config_update_ack oconn1 buf, oconn1)
                else if ty = htons 3 then Some (handle_ofmp_resources_update oconn1 buf, oconn1)
                else if ty = htons 7 then if length buf < 24 then None else Some (None, oconn1)
                else if ty = htons 8 then handle_ofmp_extended_data oconn1 buf
                else Some (None, oconn1)))
      else Some (None, oconn))"
| "handle_ofmp_extended_data oconn buf =
     (if length buf \<le> 24 then Some (None, oconn)
      else
        (case ext_data_buffer oconn of
           None \<Rightarrow> None
         | Some ext \<Rightarrow>
             (let ext1 = ext @ drop 24 buf;
                  oconn1 = oconn\<lparr>ext_data_xid := load32 4 buf, ext_data_buffer := Some ext1\<rparr>
              in if load8 22 buf AND 1 \<noteq> 0 then Some (None, oconn1)
                 else if length ext1 < 65536 then Some (None, oconn1)
                 else if load32 8 ext1 \<noteq> htonl NX_VENDOR_ID \<or> load32 12 ext1 \<noteq> htonl NXT_MGMT \<or>
                         ucast (load16 16 ext1) = htonl 8 then Some (None, oconn1)
                 else map_option (\<lambda>(ev, oconn2). (ev, oconn2\<lparr>ext_data_buffer := Some []\<rparr>))
                        (handle_nx_vendor (oconn1\<lparr>ext_data_buffer := None\<rparr>)
                          (take 2 ext1 @ store16 0 @ store32 (load32 4 buf) @ drop 8 ext1)))))"
  by pat_completeness auto
termination
proof (relation "measure (case_sum
      (\<lambda>(oconn, buf). if ext_data_buffer oconn = None then 1 else 3)
      (\<lambda>(oconn, buf). if ext_data_buffer oconn = None then 0 else 2))", goal_cases)
  case 1
  show ?case by simp
next
  case (2 oconn buf oconn1)
  then show ?case by (auto split: if_splits)
next
  case (3 oconn buf)
  then show ?case by auto
qed

declare handle_nx_vendor.simps [simp del] handle_ofmp_extended_data.simps [simp del]

definition handle_vendor :: "oconn \<Rightarrow> bytes \<Rightarrow> (of_event option \<times> oconn) option" where
  "handle_vendor oconn buf =
     (if length buf < 12 then None
      else if ntohl (load32 8 buf) = NX_VENDOR_ID then handle_nx_vendor oconn buf
      else Some (None, oconn))"

section \<open>Dispatch\<close>

definition openflow_msg_to_event :: "oconn \<Rightarrow> bytes \<Rightarrow> of_event option" where
  "openflow_msg_to_event oconn p =
     (if length p < 8 \<or> load8 0 p \<noteq> 1 then None else Some (Openflow_msg_event (oc_datapath_id oconn) p))"

text \<open>\<^verbatim>\<open>handle_packet\<close> compares the length with that of the structure, writes to the log, and calls the handler all the same.\<close>

definition openflow_packet_to_event :: "oconn \<Rightarrow> bytes \<Rightarrow> (of_event option \<times> oconn) option" where
  "openflow_packet_to_event oconn p =
     (let same = map_option (\<lambda>ev. (ev, oconn)); ty = load8 1 p in
      if length p < 8 \<or> load8 0 p \<noteq> 1 then Some (None, oconn)
      else if ty = 10 then same (handle_packet_in oconn p)
      else if ty = 11 then same (handle_flow_removed oconn p)
      else if ty = 21 then same (handle_queue_config_reply oconn p)
      else if ty = 12 then same (handle_port_status oconn p)
      else if ty = 6 then same (handle_features_reply oconn p)
      else if ty = 17 then same (handle_stats_reply oconn p)
      else if ty = 19 then same (handle_barrier_reply oconn p)
      else if ty = 2 then same (handle_echo_request oconn p)
      else if ty = 4 then handle_vendor oconn p
      else if ty = 3 then Some (None, oconn)
      else if ty = 1 then same (handle_error oconn p)
      else Some (None, oconn))"

section \<open>Messages as switches send them\<close>

definition stats_msg :: "uint32 \<Rightarrow> uint16 \<Rightarrow> uint16 \<Rightarrow> bytes \<Rightarrow> bytes" where
  "stats_msg xid ty flags body =
     of_stats_reply_pack
       \<lparr>stats_reply_header = \<lparr>header_version = 1, header_type = 17, header_length = of_nat (12 + length body), header_xid = xid\<rparr>,
        stats_reply_type = ty, stats_reply_flags = flags\<rparr> @ body"

lemma stats_msg_fields:
  "load8 0 (stats_msg xid ty flags body) = 1" "load8 1 (stats_msg xid ty flags body) = 17"
  "load16 2 (stats_msg xid ty flags body) = htons (of_nat (12 + length body))"
  "load16 8 (stats_msg xid ty flags body) = htons ty" "load16 10 (stats_msg xid ty flags body) = htons flags"
  "length (stats_msg xid ty flags body) = 12 + length body" "drop 12 (stats_msg xid ty flags body) = body"
  by (simp_all add: stats_msg_def of_stats_reply_pack_def of_header_pack_def byteorder)

lemma stats_len_msg:
  assumes "12 + length body < 65536"
  shows "unat (stats_len (stats_msg xid ty flags body)) = length body"
    and "stats_len (stats_msg xid ty flags body) = of_nat (length body)"
    and "unat (htons (load16 2 (stats_msg xid ty flags body))) = 12 + length body"
proof -
  have u: "ucast (of_nat (12 + length body) :: uint16) = (of_nat (12 + length body) :: uint64)"
    by (rule unsigned_word_eqI) (use assms in \<open>simp add: unsigned_ucast_eq unsigned_of_nat take_bit_nat_eq_self del: of_nat_add\<close>)
  then show e: "stats_len (stats_msg xid ty flags body) = of_nat (length body)"
    by (simp add: stats_len_def stats_msg_fields byteorder del: of_nat_add) (simp)
  show "unat (stats_len (stats_msg xid ty flags body)) = length body"
    using assms by (simp add: e unat_of_nat)
  show "unat (htons (load16 2 (stats_msg xid ty flags body))) = 12 + length body"
    using assms by (simp add: stats_msg_fields byteorder unat_of_nat16 del: of_nat_add)
qed

lemma decode_stats:
  "openflow_packet_to_event oconn (stats_msg xid ty flags body) =
     map_option (\<lambda>ev. (ev, oconn)) (handle_stats_reply oconn (stats_msg xid ty flags body))"
  by (simp add: openflow_packet_to_event_def stats_msg_fields stats_msg_fields(2) [unfolded One_nat_def] Let_def)

lemmas decode_stats_simps =
  decode_stats handle_stats_reply_def handle_stats_desc_reply_def handle_stats_table_reply_def handle_stats_port_reply_def
  handle_stats_aggregate_reply_def handle_stats_flow_reply_def handle_stats_queue_reply_def new_Queue_stats_in_event_def
  new_Aggregate_stats_in_event_def new_Desc_stats_in_event_def new_Flow_stats_in_event_def stats_msg_fields stats_len_msg
  byteorder

lemma unat_div_mod:
  assumes "n * k < 65536" and "0 < k" and "k < 65536"
  shows "unat (of_nat (n * k) div of_nat k :: uint64) = n" and "of_nat (n * k) mod of_nat k = (0 :: uint64)"
proof -
  have k: "unat (of_nat k :: uint64) = k" and nk: "unat (of_nat (n * k) :: uint64) = n * k"
    using assms by (simp_all add: unat_of_nat del: of_nat_mult)
  show "unat (of_nat (n * k) div of_nat k :: uint64) = n" using assms(2) by (simp add: unat_div k nk del: of_nat_mult)
  have "unat (of_nat (n * k) mod of_nat k :: uint64) = 0" by (simp add: unat_mod k nk del: of_nat_mult)
  then show "of_nat (n * k) mod of_nat k = (0 :: uint64)" by (simp only: unat_eq_zero)
qed

lemma htons_and: "htons (a AND b) = htons a AND htons b"
  by (rule bit_word_eqI) (auto simp: bit_htons bit_simps)

section \<open>Fragments of a management message\<close>

text \<open>The messages a connection receives one after the other.\<close>

fun receive_all :: "oconn \<Rightarrow> bytes list \<Rightarrow> (of_event option list \<times> oconn) option" where
  "receive_all oconn [] = Some ([], oconn)"
| "receive_all oconn (p # ps) =
     Option.bind (openflow_packet_to_event oconn p) (\<lambda>(ev, oconn').
       map_option (\<lambda>(evs, oconn''). (ev # evs, oconn'')) (receive_all oconn' ps))"

definition ext_fragment :: "uint32 \<Rightarrow> uint16 \<Rightarrow> bool \<Rightarrow> bytes \<Rightarrow> bytes" where
  "ext_fragment xid ty cont d =
     [1, 4] @ store16 (htons (of_nat (24 + length d))) @ store32 (htonl xid) @ store32 (htonl NX_VENDOR_ID) @
     store32 (htonl NXT_MGMT) @ store16 (htons 8) @ [0, 0] @ store16 (htons ty) @ [if cont then 1 else 0, 0] @ d"

lemma ext_fragment_fields:
  "length (ext_fragment xid ty cont d) = 24 + length d" "drop 24 (ext_fragment xid ty cont d) = d"
  "load8 0 (ext_fragment xid ty cont d) = 1" "load8 (Suc 0) (ext_fragment xid ty cont d) = 4"
  "load32 4 (ext_fragment xid ty cont d) = htonl xid" "load32 8 (ext_fragment xid ty cont d) = htonl NX_VENDOR_ID"
  "load32 12 (ext_fragment xid ty cont d) = htonl NXT_MGMT" "load16 16 (ext_fragment xid ty cont d) = htons 8"
  "load8 22 (ext_fragment xid ty cont d) = (if cont then 1 else 0)"
  by (simp_all add: ext_fragment_def byteorder)

lemma decode_fragment:
  assumes "ext_data_buffer oconn = Some ext"
  shows "openflow_packet_to_event oconn (ext_fragment xid ty cont d) =
    handle_ofmp_extended_data
      (if ext_data_xid oconn \<noteq> htonl xid \<and> ext \<noteq> [] then oconn\<lparr>ext_data_buffer := Some []\<rparr> else oconn)
      (ext_fragment xid ty cont d)"
  by (simp add: openflow_packet_to_event_def Let_def handle_vendor_def handle_nx_vendor.simps [of oconn] ext_fragment_fields
      assms byteorder)

lemma more_fragment:
  assumes "ext_data_buffer oconn = Some ext" and "d \<noteq> []"
  shows "openflow_packet_to_event oconn (ext_fragment xid ty True d) =
    Some (None, oconn\<lparr>ext_data_xid := htonl xid,
      ext_data_buffer := Some ((if ext_data_xid oconn = htonl xid then ext else []) @ d)\<rparr>)"
  using assms
  by (auto simp: decode_fragment handle_ofmp_extended_data.simps ext_fragment_fields Let_def)

lemma more_fragments:
  assumes "ext_data_buffer oconn = Some ext" and "ext_data_xid oconn = htonl xid" and "[] \<notin> set ds"
  shows "receive_all oconn (map (ext_fragment xid ty True) ds @ ps) =
    map_option (\<lambda>(evs, c). (replicate (length ds) None @ evs, c))
      (receive_all (oconn\<lparr>ext_data_buffer := Some (ext @ concat ds)\<rparr>) ps)"
  using assms
proof (induction ds arbitrary: oconn ext)
  case Nil
  then have e: "oconn\<lparr>ext_data_buffer := Some ext\<rparr> = oconn" by simp
  show ?case by (simp add: e option.map_ident)
next
  case (Cons d ds)
  let ?c = "oconn\<lparr>ext_data_buffer := Some (ext @ d)\<rparr>"
  have c: "oconn\<lparr>ext_data_xid := htonl xid, ext_data_buffer := Some (ext @ d)\<rparr> = ?c" using Cons.prems(2) by simp
  have "openflow_packet_to_event oconn (ext_fragment xid ty True d) = Some (None, ?c)"
    using more_fragment [OF Cons.prems(1), of d xid ty] Cons.prems c by auto
  moreover have "receive_all ?c (map (ext_fragment xid ty True) ds @ ps) =
      map_option (\<lambda>(evs, c). (replicate (length ds) None @ evs, c))
        (receive_all (?c\<lparr>ext_data_buffer := Some ((ext @ d) @ concat ds)\<rparr>) ps)"
    by (rule Cons.IH) (use Cons.prems in auto)
  ultimately show ?case by (simp add: option.map_comp comp_def split_def)
qed

lemma type_is_short: "ucast (x :: uint16) \<noteq> htonl 8"
proof
  assume e: "ucast x = htonl 8"
  have "bit (htonl 8) 27" by (simp add: bit_htonl)
  then have "bit (ucast x :: uint32) 27" by (simp only: e)
  then show False using bit_imp_le_length [of x 27] by (simp add: bit_simps)
qed

lemma bind_map_Some: "Option.bind (map_option f x) (\<lambda>p. Some (g p)) = map_option (\<lambda>p. g (f p)) x"
  by (cases x) simp_all

text \<open>What the fragments of the message \<open>m\<close> do, up to the handler of the message itself.\<close>

definition rewritten :: "uint32 \<Rightarrow> bytes \<Rightarrow> bytes" where
  "rewritten xid m = take 2 m @ store16 0 @ store32 (htonl xid) @ drop 8 m"

lemma rewritten_fields:
  assumes "24 \<le> length m"
  shows "length (rewritten xid m) = length m" and "load32 4 (rewritten xid m) = htonl xid"
    and "load32 12 (rewritten xid m) = load32 12 m" and "load16 16 (rewritten xid m) = load16 16 m"
proof -
  have l: "length (take 2 m) = 2" using assms by simp
  from assms show "length (rewritten xid m) = length m" by (simp add: rewritten_def)
  show "load32 4 (rewritten xid m) = htonl xid" using l by (simp add: rewritten_def byteorder)
  show "load32 12 (rewritten xid m) = load32 12 m" and "load16 16 (rewritten xid m) = load16 16 m"
    using l by (simp_all add: rewritten_def byteorder) (simp_all add: load32_def load16_def)
qed

lemma fragments_collected:
  assumes buf: "ext_data_buffer oconn = Some ext" and new: "ext_data_xid oconn \<noteq> htonl xid"
    and ne: "[] \<notin> set (ds @ [d])" and m: "m = concat ds @ d" and long: "65536 \<le> length m"
    and mgmt: "load32 8 m = htonl NX_VENDOR_ID" "load32 12 m = htonl NXT_MGMT"
  shows "receive_all oconn (map (ext_fragment xid ty True) ds @ [ext_fragment xid ty False d]) =
    map_option (\<lambda>(ev, c). (replicate (length ds) None @ [ev], c\<lparr>ext_data_buffer := Some []\<rparr>))
      (handle_nx_vendor (oconn\<lparr>ext_data_xid := htonl xid, ext_data_buffer := None\<rparr>) (rewritten xid m))"
proof (cases ds)
  case Nil
  then show ?thesis
    using assms
    by (auto simp: decode_fragment handle_ofmp_extended_data.simps ext_fragment_fields Let_def type_is_short rewritten_def
        option.map_comp comp_def split_def bind_map_Some)
next
  case (Cons d1 ds')
  let ?c = "oconn\<lparr>ext_data_xid := htonl xid, ext_data_buffer := Some d1\<rparr>"
  have s: "openflow_packet_to_event oconn (ext_fragment xid ty True d1) = Some (None, ?c)"
    using more_fragment [OF buf, of d1 xid ty] ne new Cons by auto
  have r: "receive_all ?c (map (ext_fragment xid ty True) ds' @ [ext_fragment xid ty False d]) =
    map_option (\<lambda>(evs, c). (replicate (length ds') None @ evs, c))
      (receive_all (?c\<lparr>ext_data_buffer := Some (d1 @ concat ds')\<rparr>) [ext_fragment xid ty False d])"
    by (rule more_fragments) (use ne Cons in auto)
  show ?thesis
    using assms Cons s r
    by (auto simp: decode_fragment handle_ofmp_extended_data.simps ext_fragment_fields Let_def type_is_short rewritten_def
        option.map_comp comp_def split_def bind_map_Some)
qed

section \<open>Properties\<close>

text \<open>
  C15: a packet-in message that carries a frame with an unfragmented IPv4 datagram and a TCP, UDP or ICMP header is decoded
  into an event with the fields of the message, the frame, and the flow that has the header fields of the packet and the
  port it came in on.
\<close>

theorem packet_in_decoded:
  assumes "header_version (packet_in_header m) = 1" and "header_type (packet_in_header m) = 10"
    and "wf_eth dst" and "wf_eth src" and "tag_ok tag" and "length len_id = 4" and "length csum = 2"
    and "4 * IP_IHL ihl_ver = 20 + length opts" and "frag_off AND 0x3fff = 0" and "transport_ok t"
    and frame: "frame = ether_frame dst src tag ETH_TYPE_IP
      (ip_datagram ihl_ver tos len_id frag_off ttl (transport_proto t) csum ip_src ip_dst opts (transport_bytes t))"
  shows "openflow_packet_to_event oconn (of_packet_in_pack m @ frame) =
    Some (Some (Packet_in_event
      \<lparr>pi_datapath_id = oc_datapath_id oconn, pi_in_port = packet_in_in_port m, pi_total_len = unat (packet_in_total_len m),
       pi_buffer_id = packet_in_buffer_id m, pi_reason = packet_in_reason m,
       pi_flow = \<lparr>fl_invalid = False, fl_in_port = htons (packet_in_in_port m),
         fl_dl_vlan = (case tag of None \<Rightarrow> htons OFP_VLAN_NONE | Some (pcp, vid) \<Rightarrow> htons vid),
         fl_dl_vlan_pcp = (case tag of None \<Rightarrow> 0 | Some (pcp, vid) \<Rightarrow> pcp),
         fl_dl_src = src, fl_dl_dst = dst, fl_dl_type = htons ETH_TYPE_IP, fl_nw_src = htonl ip_src, fl_nw_dst = htonl ip_dst,
         fl_nw_proto = transport_proto t, fl_nw_tos = tos, fl_tp_src = htons (fst (transport_ports t)),
         fl_tp_dst = htons (snd (transport_ports t)), fl_cookie = 0\<rparr>,
       pi_buf = frame\<rparr>), oconn)"
proof -
  have ty: "ETH2_CUTOFF \<le> ETH_TYPE_IP" "ETH_TYPE_IP \<noteq> ETH_TYPE_VLAN" by simp_all
  have flow: "Flow_of_packet p frame 0 = \<lparr>fl_invalid = False, fl_in_port = p,
         fl_dl_vlan = (case tag of None \<Rightarrow> htons OFP_VLAN_NONE | Some (pcp, vid) \<Rightarrow> htons vid),
         fl_dl_vlan_pcp = (case tag of None \<Rightarrow> 0 | Some (pcp, vid) \<Rightarrow> pcp),
         fl_dl_src = src, fl_dl_dst = dst, fl_dl_type = htons ETH_TYPE_IP, fl_nw_src = htonl ip_src, fl_nw_dst = htonl ip_dst,
         fl_nw_proto = transport_proto t, fl_nw_tos = tos, fl_tp_src = htons (fst (transport_ports t)),
         fl_tp_dst = htons (snd (transport_ports t)), fl_cookie = 0\<rparr>" for p
    unfolding frame Flow_of_ether_frame [OF assms(3,4,5) ty]
    by (subst parse_ip_transport) (use assms in \<open>auto simp: tagged_def Flow_empty_def split: option.split\<close>)
  show ?thesis
    by (simp add: openflow_packet_to_event_def handle_packet_in_def new_Packet_in_event_def of_packet_in_pack_def of_header_pack_def assms(1,2)
        flow byteorder del: One_nat_def)
qed

theorem packet_in_decoded_witness:
  "\<exists>ev. openflow_packet_to_event (new_oconn 7) (of_packet_in_pack (of_packet_in_new\<lparr>packet_in_in_port := 3\<rparr>) @
      ether_frame [1, 2, 3, 4, 5, 6] [7, 8, 9, 10, 11, 12] None ETH_TYPE_IP
        (ip_datagram 0x45 0 [0, 0, 0, 0] 0 64 (transport_proto (Udp 53 5353 (replicate 4 0))) [0, 0]
          0x0A000001 0x0A000002 [] (transport_bytes (Udp 53 5353 (replicate 4 0))))) =
      Some (Some (Packet_in_event ev), new_oconn 7) \<and> pi_in_port ev = 3 \<and> fl_tp_dst (pi_flow ev) = htons 5353"
proof -
  have "header_version (packet_in_header (of_packet_in_new\<lparr>packet_in_in_port := 3\<rparr>)) = 1"
    "header_type (packet_in_header (of_packet_in_new\<lparr>packet_in_in_port := 3\<rparr>)) = 10"
    "wf_eth [1, 2, 3, 4, 5, 6]" "wf_eth [7, 8, 9, 10, 11, 12]" "tag_ok None" "length [0 :: uint8, 0, 0, 0] = 4"
    "length [0 :: uint8, 0] = 2" "4 * IP_IHL 0x45 = 20 + length ([] :: bytes)" "0 AND 0x3fff = (0 :: uint16)"
    "transport_ok (Udp 53 5353 (replicate 4 0))"
    by (simp_all add: of_packet_in_new_def of_header_new_def wf_eth_def ethernetaddr_LEN_def tag_ok_def IP_IHL_def)
  from packet_in_decoded [OF this refl, of "new_oconn 7" 0 64 "0x0A000001" "0x0A000002"] show ?thesis by simp
qed

text \<open>
  C30: flow-removed, port-status and error messages are decoded into events with the members of the message.
\<close>

theorem notifications_decoded:
  assumes "of_flow_removed_wf r" and "header_version (flow_removed_header r) = 1" and "header_type (flow_removed_header r) = 11"
    and "of_port_status_wf s" and "header_version (port_status_header s) = 1" and "header_type (port_status_header s) = 12"
    and "header_version (error_msg_header e) = 1" and "header_type (error_msg_header e) = 1"
  shows "openflow_packet_to_event oconn (of_flow_removed_pack r @ rest) =
      Some (Some (Flow_removed_event
        \<lparr>fr_datapath_id = oc_datapath_id oconn, fr_priority = flow_removed_priority r, fr_reason = flow_removed_reason r,
         fr_cookie = flow_removed_cookie r, fr_duration_sec = flow_removed_duration_sec r,
         fr_duration_nsec = flow_removed_duration_nsec r, fr_idle_timeout = flow_removed_idle_timeout r,
         fr_packet_count = flow_removed_packet_count r, fr_byte_count = flow_removed_byte_count r\<rparr>), oconn) \<and>
    openflow_packet_to_event oconn (of_port_status_pack s @ rest) =
      Some (Some (Port_status_event (oc_datapath_id oconn) (port_status_reason s) (port_of (port_status_desc s))), oconn) \<and>
    openflow_packet_to_event oconn (of_error_msg_pack e @ rest) =
      Some (Some (Error_event (oc_datapath_id oconn) (error_msg_type e) (error_msg_code e) (of_error_msg_pack e @ rest)), oconn)"
proof (intro conjI)
  have l: "length (of_match_pack (flow_removed_match r)) = 40"
    using assms(1) by (simp add: of_flow_removed_wf_def match.length_pack)
  show "openflow_packet_to_event oconn (of_flow_removed_pack r @ rest) =
      Some (Some (Flow_removed_event
        \<lparr>fr_datapath_id = oc_datapath_id oconn, fr_priority = flow_removed_priority r, fr_reason = flow_removed_reason r,
         fr_cookie = flow_removed_cookie r, fr_duration_sec = flow_removed_duration_sec r,
         fr_duration_nsec = flow_removed_duration_nsec r, fr_idle_timeout = flow_removed_idle_timeout r,
         fr_packet_count = flow_removed_packet_count r, fr_byte_count = flow_removed_byte_count r\<rparr>), oconn)"
    using assms(1)
    by (simp add: openflow_packet_to_event_def handle_flow_removed_def new_Flow_removed_event_def of_flow_removed_pack_def
        of_flow_removed_wf_def of_header_pack_def assms(2,3) l byteorder del: One_nat_def)
  have w: "of_phy_port_wf (port_status_desc s)" using assms(4) by (simp add: of_port_status_wf_def)
  show "openflow_packet_to_event oconn (of_port_status_pack s @ rest) =
      Some (Some (Port_status_event (oc_datapath_id oconn) (port_status_reason s) (port_of (port_status_desc s))), oconn)"
    using assms(4) phy_port.length_pack [OF w] ports.read_pack [OF w, of rest]
    by (simp add: openflow_packet_to_event_def handle_port_status_def new_Port_status_event_def of_port_status_pack_def
        of_port_status_wf_def of_header_pack_def assms(5,6) byteorder del: One_nat_def)
  show "openflow_packet_to_event oconn (of_error_msg_pack e @ rest) =
      Some (Some (Error_event (oc_datapath_id oconn) (error_msg_type e) (error_msg_code e) (of_error_msg_pack e @ rest)), oconn)"
    by (simp add: openflow_packet_to_event_def handle_error_def new_Error_event_def of_error_msg_pack_def of_header_pack_def assms(7,8) byteorder
        del: One_nat_def)
qed

theorem notifications_decoded_witness:
  "openflow_packet_to_event (new_oconn 7) (of_error_msg_pack (of_error_msg_new\<lparr>error_msg_type := 3, error_msg_code := 2\<rparr>)) =
     Some (Some (Error_event 7 3 2 (of_error_msg_pack (of_error_msg_new\<lparr>error_msg_type := 3, error_msg_code := 2\<rparr>))), new_oconn 7)"
proof -
  let ?e = "of_error_msg_new\<lparr>error_msg_type := 3, error_msg_code := 2\<rparr>"
  have "of_flow_removed_wf of_flow_removed_new" "header_version (flow_removed_header of_flow_removed_new) = 1"
    "header_type (flow_removed_header of_flow_removed_new) = 11" "of_port_status_wf of_port_status_new"
    "header_version (port_status_header of_port_status_new) = 1" "header_type (port_status_header of_port_status_new) = 12"
    "header_version (error_msg_header ?e) = 1" "header_type (error_msg_header ?e) = 1"
    by (simp_all add: of_flow_removed_wf_def of_flow_removed_new_def of_port_status_wf_def of_port_status_new_def
        of_phy_port_wf_def of_phy_port_new_def of_header_wf_def of_header_new_def of_match_wf_def of_match_new_def
        of_error_msg_new_def)
  from notifications_decoded [OF this, of "new_oconn 7" "[]"] show ?thesis by (simp add: new_oconn_def of_error_msg_new_def)
qed

text \<open>
  C31: replies with table, port, queue, aggregate and description statistics are decoded into events with exactly the
  entries the switch sent, in their order.
\<close>

theorem statistics_decoded:
  assumes "list_all of_table_stats_wf ts" and "length ts * 64 + 12 < 65536"
    and "list_all of_port_stats_wf ps" and "length ps * 104 + 12 < 65536"
    and "list_all of_queue_stats_wf qs" and "length qs * 32 + 12 < 65536"
    and "of_aggregate_stats_reply_wf a" and "of_desc_stats_wf d"
  shows "openflow_packet_to_event oconn (stats_msg xid 3 flags (concat (map of_table_stats_pack ts))) =
      Some (Some (Table_stats_in_event (oc_datapath_id oconn) (map table_stats_of ts)), oconn) \<and>
    openflow_packet_to_event oconn (stats_msg xid 4 flags (concat (map of_port_stats_pack ps))) =
      Some (Some (Port_stats_in_event (oc_datapath_id oconn) (map port_stats_of ps)), oconn) \<and>
    openflow_packet_to_event oconn (stats_msg xid 5 flags (concat (map of_queue_stats_pack qs))) =
      Some (Some (Queue_stats_in_event (oc_datapath_id oconn) (map queue_stats_of qs)), oconn) \<and>
    openflow_packet_to_event oconn (stats_msg xid 2 flags (of_aggregate_stats_reply_pack a)) =
      Some (Some (Aggregate_stats_in_event (oc_datapath_id oconn) (aggregate_stats_reply_packet_count a)
        (aggregate_stats_reply_byte_count a) (aggregate_stats_reply_flow_count a)), oconn) \<and>
    openflow_packet_to_event oconn (stats_msg xid 0 flags (of_desc_stats_pack d)) =
      Some (Some (Desc_stats_in_event (oc_datapath_id oconn) (desc_stats_of d)), oconn)"
proof (intro conjI)
  note t = tables.length_concat_pack [OF assms(1)] and ta = tables.read_array_pack [OF assms(1), of "[]"]
  have tl: "12 + length (concat (map of_table_stats_pack ts)) < 65536" using assms(2) t by simp
  show "openflow_packet_to_event oconn (stats_msg xid 3 flags (concat (map of_table_stats_pack ts))) =
      Some (Some (Table_stats_in_event (oc_datapath_id oconn) (map table_stats_of ts)), oconn)"
    using unat_div_mod [of "length ts" 64] assms(2) ta
    by (simp add: decode_stats_simps stats_len_msg(2) [OF tl] t Let_def)
  note p = port_counters.length_concat_pack [OF assms(3)] and pa = port_counters.read_array_pack [OF assms(3), of "[]"]
  have pl: "12 + length (concat (map of_port_stats_pack ps)) < 65536" using assms(4) p by simp
  show "openflow_packet_to_event oconn (stats_msg xid 4 flags (concat (map of_port_stats_pack ps))) =
      Some (Some (Port_stats_in_event (oc_datapath_id oconn) (map port_stats_of ps)), oconn)"
    using unat_div_mod [of "length ps" 104] assms(4) pa
    by (simp add: decode_stats_simps stats_len_msg(2) [OF pl] p Let_def)
  note q = queue_counters.length_concat_pack [OF assms(5)] and qa = queue_counters.read_array_pack [OF assms(5), of "[]"]
  have ql: "12 + length (concat (map of_queue_stats_pack qs)) < 65536" using assms(6) q by simp
  show "openflow_packet_to_event oconn (stats_msg xid 5 flags (concat (map of_queue_stats_pack qs))) =
      Some (Some (Queue_stats_in_event (oc_datapath_id oconn) (map queue_stats_of qs)), oconn)"
    using unat_div_mod [of "length qs" 32] assms(6) qa
    by (simp add: decode_stats_simps stats_len_msg(2) [OF ql] q Let_def)
  have al: "length (of_aggregate_stats_reply_pack a) = 24" by (rule aggregate_stats_reply.length_pack [OF assms(7)])
  then have al': "12 + length (of_aggregate_stats_reply_pack a) < 65536" by simp
  have "load64 12 (stats_msg xid 2 flags b) = load64 0 b" "load64 20 (stats_msg xid 2 flags b) = load64 8 b"
    "load32 28 (stats_msg xid 2 flags b) = load32 16 b" for b
    by (simp_all add: stats_msg_def of_stats_reply_pack_def of_header_pack_def byteorder)
  then show "openflow_packet_to_event oconn (stats_msg xid 2 flags (of_aggregate_stats_reply_pack a)) =
      Some (Some (Aggregate_stats_in_event (oc_datapath_id oconn) (aggregate_stats_reply_packet_count a)
        (aggregate_stats_reply_byte_count a) (aggregate_stats_reply_flow_count a)), oconn)"
    using assms(7) al
    by (simp add: decode_stats_simps stats_len_msg(2) [OF al'] Let_def)
      (simp add: of_aggregate_stats_reply_pack_def byteorder)
  have dl: "length (of_desc_stats_pack d) = 1056" by (rule desc_stats.length_pack [OF assms(8)])
  then have dl': "12 + length (of_desc_stats_pack d) < 65536" by simp
  show "openflow_packet_to_event oconn (stats_msg xid 0 flags (of_desc_stats_pack d)) =
      Some (Some (Desc_stats_in_event (oc_datapath_id oconn) (desc_stats_of d)), oconn)"
    using descriptions.read_pack [OF assms(8), of "[]"] dl
    by (simp add: decode_stats_simps stats_len_msg(2) [OF dl'] Let_def)
qed

theorem statistics_decoded_witness:
  "openflow_packet_to_event (new_oconn 7) (stats_msg 300 5 0 (concat (map of_queue_stats_pack
      [of_queue_stats_new\<lparr>queue_stats_queue_id := 9\<rparr>, of_queue_stats_new]))) =
     Some (Some (Queue_stats_in_event 7
       (map queue_stats_of [of_queue_stats_new\<lparr>queue_stats_queue_id := 9\<rparr>, of_queue_stats_new])), new_oconn 7)"
proof -
  let ?qs = "[of_queue_stats_new\<lparr>queue_stats_queue_id := 9\<rparr>, of_queue_stats_new]"
  have "list_all of_table_stats_wf []" "length ([] :: of_table_stats list) * 64 + 12 < 65536"
    "list_all of_port_stats_wf []" "length ([] :: of_port_stats list) * 104 + 12 < 65536"
    "list_all of_queue_stats_wf ?qs" "length ?qs * 32 + 12 < 65536"
    "of_aggregate_stats_reply_wf of_aggregate_stats_reply_new" "of_desc_stats_wf of_desc_stats_new"
    by (simp_all add: of_queue_stats_wf_def of_queue_stats_new_def of_aggregate_stats_reply_wf_def
        of_aggregate_stats_reply_new_def of_desc_stats_wf_def of_desc_stats_new_def)
  note st = statistics_decoded [OF this, of "new_oconn 7" 300 0]
  have "oc_datapath_id (new_oconn 7) = 7" by (simp add: new_oconn_def)
  with st show ?thesis by simp
qed

text \<open>
  C32: a reply with flow statistics is decoded into one entry for each flow the switch sent, in order: the fixed structure,
  the actions, and a pointer to every action inside the message.
\<close>

theorem flow_statistics_decoded:
  assumes "list_all entry_ok es" and "12 + length (concat (map entry_bytes es)) < 65536"
  shows "openflow_packet_to_event oconn (stats_msg xid 1 flags (concat (map entry_bytes es))) =
    Some (Some (Flow_stats_in_event (oc_datapath_id oconn) (flags AND 1 \<noteq> 0) (entries_stats 12 es)), oconn)"
proof -
  let ?body = "concat (map entry_bytes es)"
  obtain h where h: "stats_msg xid 1 flags ?body = h @ ?body" "length h = 12"
    by (simp add: stats_msg_def of_stats_reply_pack_def of_header_pack_def)
  have "flow_stats_loop (stats_msg xid 1 flags ?body) 12 (length ?body) = Some (entries_stats 12 es)"
    using flow_stats_loop_entries [OF assms(1), of h "[]"] h by simp
  moreover have "htons flags AND htons 1 \<noteq> 0 \<longleftrightarrow> flags AND 1 \<noteq> 0"
    using htons_eq_iff [of "flags AND 1" 0] by (simp add: htons_and)
  ultimately show ?thesis
    using stats_len_msg(3) [OF assms(2), of xid 1 flags]
    by (simp add: decode_stats_simps stats_len_msg(1) [OF assms(2)] Let_def)
qed

theorem flow_statistics_decoded_witness:
  "\<exists>es. length es = 2 \<and> openflow_packet_to_event (new_oconn 7) (stats_msg 300 1 1 (concat (map entry_bytes es))) =
     Some (Some (Flow_stats_in_event 7 True (entries_stats 12 es)), new_oconn 7)"
proof -
  let ?f = "of_flow_stats_new\<lparr>flow_stats_length := 96\<rparr>" and ?a = "set_action_output 3 0"
  let ?es = "[(?f, [?a]), (?f, [?a])]"
  have a: "length ?a = 8" by (simp add: set_action_output_def of_action_output_pack_def)
  have w: "of_flow_stats_wf ?f"
    by (simp add: of_flow_stats_wf_def of_flow_stats_new_def of_match_wf_def of_match_new_def)
  have ok: "list_all entry_ok ?es"
    using a w made_action_bytes [OF made_action.out_port] by (simp add: entry_ok_def)
  moreover have "12 + length (concat (map entry_bytes ?es)) < 65536"
    using a flow_stats.length_pack [OF w] by (simp add: entry_bytes_def)
  ultimately have "openflow_packet_to_event (new_oconn 7) (stats_msg 300 1 1 (concat (map entry_bytes ?es))) =
      Some (Some (Flow_stats_in_event (oc_datapath_id (new_oconn 7)) ((1 :: uint16) AND 1 \<noteq> 0) (entries_stats 12 ?es)), new_oconn 7)"
    by (rule flow_statistics_decoded)
  moreover have "oc_datapath_id (new_oconn 7) = 7" "((1 :: uint16) AND 1 \<noteq> 0) = True" by (simp_all add: new_oconn_def)
  ultimately have "length ?es = 2 \<and> openflow_packet_to_event (new_oconn 7) (stats_msg 300 1 1 (concat (map entry_bytes ?es))) =
     Some (Some (Flow_stats_in_event 7 True (entries_stats 12 ?es)), new_oconn 7)" by (simp only: list.size) simp
  then show ?thesis by blast
qed



text \<open>
  The decoder of queue configurations finds the port and every queue the switch sent, but reports each queue with the
  id zero and without its properties.
\<close>

theorem queue_config_decoded:
  assumes "list_all queue_ok qs" and "16 + length (concat (map queue_bytes qs)) < 65536"
    and "header_version h = 1" and "header_type h = 21"
    and "header_length h = of_nat (16 + length (concat (map queue_bytes qs)))"
  shows "openflow_packet_to_event oconn (of_queue_get_config_reply_pack
      \<lparr>queue_get_config_reply_header = h, queue_get_config_reply_port = p, queue_get_config_reply_pad = replicate 6 0\<rparr> @
      concat (map queue_bytes qs)) =
    Some (Some (Queue_config_in_event (oc_datapath_id oconn) p
      (map (\<lambda>q. \<lparr>pq_queue_id = 0, pq_len = packet_queue_len (fst q), pq_properties = []\<rparr>) qs)), oconn)"
proof -
  let ?h = "of_queue_get_config_reply_pack
      \<lparr>queue_get_config_reply_header = h, queue_get_config_reply_port = p, queue_get_config_reply_pad = replicate 6 0\<rparr>"
    and ?body = "concat (map queue_bytes qs)"
  have u: "unat (ucast (of_nat (16 + length ?body) :: uint16) - 16 :: uint64) = length ?body"
  proof -
    have "ucast (of_nat (16 + length ?body) :: uint16) = (of_nat (16 + length ?body) :: uint64)"
      by (rule unsigned_word_eqI) (use assms(2) in \<open>simp add: unsigned_ucast_eq unsigned_of_nat take_bit_nat_eq_self del: of_nat_add\<close>)
    moreover have "(of_nat (16 + length ?body) - 16 :: uint64) = of_nat (length ?body)" by simp
    ultimately show ?thesis using assms(2) by (simp add: unat_of_nat del: of_nat_add)
  qed
  have l: "length ?h = 16" by (simp add: of_queue_get_config_reply_pack_def of_header_pack_def)
  have f: "load8 0 (?h @ ?body) = 1" "load8 1 (?h @ ?body) = 21" "load16 8 (?h @ ?body) = htons p"
    "load16 2 (?h @ ?body) = htons (of_nat (16 + length ?body))"
    by (simp_all add: of_queue_get_config_reply_pack_def of_header_pack_def assms byteorder del: One_nat_def)
  have "map (\<lambda>q. \<lparr>pq_queue_id = 0, pq_len = of_nat (length (queue_bytes q)), pq_properties = []\<rparr>) qs =
      map (\<lambda>q. \<lparr>pq_queue_id = 0, pq_len = packet_queue_len (fst q), pq_properties = []\<rparr>) qs"
    using assms(1) queue_length(1) by (auto simp: list_all_iff queue_ok_def simp del: of_nat_add)
  with queue_loop_bytes [OF assms(1), of ?h "[]"]
  have "queue_loop (?h @ ?body) 16 (length ?body) =
      Some (map (\<lambda>q. \<lparr>pq_queue_id = 0, pq_len = packet_queue_len (fst q), pq_properties = []\<rparr>) qs)" by (simp add: l)
  then show ?thesis
    using u by (simp add: openflow_packet_to_event_def handle_queue_config_reply_def new_Queue_config_in_event_def f f(2) [unfolded One_nat_def] l byteorder
        del: of_nat_add)
qed

theorem queue_config_decoded_witness:
  "openflow_packet_to_event (new_oconn 7) (of_queue_get_config_reply_pack
      \<lparr>queue_get_config_reply_header = \<lparr>header_version = 1, header_type = 21, header_length = 40, header_xid = 0\<rparr>,
       queue_get_config_reply_port = 2, queue_get_config_reply_pad = replicate 6 0\<rparr> @
      concat (map queue_bytes [(of_packet_queue_new\<lparr>packet_queue_queue_id := 5, packet_queue_len := 24\<rparr>, replicate 16 0)])) =
    Some (Some (Queue_config_in_event 7 2 [\<lparr>pq_queue_id = 0, pq_len = 24, pq_properties = []\<rparr>]), new_oconn 7)"
proof -
  let ?q = "(of_packet_queue_new\<lparr>packet_queue_queue_id := 5, packet_queue_len := 24\<rparr>, replicate 16 (0 :: uint8))"
  let ?h = "\<lparr>header_version = 1, header_type = 21, header_length = 40, header_xid = 0\<rparr>"
  have ok: "queue_ok ?q" by (simp add: queue_ok_def of_packet_queue_wf_def of_packet_queue_new_def)
  then have l: "length (queue_bytes ?q) = 24" by (simp add: queue_length)
  have "list_all queue_ok [?q]" "16 + length (concat (map queue_bytes [?q])) < 65536" "header_version ?h = 1"
    "header_type ?h = 21" "header_length ?h = of_nat (16 + length (concat (map queue_bytes [?q])))"
    using ok l by simp_all
  from queue_config_decoded [OF this, of "new_oconn 7" 2] show ?thesis by (simp add: new_oconn_def)
qed





text \<open>
  The test that a collected message is not itself a fragment compares a 16-bit field with a 32-bit constant and never
  holds; such a message reaches the collecting code again while the buffer is handed on, and the controller dereferences a
  null pointer.
\<close>

theorem nested_extended_message:
  assumes "ext_data_buffer oconn = Some ext" and "ext_data_xid oconn \<noteq> htonl xid"
    and "[] \<notin> set (ds @ [d])" and "m = concat ds @ d" and "65536 \<le> length m"
    and "load32 8 m = htonl NX_VENDOR_ID" and "load32 12 m = htonl NXT_MGMT" and "load16 16 m = htons 8"
  shows "receive_all oconn (map (ext_fragment xid ty True) ds @ [ext_fragment xid ty False d]) = None"
proof -
  have "load16 16 (rewritten xid m) = htons 8" "load32 4 (rewritten xid m) = htonl xid"
      "load32 12 (rewritten xid m) = htonl NXT_MGMT" and l: "length (rewritten xid m) = length m"
    using assms(5-8) rewritten_fields [of m xid] by simp_all
  with assms(5) show ?thesis
    unfolding fragments_collected [OF assms(1-7)]
    by (simp add: handle_nx_vendor.simps handle_ofmp_extended_data.simps Let_def byteorder)
qed

theorem nested_extended_message_witness:
  "\<exists>d1 d2. receive_all (new_oconn 7) (map (ext_fragment 300 0 True) [d1] @ [ext_fragment 300 0 False d2]) = None"
proof -
  let ?d1 = "[1, 4] @ store16 0 @ store32 0 @ store32 (htonl NX_VENDOR_ID) @ store32 (htonl NXT_MGMT) @ store16 (htons 8) @
    replicate 50000 (0 :: uint8)"
  let ?d2 = "replicate 50000 (0 :: uint8)"
  have "ext_data_xid (new_oconn 7) \<noteq> htonl 300" by (simp add: new_oconn_def) code_simp
  moreover have "[] \<notin> set ([?d1] @ [?d2])" "65536 \<le> length (?d1 @ ?d2)" by simp_all
  moreover have "load32 8 (?d1 @ ?d2) = htonl NX_VENDOR_ID" "load32 12 (?d1 @ ?d2) = htonl NXT_MGMT"
    "load16 16 (?d1 @ ?d2) = htons 8" by (simp_all add: byteorder)
  ultimately have "receive_all (new_oconn 7) (map (ext_fragment 300 0 True) [?d1] @ [ext_fragment 300 0 False ?d2]) = None"
    by (intro nested_extended_message [where ext = "[]" and m = "?d1 @ ?d2"]) (simp_all add: new_oconn_def)
  then show ?thesis by blast
qed

end
