(* ===== verification/Nox_Stream.thy ===== *)
theory Nox_Stream
  imports Nox_Buffer "HOL-Library.Sublist"
begin

text \<open>
  Byte streams (\<^verbatim>\<open>src/src/lib/async_io.cc\<close>) and the framing of OpenFlow messages on them
  (\<^verbatim>\<open>Openflow_stream_connection\<close> in \<^verbatim>\<open>src/src/lib/openflow.cc\<close>).  The system calls behind a stream are a record of
  functions on a state; what a stream socket promises is stated in the locale \<open>byte_stream\<close>.  Error numbers are options or
  left injections, without a value for success; the outer \<open>None\<close> is the use of a null pointer, or no return.
\<close>

section \<open>Streams\<close>

text \<open>
  \<^verbatim>\<open>do_read\<close> returns the bytes it read, none at the end of the stream; \<^verbatim>\<open>do_write\<close> how many bytes it took.
\<close>

record 's stream_ops =
  s_read :: "nat \<Rightarrow> 's \<Rightarrow> (errno + bytes) \<times> 's"
  s_write :: "bytes \<Rightarrow> 's \<Rightarrow> (errno + nat) \<times> 's"
  s_close :: "'s \<Rightarrow> 's"
  s_connect_error :: "'s \<Rightarrow> errno option \<times> 's"

partial_function (option) stream_read :: "'s stream_ops \<Rightarrow> nat \<Rightarrow> 's \<Rightarrow> ((errno + bytes) \<times> 's) option" where
  "stream_read ops n s =
     (case s_read ops n s of (r, s') \<Rightarrow> if r = Inl EINTR then stream_read ops n s' else Some (r, s'))"

partial_function (option) stream_write :: "'s stream_ops \<Rightarrow> bytes \<Rightarrow> 's \<Rightarrow> ((errno + nat) \<times> 's) option" where
  "stream_write ops b s =
     (case s_write ops b s of (r, s') \<Rightarrow> if r = Inl EINTR then stream_write ops b s' else Some (r, s'))"

text \<open>\<open>read_fully\<close> fills a buffer of a given size and returns the error, if there is one, and the bytes read.\<close>

partial_function (option) read_fully :: "'s stream_ops \<Rightarrow> nat \<Rightarrow> bytes \<Rightarrow> 's \<Rightarrow> (errno option \<times> bytes \<times> 's) option" where
  "read_fully ops n got s =
     (if n = 0 then Some (None, got, s)
      else Option.bind (stream_read ops n s) (\<lambda>(r, s').
        case r of
          Inl e \<Rightarrow> Some (Some e, got, s')
        | Inr d \<Rightarrow>
            if d = [] then Some (if got = [] then Some EOF_ERR else None, got, s')
            else if length d \<le> n then read_fully ops (n - length d) (got @ d) s' else None))"

text \<open>\<open>write_fully\<close> returns the error, if there is one, and the number of bytes written.  A write of no bytes ends the loop
  without an error.\<close>

partial_function (option) write_fully :: "'s stream_ops \<Rightarrow> bytes \<Rightarrow> nat \<Rightarrow> 's \<Rightarrow> (errno option \<times> nat \<times> 's) option" where
  "write_fully ops b written s =
     (if b = [] then Some (None, written, s)
      else Option.bind (stream_write ops b s) (\<lambda>(r, s').
        case r of
          Inl e \<Rightarrow> Some (Some e, written, s')
        | Inr n \<Rightarrow>
            if n = 0 then Some (None, written, s')
            else if n \<le> length b then write_fully ops (drop n b) (written + n) s' else None))"

section \<open>Stream connections\<close>

record 's stream_conn =
  sc_stream :: 's
  rx_bytes :: nat
  rx_header :: bytes
  rx_buf :: "bytes option"
  tx_buf :: "bytes option"

definition new_stream_conn :: "bytes \<Rightarrow> 's \<Rightarrow> 's stream_conn" where
  "new_stream_conn garbage s = \<lparr>sc_stream = s, rx_bytes = 0, rx_header = garbage, rx_buf = None, tx_buf = None\<rparr>"

definition stream_close :: "'s stream_ops \<Rightarrow> 's stream_conn \<Rightarrow> 's stream_conn" where
  "stream_close ops c = c\<lparr>sc_stream := s_close ops (sc_stream c)\<rparr>"

definition stream_do_connect :: "'s stream_ops \<Rightarrow> 's stream_conn \<Rightarrow> errno option \<times> 's stream_conn" where
  "stream_do_connect ops c = (case s_connect_error ops (sc_stream c) of (e, s) \<Rightarrow> (e, c\<lparr>sc_stream := s\<rparr>))"

definition send_tx_buf :: "'s stream_ops \<Rightarrow> 's stream_conn \<Rightarrow> (errno option \<times> 's stream_conn) option" where
  "send_tx_buf ops c =
     (case tx_buf c of
        None \<Rightarrow> None
      | Some b \<Rightarrow>
          Option.bind (write_fully ops b 0 (sc_stream c)) (\<lambda>(e, n, s).
            let c1 = c\<lparr>sc_stream := s, tx_buf := Some (drop n b)\<rparr> in
            case e of
              Some err \<Rightarrow> Some (Some err, if err = EAGAIN then c1 else stream_close ops c1)
            | None \<Rightarrow> if drop n b = [] then Some (None, c1\<lparr>tx_buf := None\<rparr>) else Some (Some EAGAIN, c1)))"

text \<open>\<^verbatim>\<open>tx_run\<close>, which the scheduler runs when the stream can be written again.\<close>

definition tx_run :: "'s stream_ops \<Rightarrow> 's stream_conn \<Rightarrow> 's stream_conn option" where
  "tx_run ops c = (case tx_buf c of None \<Rightarrow> Some c | Some _ \<Rightarrow> map_option snd (send_tx_buf ops c))"

text \<open>\<open>oh\<close> is the memory from the header of the message on.\<close>

definition do_send_openflow :: "'s stream_ops \<Rightarrow> bytes \<Rightarrow> 's stream_conn \<Rightarrow> (errno option \<times> 's stream_conn) option" where
  "do_send_openflow ops oh c =
     (let fresh = (\<lambda>c.
        if length oh < unat (ntohs (load16 2 oh)) then None
        else Option.bind (send_tx_buf ops (c\<lparr>tx_buf := Some (take (unat (ntohs (load16 2 oh))) oh)\<rparr>)) (\<lambda>(e, c').
          Some (if e = Some EAGAIN then None else e, c')))
      in case tx_buf c of
           None \<Rightarrow> fresh c
         | Some _ \<Rightarrow> Option.bind (send_tx_buf ops c) (\<lambda>(e, c'). case e of None \<Rightarrow> fresh c' | Some err \<Rightarrow> Some (Some err, c')))"

definition do_read :: "'s stream_ops \<Rightarrow> nat \<Rightarrow> 's stream_conn \<Rightarrow> (errno option \<times> bytes \<times> 's stream_conn) option" where
  "do_read ops need c =
     Option.bind (stream_read ops need (sc_stream c)) (\<lambda>(r, s).
       let c1 = c\<lparr>sc_stream := s\<rparr> in
       case r of
         Inr d \<Rightarrow>
           if d \<noteq> [] then Some (if length d < need then Some EAGAIN else None, d, c1\<lparr>rx_bytes := rx_bytes c + length d\<rparr>)
           else Some (Some (if rx_bytes c = 0 then EOF_ERR else EPROTO), [], stream_close ops c1)
       | Inl e \<Rightarrow> Some (Some e, [], if e = EAGAIN then c1 else stream_close ops c1))"

text \<open>
  \<open>recv_body\<close> is the second half of \<^verbatim>\<open>do_recv_openflow\<close>, which reads the rest of the message into the buffer.  The returned
  \<^verbatim>\<open>auto_ptr\<close> takes the buffer away from the connection.
\<close>

definition need_bytes :: "'s stream_conn \<Rightarrow> nat" where
  "need_bytes c = unat (ucast (ntohs (load16 2 (rx_header c))) - of_nat (rx_bytes c) :: uint64)"

definition recv_body :: "'s stream_ops \<Rightarrow> 's stream_conn \<Rightarrow> ((errno + bytes) \<times> 's stream_conn) option" where
  "recv_body ops c =
     (if need_bytes c \<noteq> 0
      then
        (case rx_buf c of
           None \<Rightarrow> None
         | Some b \<Rightarrow>
             Option.bind (do_read ops (need_bytes c) c) (\<lambda>(e, d, c').
               let b' = memcpy b (rx_bytes c) d in
               case e of
                 Some err \<Rightarrow> Some (Inl err, c'\<lparr>rx_buf := Some b'\<rparr>)
               | None \<Rightarrow> Some (Inr b', c'\<lparr>rx_bytes := 0, rx_buf := None\<rparr>)))
      else map_option (\<lambda>b. (Inr b, c\<lparr>rx_bytes := 0, rx_buf := None\<rparr>)) (rx_buf c))"

definition do_recv_openflow :: "(nat \<Rightarrow> bytes) \<Rightarrow> 's stream_ops \<Rightarrow> 's stream_conn \<Rightarrow>
    ((errno + bytes) \<times> 's stream_conn) option" where
  "do_recv_openflow uninit ops c =
     (if rx_bytes c < 8
      then
        Option.bind (do_read ops (8 - rx_bytes c) c) (\<lambda>(e, d, c').
          let c1 = c'\<lparr>rx_header := memcpy (rx_header c) (rx_bytes c) d\<rparr>;
              len = unat (ntohs (load16 2 (rx_header c1)))
          in case e of
               Some err \<Rightarrow> Some (Inl err, c1)
             | None \<Rightarrow>
                 if len < 8 then Some (Inl EPROTO, stream_close ops c1)
                 else recv_body ops (c1\<lparr>rx_buf := Some (memcpy (uninit len) 0 (rx_header c1))\<rparr>))
      else recv_body ops c)"

section \<open>What a stream promises\<close>

text \<open>
  The laws of a stream whose peer has sent the bytes \<open>pending\<close> and has not closed it: a read takes some of them in order, is
  told to wait when there are none, and may be interrupted finitely often.
\<close>

locale byte_stream =
  fixes ops :: "'s stream_ops" and pending :: "'s \<Rightarrow> bytes" and intr :: "'s \<Rightarrow> nat"
  assumes read_intr: "s_read ops n s = (Inl EINTR, s') \<Longrightarrow> pending s' = pending s \<and> intr s' < intr s"
    and read_data: "0 < n \<Longrightarrow> s_read ops n s = (Inr d, s') \<Longrightarrow> d \<noteq> [] \<and> length d \<le> n \<and> pending s = d @ pending s'"
    and read_wait: "s_read ops n s = (Inl e, s') \<Longrightarrow> e \<noteq> EINTR \<Longrightarrow> e = EAGAIN \<and> pending s = [] \<and> pending s' = []"
begin

lemma stream_read_cases:
  assumes "0 < n"
  obtains d s' where "stream_read ops n s = Some (Inr d, s')" "d \<noteq> []" "length d \<le> n" "pending s = d @ pending s'"
  | s' where "stream_read ops n s = Some (Inl EAGAIN, s')" "pending s = []" "pending s' = []"
proof -
  have "(\<exists>d s'. stream_read ops n s = Some (Inr d, s') \<and> d \<noteq> [] \<and> length d \<le> n \<and> pending s = d @ pending s') \<or>
      (\<exists>s'. stream_read ops n s = Some (Inl EAGAIN, s') \<and> pending s = [] \<and> pending s' = [])"
  proof (induction s rule: measure_induct_rule [of intr])
    case (less s)
    obtain r s' where r: "s_read ops n s = (r, s')" by (cases "s_read ops n s")
    show ?case
    proof (cases "r = Inl EINTR")
      case True
      then have "stream_read ops n s = stream_read ops n s'" using r by (subst stream_read.simps) simp
      with read_intr [of n s s'] r True less.IH [of s'] show ?thesis by simp
    next
      case False
      then have "stream_read ops n s = Some (r, s')" using r by (subst stream_read.simps) simp
      with False show ?thesis
        using read_data [OF assms, of s _ s'] read_wait [of n s _ s'] r by (cases r) auto
    qed
  qed
  with that show thesis by blast
qed

lemma read_fully_ok:
  "\<exists>e d s'. read_fully ops n got s = Some (e, got @ d, s') \<and> pending s = d @ pending s' \<and> length d \<le> n \<and>
     (if length d = n then e = None else e = Some EAGAIN \<and> pending s' = [])"
proof (induction n arbitrary: got s rule: less_induct)
  case (less n)
  show ?case
  proof (cases "n = 0")
    case True
    then show ?thesis by (subst read_fully.simps) simp
  next
    case False
    then have n: "0 < n" by simp
    show ?thesis
    proof (rule stream_read_cases [OF n, of s])
      fix d s1 assume d: "stream_read ops n s = Some (Inr d, s1)" "d \<noteq> []" "length d \<le> n" "pending s = d @ pending s1"
      then have r: "read_fully ops n got s = read_fully ops (n - length d) (got @ d) s1"
        using n by (subst read_fully.simps) simp
      have "n - length d < n" using d n by simp
      from less.IH [OF this, of "got @ d" s1] obtain e d' s' where
        i: "read_fully ops (n - length d) (got @ d) s1 = Some (e, (got @ d) @ d', s')" "pending s1 = d' @ pending s'"
          "length d' \<le> n - length d" "if length d' = n - length d then e = None else e = Some EAGAIN \<and> pending s' = []"
        by blast
      moreover have "length d' = n - length d \<longleftrightarrow> length (d @ d') = n" using d(3) by auto
      ultimately show ?thesis using d r by (intro exI [of _ e] exI [of _ "d @ d'"] exI [of _ s']) auto
    next
      fix s' assume "stream_read ops n s = Some (Inl EAGAIN, s')" "pending s = []" "pending s' = []"
      then show ?thesis using n by (intro exI [of _ "Some EAGAIN"] exI [of _ "[]"] exI [of _ s'])
          (subst read_fully.simps, simp)
    qed
  qed
qed

lemma do_read_cases:
  assumes "0 < n"
  obtains d s where "do_read ops n c = Some (if length d < n then Some EAGAIN else None, d,
        c\<lparr>sc_stream := s, rx_bytes := rx_bytes c + length d\<rparr>)"
      "d \<noteq> []" "length d \<le> n" "pending (sc_stream c) = d @ pending s"
  | s where "do_read ops n c = Some (Some EAGAIN, [], c\<lparr>sc_stream := s\<rparr>)"
      "pending (sc_stream c) = []" "pending s = []"
proof (rule stream_read_cases [OF assms, of "sc_stream c"])
  fix d s assume "stream_read ops n (sc_stream c) = Some (Inr d, s)" "d \<noteq> []" "length d \<le> n" "pending (sc_stream c) = d @ pending s"
  then show thesis by (intro that(1) [of d s]) (simp_all add: do_read_def Let_def)
next
  fix s assume "stream_read ops n (sc_stream c) = Some (Inl EAGAIN, s)" "pending (sc_stream c) = []" "pending s = []"
  then show thesis by (intro that(2) [of s]) (simp_all add: do_read_def Let_def)
qed

end

section \<open>Framing\<close>

text \<open>A message on the wire: its length field is its length.\<close>

definition of_frame :: "bytes \<Rightarrow> bool" where
  "of_frame m \<longleftrightarrow> 8 \<le> length m \<and> length m < 65536 \<and> unat (ntohs (load16 2 m)) = length m"

text \<open>The connection has received the first bytes \<open>p\<close> of the message \<open>m\<close>.\<close>

definition rx_ok :: "bytes \<Rightarrow> bytes \<Rightarrow> 's stream_conn \<Rightarrow> bool" where
  "rx_ok m p c \<longleftrightarrow> rx_bytes c = length p \<and> length (rx_header c) = 8 \<and>
     (if length p < 8 then take (length p) (rx_header c) = p
      else rx_header c = take 8 m \<and> (\<exists>b. rx_buf c = Some b \<and> length b = length m \<and> take (length p) b = p))"

lemma memcpy_take: "off \<le> length mem \<Longrightarrow> take (off + length d) (memcpy mem off d) = take off mem @ d"
  by (simp add: memcpy_def)

lemma length_memcpy_fits: "off + length d \<le> length mem \<Longrightarrow> length (memcpy mem off d) = length mem"
  by (simp add: memcpy_def)

lemma load16_prefix: "k + 2 \<le> n \<Longrightarrow> load16 k (take n m) = load16 k m"
  by (simp add: load16_def drop_take min_def)

lemma need_bytes_rx:
  assumes "of_frame m" and "rx_header c = take 8 m" and "rx_bytes c \<le> length m"
  shows "need_bytes c = length m - rx_bytes c"
proof -
  have len: "unat (ntohs (load16 2 (rx_header c))) = length m"
    using assms(1,2) by (simp add: of_frame_def load16_prefix)
  have b: "length m < 65536" using assms(1) by (simp add: of_frame_def)
  have u: "unat (ucast (ntohs (load16 2 (rx_header c))) :: uint64) = length m"
    using len b by (simp add: unsigned_ucast_eq take_bit_nat_eq_self)
  have r: "unat (of_nat (rx_bytes c) :: uint64) = rx_bytes c" using assms(3) b by (simp add: unat_of_nat)
  have "(of_nat (rx_bytes c) :: uint64) \<le> ucast (ntohs (load16 2 (rx_header c)))"
    using assms(3) by (simp add: word_le_nat_alt u r)
  then show ?thesis unfolding need_bytes_def by (simp add: unat_sub u r)
qed

text \<open>The calls of \<^verbatim>\<open>do_recv_openflow\<close>, with the messages they return; an error other than \<^verbatim>\<open>EAGAIN\<close> ends them.\<close>

fun recv_calls :: "(nat \<Rightarrow> bytes) \<Rightarrow> 's stream_ops \<Rightarrow> nat \<Rightarrow> 's stream_conn \<Rightarrow>
    (bytes list \<times> errno option \<times> 's stream_conn) option" where
  "recv_calls uninit ops 0 c = Some ([], None, c)"
| "recv_calls uninit ops (Suc n) c =
     Option.bind (do_recv_openflow uninit ops c) (\<lambda>(r, c').
       case r of
         Inr m \<Rightarrow> map_option (\<lambda>(ms, e, c''). (m # ms, e, c'')) (recv_calls uninit ops n c')
       | Inl e \<Rightarrow> if e = EAGAIN then recv_calls uninit ops n c' else Some ([], Some e, c'))"

text \<open>One call either waits, with more of the message than before, or returns the message.\<close>

definition step_ok :: "('s \<Rightarrow> bytes) \<Rightarrow> bytes \<Rightarrow> bytes \<Rightarrow> 's stream_conn \<Rightarrow>
    ((errno + bytes) \<times> 's stream_conn) option \<Rightarrow> bool" where
  "step_ok pending m p c r \<longleftrightarrow>
     (\<exists>d c'. r = Some (Inl EAGAIN, c') \<and> rx_ok m (p @ d) c' \<and> length (p @ d) < length m \<and>
        pending (sc_stream c) = d @ pending (sc_stream c') \<and> (pending (sc_stream c) \<noteq> [] \<longrightarrow> d \<noteq> [])) \<or>
     (\<exists>c'. r = Some (Inr m, c') \<and> rx_ok [] [] c' \<and> p @ pending (sc_stream c) = m @ pending (sc_stream c'))"

lemma step_ok_wait:
  "r = Some (Inl EAGAIN, c') \<Longrightarrow> rx_ok m (p @ d) c' \<Longrightarrow> length (p @ d) < length m \<Longrightarrow>
     pending (sc_stream c) = d @ pending (sc_stream c') \<Longrightarrow> (pending (sc_stream c) \<noteq> [] \<Longrightarrow> d \<noteq> []) \<Longrightarrow> step_ok pending m p c r"
  unfolding step_ok_def by blast

lemma step_ok_message:
  "r = Some (Inr m, c') \<Longrightarrow> rx_ok [] [] c' \<Longrightarrow> p @ pending (sc_stream c) = m @ pending (sc_stream c') \<Longrightarrow> step_ok pending m p c r"
  unfolding step_ok_def by blast

lemma step_ok_more:
  assumes "step_ok pending m (p @ d) c1 r" and "pending (sc_stream c) = d @ pending (sc_stream c1)" and "d \<noteq> []"
  shows "step_ok pending m p c r"
  using assms unfolding step_ok_def by (fastforce simp: append_eq_append_conv2)

context byte_stream
begin

lemma recv_body_step:
  assumes m: "of_frame m" and ok: "rx_ok m p c" and p: "8 \<le> length p" "length p \<le> length m"
    and pend: "p @ pending (sc_stream c) = m @ rest"
  shows "step_ok pending m p c (recv_body ops c)"
proof -
  from ok p obtain b where b: "rx_buf c = Some b" "length b = length m" "take (length p) b = p"
    and h: "rx_header c = take 8 m" "rx_bytes c = length p" "length (rx_header c) = 8" by (auto simp: rx_ok_def)
  have need: "need_bytes c = length m - length p" using need_bytes_rx [OF m h(1)] p h(2) by simp
  have idle: "rx_ok [] [] (c\<lparr>sc_stream := s, rx_bytes := 0, rx_buf := None\<rparr>)" for s
    using h by (simp add: rx_ok_def)
  show ?thesis
  proof (cases "length p = length m")
    case True
    have pm: "p = m" using pend True by (metis append_eq_append_conv)
    have "b = take (length p) b" using b(2) True by simp
    also have "\<dots> = m" using b(3) pm by simp
    finally have bm: "rx_buf c = Some m" using b(1) by simp
    have "need_bytes c = 0" using need True by simp
    with bm have "recv_body ops c = Some (Inr m, c\<lparr>sc_stream := sc_stream c, rx_bytes := 0, rx_buf := None\<rparr>)"
      by (simp add: recv_body_def)
    then show ?thesis by (rule step_ok_message [OF _ idle]) (simp add: pm)
  next
    case False
    then have n: "0 < length m - length p" using p by simp
    show ?thesis
    proof (rule do_read_cases [OF n, of c])
      fix d s assume r: "do_read ops (length m - length p) c = Some (if length d < length m - length p then Some EAGAIN else None, d,
          c\<lparr>sc_stream := s, rx_bytes := rx_bytes c + length d\<rparr>)"
        and d: "d \<noteq> []" "length d \<le> length m - length p" and pd: "pending (sc_stream c) = d @ pending s"
      let ?b = "memcpy b (length p) d"
      have tk: "take (length (p @ d)) ?b = p @ d" using memcpy_take [of "length p" b d] b p by simp
      have lb: "length ?b = length m" using length_memcpy_fits [of "length p" d b] b d p by simp
      show "step_ok pending m p c (recv_body ops c)"
      proof (cases "length d < length m - length p")
        case True
        let ?c = "c\<lparr>sc_stream := s, rx_bytes := length p + length d, rx_buf := Some ?b\<rparr>"
        have "rx_ok m (p @ d) ?c" using p h tk lb by (simp add: rx_ok_def)
        moreover have "recv_body ops c = Some (Inl EAGAIN, ?c)" using r True need b h(2) n by (simp add: recv_body_def Let_def)
        ultimately show ?thesis using True pd d by (intro step_ok_wait [of _ ?c m p d]) simp_all
      next
        case False
        then have l: "length (p @ d) = length m" using d p by simp
        have "(p @ d) @ pending s = m @ rest" using pend pd by simp
        with l have pdm: "p @ d = m" by (metis append_eq_append_conv)
        have "?b = take (length (p @ d)) ?b" using l lb by simp
        also have "\<dots> = p @ d" by (rule tk)
        also have "\<dots> = m" by (rule pdm)
        finally have "?b = m" .
        then have "recv_body ops c = Some (Inr m, c\<lparr>sc_stream := s, rx_bytes := 0, rx_buf := None\<rparr>)"
          using r False need b h(2) n by (simp add: recv_body_def Let_def)
        then show ?thesis by (rule step_ok_message [OF _ idle]) (simp add: pd flip: pdm)
      qed
    next
      fix s assume r: "do_read ops (length m - length p) c = Some (Some EAGAIN, [], c\<lparr>sc_stream := s\<rparr>)"
        and pd: "pending (sc_stream c) = []" "pending s = []"
      let ?c = "c\<lparr>sc_stream := s, rx_buf := Some b\<rparr>"
      have "rx_ok m (p @ []) ?c" using ok b p by (simp add: rx_ok_def)
      moreover have "p @ drop (length p) b = b" using append_take_drop_id [of "length p" b] b(3) by simp
      then have "recv_body ops c = Some (Inl EAGAIN, ?c)"
        using r need b h(2) n by (simp add: recv_body_def Let_def memcpy_def)
      ultimately show ?thesis using pd False p by (intro step_ok_wait [of _ ?c m p "[]"]) simp_all
    qed
  qed
qed

lemma do_recv_step:
  assumes u: "\<And>n. length (uninit n) = n" and m: "of_frame m" and ok: "rx_ok m p c" and p: "length p < length m"
    and pend: "p @ pending (sc_stream c) = m @ rest"
  shows "step_ok pending m p c (do_recv_openflow uninit ops c)"
proof (cases "length p < 8")
  case False
  then show ?thesis
    using recv_body_step [OF m ok _ _ pend] p ok by (simp add: do_recv_openflow_def rx_ok_def)
next
  case True
  from ok True have h: "rx_bytes c = length p" "length (rx_header c) = 8" "take (length p) (rx_header c) = p"
    by (simp_all add: rx_ok_def)
  have n: "0 < 8 - length p" and m8: "8 \<le> length m" using True m by (simp_all add: of_frame_def)
  show ?thesis
  proof (rule do_read_cases [OF n, of c])
    fix d s assume r: "do_read ops (8 - length p) c = Some (if length d < 8 - length p then Some EAGAIN else None, d,
        c\<lparr>sc_stream := s, rx_bytes := rx_bytes c + length d\<rparr>)"
      and d: "d \<noteq> []" "length d \<le> 8 - length p" and pd: "pending (sc_stream c) = d @ pending s"
    let ?h = "memcpy (rx_header c) (length p) d"
    let ?c = "c\<lparr>sc_stream := s, rx_bytes := length p + length d, rx_header := ?h\<rparr>"
    have hl: "length ?h = 8" using length_memcpy_fits [of "length p" d "rx_header c"] h d True by simp
    have tk: "take (length (p @ d)) ?h = p @ d" using memcpy_take [of "length p" "rx_header c" d] h True by simp
    show ?thesis
    proof (cases "length d < 8 - length p")
      case short: True
      then have "length p + length d < 8" using True by simp
      then have "rx_ok m (p @ d) ?c" using hl tk by (simp add: rx_ok_def)
      moreover have "do_recv_openflow uninit ops c = Some (Inl EAGAIN, ?c)"
        using short r h(1) n by (simp add: do_recv_openflow_def Let_def)
      ultimately show ?thesis
        using short pd d m8 by (intro step_ok_wait [of _ ?c m p d]) simp_all
    next
      case False
      then have l: "length (p @ d) = 8" using d True by simp
      have "(p @ d) @ pending s = m @ rest" using pend pd by simp
      then have "take 8 ((p @ d) @ pending s) = take 8 (m @ rest)" by (rule arg_cong)
      with l m8 have pdm: "p @ d = take 8 m" by simp
      with tk l hl have hm: "?h = take 8 m" by simp
      let ?c2 = "?c\<lparr>rx_buf := Some (memcpy (uninit (length m)) 0 ?h)\<rparr>"
      have len: "unat (ntohs (load16 2 ?h)) = length m" using m by (simp add: hm of_frame_def load16_prefix)
      have "rx_ok m (p @ d) ?c2"
        using hl l m8 u unfolding rx_ok_def hm pdm [symmetric] by (simp add: memcpy_def)
      moreover have "(p @ d) @ pending (sc_stream ?c2) = m @ rest" using pend pd by simp
      ultimately have "step_ok pending m (p @ d) ?c2 (recv_body ops ?c2)"
        by (intro recv_body_step [OF m]) (use l m8 in simp_all)
      then have "step_ok pending m p c (recv_body ops ?c2)"
        by (rule step_ok_more) (use pd d in simp_all)
      then show ?thesis using False r h(1) n len m8 by (simp add: do_recv_openflow_def Let_def)
    qed
  next
    fix s assume r: "do_read ops (8 - length p) c = Some (Some EAGAIN, [], c\<lparr>sc_stream := s\<rparr>)"
      and pd: "pending (sc_stream c) = []" "pending s = []"
    let ?c = "c\<lparr>sc_stream := s, rx_header := memcpy (rx_header c) (length p) []\<rparr>"
    have "rx_ok m (p @ []) ?c" using ok True by (simp add: rx_ok_def memcpy_def)
    moreover have "do_recv_openflow uninit ops c = Some (Inl EAGAIN, ?c)"
      using r h(1) n by (simp add: do_recv_openflow_def Let_def)
    ultimately show ?thesis using pd p by (intro step_ok_wait [of _ ?c m p "[]"]) simp_all
  qed
qed

text \<open>The calls deliver a prefix of the messages that were sent, and what is missing is still on its way.\<close>

lemma recv_calls_prefix:
  assumes u: "\<And>n. length (uninit n) = n" and fr: "list_all of_frame ms"
    and ok: "rx_ok (hd (ms @ [[]])) p c" and p: "p \<noteq> [] \<Longrightarrow> ms \<noteq> [] \<and> length p < length (hd ms)"
    and pend: "p @ pending (sc_stream c) = concat ms"
  shows "\<exists>k c' p'. recv_calls uninit ops n c = Some (take k ms, None, c') \<and> k \<le> length ms \<and>
    rx_ok (hd (drop k ms @ [[]])) p' c' \<and> (p' \<noteq> [] \<longrightarrow> drop k ms \<noteq> [] \<and> length p' < length (hd (drop k ms))) \<and>
    p' @ pending (sc_stream c') = concat (drop k ms) \<and>
    (length (concat ms) - length p + length ms \<le> n \<longrightarrow> k = length ms)"
  using fr ok p pend
proof (induction n arbitrary: ms p c)
  case 0
  show ?case
    by (rule exI [of _ 0]) (use 0 in \<open>auto simp: neq_Nil_conv\<close>)
next
  case (Suc n)
  show ?case
  proof (cases ms)
    case Nil
    have p0: "p = []" "pending (sc_stream c) = []" using Suc.prems Nil by auto
    obtain s where "do_read ops 8 c = Some (Some EAGAIN, [], c\<lparr>sc_stream := s\<rparr>)" and s: "pending s = []"
      by (rule do_read_cases [of 8 c]) (use p0 in auto)
    moreover have rb: "rx_bytes c = 0" using Suc.prems(2) p0 by (simp add: rx_ok_def)
    ultimately have r: "do_recv_openflow uninit ops c = Some (Inl EAGAIN, c\<lparr>sc_stream := s, rx_header := rx_header c\<rparr>)"
      by (simp add: do_recv_openflow_def Let_def memcpy_def)
    have "rx_ok (hd (ms @ [[]])) [] (c\<lparr>sc_stream := s, rx_header := rx_header c\<rparr>)"
      using Suc.prems(2) Nil p0 by (simp add: rx_ok_def)
    from Suc.IH [OF Suc.prems(1) this] show ?thesis using Nil r s by simp
  next
    case (Cons m ms')
    then have m: "of_frame m" and m8: "8 \<le> length m" using Suc.prems(1) by (auto simp: of_frame_def)
    have ok: "rx_ok m p c" and pl: "length p < length m" and pe: "p @ pending (sc_stream c) = m @ concat ms'"
      using Suc.prems Cons m8 by (cases "p = []"; auto)+
    from do_recv_step [OF u m ok pl pe] show ?thesis
      unfolding step_ok_def
    proof (elim disjE exE conjE)
      fix d c' assume r: "do_recv_openflow uninit ops c = Some (Inl EAGAIN, c')" and ok': "rx_ok m (p @ d) c'"
        and l: "length (p @ d) < length m" and pd: "pending (sc_stream c) = d @ pending (sc_stream c')"
        and prog: "pending (sc_stream c) \<noteq> [] \<longrightarrow> d \<noteq> []"
      have ne: "pending (sc_stream c) \<noteq> []" using pe pl by auto
      then have "d \<noteq> []" using prog by simp
      then have "length (concat ms) - length (p @ d) + length ms < length (concat ms) - length p + length ms"
        using l Cons by (cases d) simp_all
      moreover from Suc.IH [of ms "p @ d" c'] obtain k c'' p'
        where "recv_calls uninit ops n c' = Some (take k ms, None, c'')" "k \<le> length ms"
          "rx_ok (hd (drop k ms @ [[]])) p' c''" "p' \<noteq> [] \<longrightarrow> drop k ms \<noteq> [] \<and> length p' < length (hd (drop k ms))"
          "p' @ pending (sc_stream c'') = concat (drop k ms)"
          "length (concat ms) - length (p @ d) + length ms \<le> n \<longrightarrow> k = length ms"
        using Suc.prems(1) ok' l pe pd Cons by auto
      ultimately show ?thesis using r by (intro exI [of _ k] exI [of _ c''] exI [of _ p']) auto
    next
      fix c' assume r: "do_recv_openflow uninit ops c = Some (Inr m, c')" and idle: "rx_ok [] [] c'"
        and pd: "p @ pending (sc_stream c) = m @ pending (sc_stream c')"
      have pc: "pending (sc_stream c') = concat ms'" using pe pd by simp
      have "rx_ok (hd (ms' @ [[]])) [] c'" using idle by (simp add: rx_ok_def)
      with Suc.IH [of ms' "[]" c'] obtain k c'' p' where "recv_calls uninit ops n c' = Some (take k ms', None, c'')" "k \<le> length ms'"
          "rx_ok (hd (drop k ms' @ [[]])) p' c''" "p' \<noteq> [] \<longrightarrow> drop k ms' \<noteq> [] \<and> length p' < length (hd (drop k ms'))"
          "p' @ pending (sc_stream c'') = concat (drop k ms')" "length (concat ms') + length ms' \<le> n \<longrightarrow> k = length ms'"
        using Suc.prems(1) pc Cons by auto
      moreover have "length (concat ms') + length ms' \<le> n" if "length (concat ms) - length p + length ms \<le> Suc n"
        using that Cons pl by simp
      ultimately show ?thesis using r Cons by (intro exI [of _ "Suc k"] exI [of _ c''] exI [of _ p']) auto
    qed
  qed
qed

end

section \<open>Sending\<close>

text \<open>The laws of an open stream for writing: a write takes a first part of the bytes, possibly none.\<close>

locale out_stream =
  fixes ops :: "'s stream_ops" and written :: "'s \<Rightarrow> bytes" and wintr :: "'s \<Rightarrow> nat"
  assumes write_intr: "s_write ops b s = (Inl EINTR, s') \<Longrightarrow> written s' = written s \<and> wintr s' < wintr s"
    and write_data: "s_write ops b s = (Inr n, s') \<Longrightarrow> n \<le> length b \<and> written s' = written s @ take n b"
    and write_wait: "s_write ops b s = (Inl e, s') \<Longrightarrow> e \<noteq> EINTR \<Longrightarrow> e = EAGAIN \<and> written s' = written s"

text \<open>All that has been accepted for sending: written already, or still in the buffer.\<close>

definition accepted :: "('s \<Rightarrow> bytes) \<Rightarrow> 's stream_conn \<Rightarrow> bytes" where
  "accepted written c = written (sc_stream c) @ (case tx_buf c of None \<Rightarrow> [] | Some b \<Rightarrow> b)"

text \<open>Attempts to send the messages one after the other; the result has the messages that were accepted.\<close>

fun send_calls :: "'s stream_ops \<Rightarrow> bytes list \<Rightarrow> 's stream_conn \<Rightarrow> (bytes list \<times> errno option \<times> 's stream_conn) option" where
  "send_calls ops [] c = Some ([], None, c)"
| "send_calls ops (m # ms) c =
     Option.bind (do_send_openflow ops m c) (\<lambda>(e, c').
       case e of
         None \<Rightarrow> map_option (\<lambda>(as, e', c''). (m # as, e', c'')) (send_calls ops ms c')
       | Some err \<Rightarrow> if err = EAGAIN then send_calls ops ms c' else Some ([], Some err, c'))"

context out_stream
begin

lemma stream_write_cases:
  obtains n s' where "stream_write ops b s = Some (Inr n, s')" "n \<le> length b" "written s' = written s @ take n b"
  | s' where "stream_write ops b s = Some (Inl EAGAIN, s')" "written s' = written s"
proof -
  have "(\<exists>n s'. stream_write ops b s = Some (Inr n, s') \<and> n \<le> length b \<and> written s' = written s @ take n b) \<or>
      (\<exists>s'. stream_write ops b s = Some (Inl EAGAIN, s') \<and> written s' = written s)"
  proof (induction s rule: measure_induct_rule [of wintr])
    case (less s)
    obtain r s' where r: "s_write ops b s = (r, s')" by (cases "s_write ops b s")
    show ?case
    proof (cases "r = Inl EINTR")
      case True
      then have "stream_write ops b s = stream_write ops b s'" using r by (subst stream_write.simps) simp
      with write_intr [of b s s'] r True less.IH [of s'] show ?thesis by simp
    next
      case False
      then have "stream_write ops b s = Some (r, s')" using r by (subst stream_write.simps) simp
      with False show ?thesis
        using write_data [of b s _ s'] write_wait [of b s _ s'] r by (cases r) auto
    qed
  qed
  with that show thesis by blast
qed

lemma write_fully_ok:
  "\<exists>e k s'. write_fully ops b w s = Some (e, w + k, s') \<and> k \<le> length b \<and> written s' = written s @ take k b \<and>
     (e = None \<or> e = Some EAGAIN)"
proof (induction "length b" arbitrary: b w s rule: less_induct)
  case less
  show ?case
  proof (cases "b = []")
    case True
    then show ?thesis by (subst write_fully.simps) simp
  next
    case False
    show ?thesis
    proof (rule stream_write_cases [of b s])
      fix n s' assume w: "stream_write ops b s = Some (Inr n, s')" "n \<le> length b" "written s' = written s @ take n b"
      show ?thesis
      proof (cases "n = 0")
        case True
        then show ?thesis using w False by (subst write_fully.simps) simp
      next
        case n: False
        with False w(2) have "length (drop n b) < length b" by simp
        from less [OF this, of "w + n" s'] obtain e k s'' where
          "write_fully ops (drop n b) (w + n) s' = Some (e, w + n + k, s'')" "k \<le> length b - n"
          "written s'' = written s' @ take k (drop n b)" "e = None \<or> e = Some EAGAIN" by auto
        with w n False show ?thesis
          by (subst write_fully.simps) (auto simp: take_add add.assoc intro!: exI [of _ "n + k"])
      qed
    next
      fix s' assume "stream_write ops b s = Some (Inl EAGAIN, s')" "written s' = written s"
      with False show ?thesis by (subst write_fully.simps) (auto intro!: exI [of _ 0])
    qed
  qed
qed

lemma send_tx_buf_ok:
  assumes "tx_buf c = Some b"
  shows "\<exists>e c'. send_tx_buf ops c = Some (e, c') \<and> accepted written c' = accepted written c \<and>
    (e = None \<and> tx_buf c' = None \<or> e = Some EAGAIN)"
proof -
  obtain e k s' where w: "write_fully ops b 0 (sc_stream c) = Some (e, k, s')" "written s' = written (sc_stream c) @ take k b"
    and e: "e = None \<or> e = Some EAGAIN"
    using write_fully_ok [of b 0 "sc_stream c"] by auto
  from e show ?thesis
    by (elim disjE) (use assms w in \<open>auto simp: send_tx_buf_def Let_def accepted_def\<close>)
qed

lemma do_send_ok:
  assumes "of_frame m"
  shows "\<exists>e c'. do_send_openflow ops m c = Some (e, c') \<and>
    (e = None \<and> accepted written c' = accepted written c @ m \<or> e = Some EAGAIN \<and> accepted written c' = accepted written c)"
proof -
  have len: "unat (ntohs (load16 2 m)) = length m" using assms by (simp add: of_frame_def)
  have fresh: "\<exists>e c'. Option.bind (send_tx_buf ops (c\<lparr>tx_buf := Some m\<rparr>)) (\<lambda>(e, c').
      Some (if e = Some EAGAIN then None else e, c')) = Some (None, c') \<and> accepted written c' = accepted written c @ m"
    if "tx_buf c = None" for c
    using send_tx_buf_ok [of "c\<lparr>tx_buf := Some m\<rparr>" m] that by (auto simp: accepted_def)
  show ?thesis
  proof (cases "tx_buf c")
    case None
    with fresh [of c] len show ?thesis unfolding do_send_openflow_def Let_def by auto
  next
    case (Some b)
    from send_tx_buf_ok [OF this] obtain e c' where c': "send_tx_buf ops c = Some (e, c')"
      "accepted written c' = accepted written c" "e = None \<and> tx_buf c' = None \<or> e = Some EAGAIN" by blast
    from c'(3) show ?thesis
    proof
      assume "e = None \<and> tx_buf c' = None"
      with fresh [of c'] c' Some len show ?thesis by (auto simp: do_send_openflow_def Let_def)
    next
      assume "e = Some EAGAIN"
      with c' Some show ?thesis by (simp add: do_send_openflow_def Let_def)
    qed
  qed
qed

lemma send_calls_ok:
  "list_all of_frame ms \<Longrightarrow>
     \<exists>as c'. send_calls ops ms c = Some (as, None, c') \<and> subseq as ms \<and> accepted written c' = accepted written c @ concat as"
proof (induction ms arbitrary: c)
  case (Cons m ms)
  then have m: "of_frame m" and ms: "list_all of_frame ms" by auto
  from do_send_ok [OF m, of c] obtain e c' where r: "do_send_openflow ops m c = Some (e, c')"
    "e = None \<and> accepted written c' = accepted written c @ m \<or> e = Some EAGAIN \<and> accepted written c' = accepted written c" by blast
  from Cons.IH [OF ms, of c'] obtain as c'' where s: "send_calls ops ms c' = Some (as, None, c'')" "subseq as ms"
    "accepted written c'' = accepted written c' @ concat as" by blast
  from r(2) show ?case
  proof
    assume "e = None \<and> accepted written c' = accepted written c @ m"
    with r s show ?thesis by (intro exI [of _ "m # as"] exI [of _ c'']) simp
  next
    assume "e = Some EAGAIN \<and> accepted written c' = accepted written c"
    with r s show ?thesis by (intro exI [of _ as] exI [of _ c'']) (simp add: list_emb_Cons)
  qed
qed simp

end

section \<open>A segmented stream\<close>

text \<open>
  A stream as the network delivers it: segments of any size, with interrupted calls in between.  It keeps the laws whatever
  the segments are.
\<close>

fun seg_read :: "nat \<Rightarrow> bytes option list \<Rightarrow> (errno + bytes) \<times> bytes option list" where
  "seg_read n [] = (Inl EAGAIN, [])"
| "seg_read n (None # xs) = (Inl EINTR, xs)"
| "seg_read n (Some x # xs) =
     (if x = [] then seg_read n xs
      else if length x \<le> n then (Inr x, xs) else (Inr (take n x), Some (drop n x) # xs))"

definition seg_pending :: "bytes option list \<Rightarrow> bytes" where
  "seg_pending xs = concat (map (case_option [] id) xs)"

definition seg_ops :: "bytes option list stream_ops" where
  "seg_ops = \<lparr>s_read = seg_read, s_write = (\<lambda>b s. (Inr (length b), s)), s_close = id, s_connect_error = (\<lambda>s. (None, s))\<rparr>"

interpretation segments: byte_stream seg_ops seg_pending "\<lambda>xs. length (filter (\<lambda>x. x = None) xs)"
proof
  fix n s s' d e
  have intr: "seg_read n s = (Inl EINTR, s') \<Longrightarrow> seg_pending s' = seg_pending s \<and>
      length (filter (\<lambda>x. x = None) s') < length (filter (\<lambda>x. x = None) s)"
    by (induction n s rule: seg_read.induct) (auto simp: seg_pending_def split: if_splits)
  then show "s_read seg_ops n s = (Inl EINTR, s') \<Longrightarrow> seg_pending s' = seg_pending s \<and>
      length (filter (\<lambda>x. x = None) s') < length (filter (\<lambda>x. x = None) s)" by (simp add: seg_ops_def)
  have "seg_read n s = (Inr d, s') \<Longrightarrow> 0 < n \<Longrightarrow> d \<noteq> [] \<and> length d \<le> n \<and> seg_pending s = d @ seg_pending s'"
    by (induction n s rule: seg_read.induct) (auto simp: seg_pending_def split: if_splits)
  then show "0 < n \<Longrightarrow> s_read seg_ops n s = (Inr d, s') \<Longrightarrow> d \<noteq> [] \<and> length d \<le> n \<and> seg_pending s = d @ seg_pending s'"
    by (simp add: seg_ops_def)
  have "seg_read n s = (Inl e, s') \<Longrightarrow> e \<noteq> EINTR \<Longrightarrow> e = EAGAIN \<and> seg_pending s = [] \<and> seg_pending s' = []"
    by (induction n s rule: seg_read.induct) (auto simp: seg_pending_def split: if_splits)
  then show "s_read seg_ops n s = (Inl e, s') \<Longrightarrow> e \<noteq> EINTR \<Longrightarrow> e = EAGAIN \<and> seg_pending s = [] \<and> seg_pending s' = []"
    by (simp add: seg_ops_def)
qed

text \<open>A stream that takes at most \<open>n\<close> bytes in a call, and then none in the next, for writing.\<close>

definition slow_write :: "nat \<Rightarrow> bytes \<Rightarrow> bytes \<times> bool \<Rightarrow> (errno + nat) \<times> bytes \<times> bool" where
  "slow_write n b s =
     (if snd s then (Inl EAGAIN, fst s, False) else (Inr (min n (length b)), fst s @ take n b, True))"

definition slow_ops :: "nat \<Rightarrow> (bytes \<times> bool) stream_ops" where
  "slow_ops n = \<lparr>s_read = (\<lambda>n s. (Inl EAGAIN, s)), s_write = slow_write n, s_close = id, s_connect_error = (\<lambda>s. (None, s))\<rparr>"

interpretation slow: out_stream "slow_ops n" fst "\<lambda>_. 0"
  by unfold_locales (auto simp: slow_ops_def slow_write_def min_def split: if_splits)

section \<open>Properties\<close>



text \<open>
  C8: on a stream that takes as much of each write as it likes, a message that was accepted is sent whole and in order: what
  is written and what waits in the buffer together are the accepted messages one after the other, and a message that is
  refused with \<^verbatim>\<open>EAGAIN\<close> leaves no trace.
\<close>

theorem stream_sending:
  assumes "out_stream ops written wintr" and "list_all of_frame ms"
  shows "\<exists>as c. send_calls ops ms (new_stream_conn garbage s) = Some (as, None, c) \<and> subseq as ms \<and>
    accepted written c = written s @ concat as"
  using out_stream.send_calls_ok [OF assms, of "new_stream_conn garbage s"]
  by (simp add: accepted_def new_stream_conn_def)

theorem stream_sending_witness:
  "\<exists>as c. send_calls (slow_ops 5) [[1, 0, 0, 8, 0, 0, 0, 1], [1, 3, 0, 8, 0, 0, 0, 2]] (new_stream_conn [] ([], False)) = Some (as, None, c) \<and>
     subseq as [[1, 0, 0, 8, 0, 0, 0, 1], [1, 3, 0, 8, 0, 0, 0, 2]] \<and> accepted fst c = [] @ concat as"
proof -
  let ?ms = "[[1, 0, 0, 8, 0, 0, 0, 1], [1, 3, 0, 8, 0, 0, 0, 2]] :: bytes list"
  have "list_all of_frame ?ms" by (simp add: of_frame_def) code_simp
  from stream_sending [OF slow.out_stream_axioms this, of 5 "[]" "([], False)"] show ?thesis by simp
qed

end
