(* ===== verification/Nox_Timeval.thy ===== *)
theory Nox_Timeval
  imports Nox_Prelude
begin

text \<open>
  Times, \<^verbatim>\<open>src/src/include/timeval.hh\<close> and \<^verbatim>\<open>src/src/lib/timeval.cc\<close>.  \<^verbatim>\<open>time_t\<close> and \<^verbatim>\<open>long\<close> are 64-bit integers and
  times are far from their bounds, so the members are integers.  The current time is a parameter of the functions that ask
  for it.
\<close>

record timeval =
  tv_sec :: int
  tv_usec :: int

definition make_timeval :: "int \<Rightarrow> int \<Rightarrow> timeval" where
  "make_timeval s us = \<lparr>tv_sec = s, tv_usec = us\<rparr>"

definition timeval_compare :: "timeval \<Rightarrow> timeval \<Rightarrow> int" where
  "timeval_compare x y =
     (if tv_sec x \<noteq> tv_sec y then if tv_sec x < tv_sec y then - 1 else 1
      else if tv_usec x \<noteq> tv_usec y then if tv_usec x < tv_usec y then - 1 else 1
      else 0)"

definition tv_eq :: "timeval \<Rightarrow> timeval \<Rightarrow> bool" where
  "tv_eq x y \<longleftrightarrow> timeval_compare x y = 0"

definition tv_neq :: "timeval \<Rightarrow> timeval \<Rightarrow> bool" where
  "tv_neq x y \<longleftrightarrow> timeval_compare x y \<noteq> 0"

definition tv_less :: "timeval \<Rightarrow> timeval \<Rightarrow> bool" where
  "tv_less x y \<longleftrightarrow> timeval_compare x y < 0"

definition tv_greater :: "timeval \<Rightarrow> timeval \<Rightarrow> bool" where
  "tv_greater x y \<longleftrightarrow> timeval_compare x y > 0"

definition tv_le :: "timeval \<Rightarrow> timeval \<Rightarrow> bool" where
  "tv_le x y \<longleftrightarrow> timeval_compare x y \<le> 0"

definition tv_ge :: "timeval \<Rightarrow> timeval \<Rightarrow> bool" where
  "tv_ge x y \<longleftrightarrow> timeval_compare x y \<ge> 0"

definition tv_add :: "timeval \<Rightarrow> timeval \<Rightarrow> timeval" where
  "tv_add x y =
     (let s = tv_sec x + tv_sec y; us = tv_usec x + tv_usec y in
      if us \<ge> 1000000 then \<lparr>tv_sec = s + 1, tv_usec = us - 1000000\<rparr> else \<lparr>tv_sec = s, tv_usec = us\<rparr>)"

definition tv_sub :: "timeval \<Rightarrow> timeval \<Rightarrow> timeval" where
  "tv_sub x y =
     (if tv_le x y then \<lparr>tv_sec = 0, tv_usec = 0\<rparr>
      else if tv_usec x \<ge> tv_usec y then \<lparr>tv_sec = tv_sec x - tv_sec y, tv_usec = tv_usec x - tv_usec y\<rparr>
      else \<lparr>tv_sec = tv_sec x - tv_sec y - 1, tv_usec = 1000000 + tv_usec x - tv_usec y\<rparr>)"

text \<open>The division of C rounds towards zero; \<open>quot\<close> and \<open>remainder\<close> are \<^verbatim>\<open>/\<close> and \<^verbatim>\<open>%\<close>.\<close>

definition quot :: "int \<Rightarrow> int \<Rightarrow> int" where
  "quot a b = (if a \<ge> 0 then a div b else - (- a div b))"

definition remainder :: "int \<Rightarrow> int \<Rightarrow> int" where
  "remainder a b = a - quot a b * b"

abbreviation LONG_MAX :: int where "LONG_MAX \<equiv> 2 ^ 63 - 1"
abbreviation LONG_MIN :: int where "LONG_MIN \<equiv> - (2 ^ 63)"

definition timeval_to_ms :: "timeval \<Rightarrow> int" where
  "timeval_to_ms x =
     (if tv_sec x \<ge> quot LONG_MAX 1000 - 999 then LONG_MAX
      else if tv_sec x \<le> quot LONG_MIN 1000 + 999 then LONG_MIN
      else if tv_sec x \<ge> 0 then tv_sec x * 1000 + quot (tv_usec x + 500) 1000
      else tv_sec x * 1000 - quot (tv_usec x + 500) 1000)"

definition timeval_from_ms :: "int \<Rightarrow> timeval" where
  "timeval_from_ms ms =
     (if ms \<ge> 0
      then if quot ms 1000 < LONG_MAX then make_timeval (quot ms 1000) (remainder ms 1000 * 1000) else make_timeval LONG_MAX 0
      else if quot ms 1000 > LONG_MIN then make_timeval (quot ms 1000) (- remainder ms 1000 * 1000)
      else make_timeval LONG_MIN 0)"

definition time_msec :: "timeval \<Rightarrow> int" where
  "time_msec now = tv_sec now * 1000 + quot (tv_usec now) 1000"

record timespec =
  ts_sec :: int
  ts_nsec :: int

definition make_timespec :: "int \<Rightarrow> int \<Rightarrow> timespec" where
  "make_timespec s ns = \<lparr>ts_sec = s, ts_nsec = ns\<rparr>"

definition timespec_to_ms :: "timespec \<Rightarrow> int" where
  "timespec_to_ms x =
     (if ts_sec x \<ge> quot LONG_MAX 1000 - 999 then LONG_MAX
      else if ts_sec x \<le> quot LONG_MIN 1000 + 999 then LONG_MIN
      else if ts_nsec x \<ge> 0 then ts_sec x * 1000 + quot (ts_nsec x + 500000) 1000000
      else ts_sec x * 1000 + quot (ts_nsec x - 500000) 1000000)"

definition timespec_from_ms :: "int \<Rightarrow> timespec" where
  "timespec_from_ms ms =
     (if ms \<ge> 0
      then if quot ms 1000 < LONG_MAX then make_timespec (quot ms 1000) (remainder ms 1000 * 1000000) else make_timespec LONG_MAX 0
      else
        let ms = ms - 999 in
        if quot ms 1000 > LONG_MIN then make_timespec (quot ms 1000) (- remainder ms 1000 * 1000000)
        else make_timespec LONG_MIN 0)"

section \<open>Times as numbers of microseconds\<close>

definition wf_time :: "timeval \<Rightarrow> bool" where
  "wf_time x \<longleftrightarrow> 0 \<le> tv_usec x \<and> tv_usec x < 1000000"

definition micros :: "timeval \<Rightarrow> int" where
  "micros x = tv_sec x * 1000000 + tv_usec x"

named_theorems time_simps \<open>comparison of times as comparison of numbers\<close>

lemma timeval_compare_micros:
  assumes "wf_time x" and "wf_time y"
  shows "timeval_compare x y = sgn (micros x - micros y)"
proof (cases "tv_sec x = tv_sec y")
  case True
  then show ?thesis by (auto simp: timeval_compare_def micros_def)
next
  case False
  have "micros x < micros y" if "tv_sec x < tv_sec y"
    using that assms by (simp add: micros_def wf_time_def)
  moreover have "micros y < micros x" if "tv_sec y < tv_sec x"
    using that assms by (simp add: micros_def wf_time_def)
  ultimately show ?thesis using False by (auto simp: timeval_compare_def sgn_if)
qed

lemma tv_compare_micros [time_simps]:
  assumes "wf_time x" and "wf_time y"
  shows "tv_eq x y \<longleftrightarrow> micros x = micros y" and "tv_neq x y \<longleftrightarrow> micros x \<noteq> micros y"
    and "tv_less x y \<longleftrightarrow> micros x < micros y" and "tv_greater x y \<longleftrightarrow> micros y < micros x"
    and "tv_le x y \<longleftrightarrow> micros x \<le> micros y" and "tv_ge x y \<longleftrightarrow> micros y \<le> micros x"
  using timeval_compare_micros [OF assms]
  by (auto simp: tv_eq_def tv_neq_def tv_less_def tv_greater_def tv_le_def tv_ge_def sgn_if)

lemma micros_inject:
  assumes "wf_time x" and "wf_time y" and "micros x = micros y"
  shows "x = y"
proof -
  have "timeval_compare x y = 0" using timeval_compare_micros [OF assms(1,2)] assms(3) by simp
  then show ?thesis by (cases x; cases y) (auto simp: timeval_compare_def split: if_splits)
qed

lemma wf_tv_add: "wf_time x \<Longrightarrow> wf_time y \<Longrightarrow> wf_time (tv_add x y)"
  by (auto simp: wf_time_def tv_add_def Let_def)

lemma micros_tv_add [time_simps]: "micros (tv_add x y) = micros x + micros y"
  by (simp add: micros_def tv_add_def Let_def)

lemma wf_tv_sub: "wf_time x \<Longrightarrow> wf_time y \<Longrightarrow> wf_time (tv_sub x y)"
  by (auto simp: wf_time_def tv_sub_def)

lemma micros_tv_sub [time_simps]:
  assumes "wf_time x" and "wf_time y"
  shows "micros (tv_sub x y) = max 0 (micros x - micros y)"
  using tv_compare_micros(5) [OF assms] by (auto simp: tv_sub_def micros_def)

lemma wf_make_timeval [simp]: "wf_time (make_timeval s us) \<longleftrightarrow> 0 \<le> us \<and> us < 1000000"
  by (simp add: wf_time_def make_timeval_def)

lemma micros_make_timeval [time_simps]: "micros (make_timeval s us) = s * 1000000 + us"
  by (simp add: micros_def make_timeval_def)

text \<open>A number of milliseconds survives the conversion to a time and back, unless it is negative.\<close>

lemma timeval_ms_roundtrip:
  assumes "0 \<le> ms" and "ms < 2 ^ 62"
  shows "wf_time (timeval_from_ms ms) \<and> timeval_to_ms (timeval_from_ms ms) = ms \<and>
    time_msec (timeval_from_ms ms) = ms \<and> timespec_to_ms (timespec_from_ms ms) = ms"
proof -
  have q: "quot ms 1000 = ms div 1000" and r: "remainder ms 1000 = ms mod 1000"
    using assms(1) by (simp_all add: quot_def remainder_def minus_div_mult_eq_mod)
  have b: "ms div 1000 < 4611686018427388" "0 \<le> ms div 1000" using assms by simp_all
  then have f: "timeval_from_ms ms = make_timeval (ms div 1000) (ms mod 1000 * 1000)"
    using assms(1) by (simp add: timeval_from_ms_def q r)
  have g: "timespec_from_ms ms = make_timespec (ms div 1000) (ms mod 1000 * 1000000)"
    using b assms(1) by (simp add: timespec_from_ms_def q r)
  have "quot (ms mod 1000 * 1000 + 500) 1000 = ms mod 1000" "quot (ms mod 1000 * 1000000 + 500000) 1000000 = ms mod 1000"
    by (simp_all add: quot_def)
  moreover have "ms mod 1000 < 1000" "0 \<le> ms mod 1000" by simp_all
  ultimately show ?thesis
    using b by (simp add: f g timeval_to_ms_def timespec_to_ms_def make_timeval_def make_timespec_def quot_def wf_time_def
        time_msec_def)
qed

lemma negative_ms:
  "timeval_to_ms (timeval_from_ms (- 500)) = 500" and "timespec_to_ms (timespec_from_ms (- 1000)) = - 1"
  by (simp_all add: timeval_from_ms_def timeval_to_ms_def timespec_from_ms_def timespec_to_ms_def quot_def remainder_def
      make_timeval_def make_timespec_def)

end
