(* ===== verification/Nox_Connection.thy ===== *)
theory Nox_Connection
  imports Nox_Stream Nox_Timeval Nox_Openflow_Pack Nox_Ofpack_Msg
begin

unbundle bit_operations_syntax

text \<open>
  OpenFlow connections, \<^verbatim>\<open>src/src/lib/openflow.cc\<close>: the state machine of the handshake and of the inactivity probe
  (\<^verbatim>\<open>Openflow_connection\<close>), the messages it sends, and the reconnection with backoff
  (\<^verbatim>\<open>Reliable_openflow_connection\<close>).  The virtual functions of a connection are the record \<open>transport\<close>; the one of stream
  connections is \<open>stream_transport\<close>.  The current time is the argument \<open>now\<close>, and \<open>nextxid\<close> is the static counter of
  transaction ids.  Calls do not block.  \<open>None\<close> is a failed assertion, the use of a null pointer, or no return.
\<close>

section \<open>Connections\<close>

abbreviation EINPROGRESS :: errno where "EINPROGRESS \<equiv> 115"

record 't transport =
  t_connect :: "'t \<Rightarrow> errno option \<times> 't"
  t_send :: "bytes \<Rightarrow> 't \<Rightarrow> (errno option \<times> 't) option"
  t_recv :: "'t \<Rightarrow> ((errno + bytes) \<times> 't) option"
  t_close :: "'t \<Rightarrow> 't option"

definition stream_transport :: "(nat \<Rightarrow> bytes) \<Rightarrow> 's stream_ops \<Rightarrow> 's stream_conn transport" where
  "stream_transport uninit ops =
     \<lparr>t_connect = stream_do_connect ops, t_send = do_send_openflow ops, t_recv = do_recv_openflow uninit ops,
      t_close = (\<lambda>c. Some (stream_close ops c))\<rparr>"

datatype conn_state =
    S_CONNECTING
  | S_SEND_HELLO
  | S_RECV_HELLO
  | S_CONNECTED
  | S_IDLE
  | S_SEND_ERROR
  | S_DISCONNECTED

text \<open>\<open>cn_error\<close> is meaningful only when disconnected, \<open>cn_version\<close> and \<open>cn_timeout\<close> only when connected.\<close>

record 't connection =
  cn_state :: conn_state
  cn_error :: errno
  cn_version :: int
  cn_min_version :: int
  cn_timeout :: timeval
  cn_nextxid :: uint32
  cn_transport :: 't

abbreviation OFP_VERSION :: int where "OFP_VERSION \<equiv> 1"
abbreviation OFP_EXPERIMENTAL_VERSION :: uint8 where "OFP_EXPERIMENTAL_VERSION \<equiv> 0x80"
abbreviation probe_interval :: int where "probe_interval \<equiv> 15"

definition disconnect :: "errno \<Rightarrow> 't connection \<Rightarrow> 't connection" where
  "disconnect e c = c\<lparr>cn_state := S_DISCONNECTED, cn_error := e\<rparr>"

text \<open>An OpenFlow header as the code fills it in: the transaction id stays in host byte order.\<close>

definition raw_header :: "uint8 \<Rightarrow> nat \<Rightarrow> uint32 \<Rightarrow> bytes" where
  "raw_header ty len xid = [1, ty] @ store16 (htons (of_nat len)) @ store32 xid"

section \<open>The handshake\<close>

definition s_connecting :: "'t transport \<Rightarrow> 't connection \<Rightarrow> 't connection option" where
  "s_connecting ops c =
     (case t_connect ops (cn_transport c) of (e, t) \<Rightarrow>
        let c1 = c\<lparr>cn_transport := t\<rparr> in
        case e of
          None \<Rightarrow> Some (c1\<lparr>cn_state := S_SEND_HELLO\<rparr>)
        | Some err \<Rightarrow>
            if err = EINPROGRESS then None else if err = EAGAIN then Some c1 else Some (disconnect err c1))"

definition s_send_hello :: "'t transport \<Rightarrow> 't connection \<Rightarrow> 't connection option" where
  "s_send_hello ops c =
     (case get_xid (cn_nextxid c) of (xid, n) \<Rightarrow>
        Option.bind (t_send ops (raw_header 0 8 xid) (cn_transport c)) (\<lambda>(e, t).
          let c1 = c\<lparr>cn_transport := t, cn_nextxid := n\<rparr> in
          Some (case e of
            None \<Rightarrow> c1\<lparr>cn_state := S_RECV_HELLO\<rparr>
          | Some err \<Rightarrow> if err = EAGAIN then c1 else disconnect err c1)))"

definition s_recv_hello :: "'t transport \<Rightarrow> timeval \<Rightarrow> 't connection \<Rightarrow> 't connection option" where
  "s_recv_hello ops now c =
     Option.bind (t_recv ops (cn_transport c)) (\<lambda>(r, t).
       let c1 = c\<lparr>cn_transport := t\<rparr> in
       case r of
         Inl e \<Rightarrow> Some (if e = EAGAIN then c1 else disconnect e c1)
       | Inr b \<Rightarrow>
           if length b < 8 then None
           else if load8 1 b = 0
           then let v = min OFP_VERSION (uint (load8 0 b)); c2 = c1\<lparr>cn_version := v\<rparr> in
             if v < cn_min_version c then Some (c2\<lparr>cn_state := S_SEND_ERROR\<rparr>)
             else Some (c2\<lparr>cn_state := (if load8 0 b > OFP_EXPERIMENTAL_VERSION then S_SEND_ERROR else S_CONNECTED),
                cn_timeout := tv_add now (make_timeval probe_interval 0)\<rparr>)
           else Some (disconnect EPROTO c1))"

text \<open>
  The text of the error message, cut off at 127 characters by \<^verbatim>\<open>snprintf\<close>.  The transaction id of the message is what the
  new buffer held, \<open>junk\<close>.
\<close>

definition version_text :: "int \<Rightarrow> int \<Rightarrow> bytes" where
  "version_text minv v =
     take 127 (map (\<lambda>c. of_nat (of_char c)) (''We support versions 0x'' @ hex2 (word_of_int minv) @ '' to 0x'' @
       hex2 (word_of_int OFP_VERSION) @ '' inclusive but you support no later than version 0x'' @ hex2 (word_of_int v) @ ''.''))"

definition hello_failed :: "bytes \<Rightarrow> int \<Rightarrow> int \<Rightarrow> bytes" where
  "hello_failed junk minv v =
     (let s = version_text minv v in
      [1, 1] @ store16 (htons (of_nat (12 + length s))) @ take 4 junk @ store16 (htons 0) @ store16 (htons 0) @ s)"

definition s_send_error :: "'t transport \<Rightarrow> bytes \<Rightarrow> 't connection \<Rightarrow> 't connection option" where
  "s_send_error ops junk c =
     Option.bind (t_send ops (hello_failed junk (cn_min_version c) (cn_version c)) (cn_transport c)) (\<lambda>(e, t).
       let c1 = c\<lparr>cn_transport := t\<rparr> in
       Some (if e = Some EAGAIN then c1 else disconnect (case e of None \<Rightarrow> EPROTO | Some err \<Rightarrow> err) c1))"

definition conn_step :: "'t transport \<Rightarrow> timeval \<Rightarrow> bytes \<Rightarrow> 't connection \<Rightarrow> 't connection option" where
  "conn_step ops now junk c =
     (case cn_state c of
        S_CONNECTING \<Rightarrow> s_connecting ops c
      | S_SEND_HELLO \<Rightarrow> s_send_hello ops c
      | S_RECV_HELLO \<Rightarrow> s_recv_hello ops now c
      | S_SEND_ERROR \<Rightarrow> s_send_error ops junk c
      | _ \<Rightarrow> Some c)"

fun state_rank :: "conn_state \<Rightarrow> nat" where
  "state_rank S_CONNECTING = 4"
| "state_rank S_SEND_HELLO = 3"
| "state_rank S_RECV_HELLO = 2"
| "state_rank S_SEND_ERROR = 1"
| "state_rank _ = 0"

lemmas conn_step_defs = conn_step_def s_connecting_def s_send_hello_def s_recv_hello_def s_send_error_def disconnect_def Let_def

lemma s_recv_hello_rank:
  assumes "s_recv_hello ops now c = Some c'"
  shows "cn_state c' \<in> {cn_state c, S_SEND_ERROR, S_CONNECTED, S_DISCONNECTED}"
proof -
  from assms obtain r t where "t_recv ops (cn_transport c) = Some (r, t)" by (auto simp: s_recv_hello_def bind_eq_Some_conv)
  with assms show ?thesis
    by (cases r) (auto simp: s_recv_hello_def disconnect_def Let_def split: if_splits)
qed

lemma conn_step_rank:
  assumes "conn_step ops now junk c = Some c'"
  shows "cn_state c' = cn_state c \<or> state_rank (cn_state c') < state_rank (cn_state c)"
proof (cases "cn_state c = S_RECV_HELLO")
  case True
  with assms have "s_recv_hello ops now c = Some c'" by (simp add: conn_step_def)
  with True s_recv_hello_rank [OF this] show ?thesis by auto
next
  case False
  with assms show ?thesis
    by (cases "cn_state c")
      (auto simp: conn_step_def s_connecting_def s_send_hello_def s_send_error_def disconnect_def Let_def bind_eq_Some_conv
        split: prod.splits option.splits if_splits)
qed

function connect :: "'t transport \<Rightarrow> timeval \<Rightarrow> bytes \<Rightarrow> 't connection \<Rightarrow> (errno option \<times> 't connection) option" where
  "connect ops now junk c =
     (case cn_state c of
        S_CONNECTED \<Rightarrow> Some (None, c)
      | S_IDLE \<Rightarrow> Some (None, c)
      | S_DISCONNECTED \<Rightarrow> Some (Some (cn_error c), c)
      | _ \<Rightarrow>
          (case conn_step ops now junk c of
             None \<Rightarrow> None
           | Some c' \<Rightarrow> if cn_state c' \<noteq> cn_state c then connect ops now junk c' else Some (Some EAGAIN, c')))"
  by pat_completeness auto
termination
  by (relation "measure (\<lambda>(ops, now, junk, c). state_rank (cn_state c))") (auto dest!: conn_step_rank)

declare connect.simps [simp del]

section \<open>Sending and receiving\<close>

partial_function (option) send_openflow :: "'t transport \<Rightarrow> timeval \<Rightarrow> bytes \<Rightarrow> bytes \<Rightarrow> 't connection \<Rightarrow>
    (errno option \<times> 't connection) option" where
  "send_openflow ops now junk oh c =
     Option.bind (connect ops now junk c) (\<lambda>(e, c1).
       Option.bind
         (case e of
            None \<Rightarrow> map_option (\<lambda>(e', t). (e', c1\<lparr>cn_transport := t\<rparr>)) (t_send ops oh (cn_transport c1))
          | Some err \<Rightarrow> Some (Some err, c1))
         (\<lambda>(e', c2). if e' = Some EINTR then send_openflow ops now junk oh c2 else Some (e', c2)))"

partial_function (option) recv_openflow :: "'t transport \<Rightarrow> timeval \<Rightarrow> bytes \<Rightarrow> 't connection \<Rightarrow>
    ((errno + bytes) \<times> 't connection) option" where
  "recv_openflow ops now junk c =
     Option.bind (connect ops now junk c) (\<lambda>(e, c1).
       case e of
         Some err \<Rightarrow> Some (Inl err, c1)
       | None \<Rightarrow>
           Option.bind (t_recv ops (cn_transport c1)) (\<lambda>(r, t).
             let c2 = c1\<lparr>cn_transport := t\<rparr> in
             case r of
               Inl err \<Rightarrow> if err = EINTR then recv_openflow ops now junk c2 else Some (Inl err, c2)
             | Inr b \<Rightarrow>
                 Some (Inr b, c2\<lparr>cn_state := (if cn_state c1 = S_IDLE then S_CONNECTED else cn_state c1),
                   cn_timeout := tv_add now (make_timeval probe_interval 0)\<rparr>)))"

text \<open>
  What a caller that was told \<^verbatim>\<open>EAGAIN\<close> waits for: one of the three virtual functions of the transport, or nothing.
  \<^verbatim>\<open>need_to_wait_for_connect\<close> calls one of them and returns true, or it returns false.
\<close>

datatype conn_wait = Do_connect_wait | Do_send_openflow_wait | Do_recv_openflow_wait | Immediate_wake

definition need_to_wait_for_connect :: "'t connection \<Rightarrow> conn_wait option" where
  "need_to_wait_for_connect c =
     (case cn_state c of
        S_CONNECTING \<Rightarrow> Some Do_connect_wait
      | S_SEND_HELLO \<Rightarrow> Some Do_send_openflow_wait
      | S_SEND_ERROR \<Rightarrow> Some Do_send_openflow_wait
      | S_RECV_HELLO \<Rightarrow> Some Do_recv_openflow_wait
      | _ \<Rightarrow> None)"

definition connect_wait :: "'t connection \<Rightarrow> conn_wait" where
  "connect_wait c = (case need_to_wait_for_connect c of Some w \<Rightarrow> w | None \<Rightarrow> Immediate_wake)"

definition send_openflow_wait :: "'t connection \<Rightarrow> conn_wait" where
  "send_openflow_wait c = (case need_to_wait_for_connect c of Some w \<Rightarrow> w | None \<Rightarrow> Do_send_openflow_wait)"

definition recv_openflow_wait :: "'t connection \<Rightarrow> conn_wait" where
  "recv_openflow_wait c = (case need_to_wait_for_connect c of Some w \<Rightarrow> w | None \<Rightarrow> Do_recv_openflow_wait)"

text \<open>A message with a new transaction id.\<close>

definition send_with_xid :: "'t transport \<Rightarrow> timeval \<Rightarrow> bytes \<Rightarrow> (uint32 \<Rightarrow> bytes) \<Rightarrow> 't connection \<Rightarrow>
    (errno option \<times> 't connection) option" where
  "send_with_xid ops now junk msg c =
     (case get_xid (cn_nextxid c) of (xid, n) \<Rightarrow> send_openflow ops now junk (msg xid) (c\<lparr>cn_nextxid := n\<rparr>))"

definition features_request :: "uint32 \<Rightarrow> bytes" where
  "features_request xid = raw_header 5 8 xid"

definition ofmp_header :: "nat \<Rightarrow> uint16 \<Rightarrow> uint32 \<Rightarrow> bytes" where
  "ofmp_header len ty xid = raw_header 4 len xid @ store32 (htonl 0x2320) @ store32 (htonl 8) @ store16 (htons ty) @ [0, 0]"

definition ofmp_capability_request :: "uint32 \<Rightarrow> bytes" where
  "ofmp_capability_request xid = ofmp_header 24 0 xid @ store32 (htonl 0)"

definition ofmp_resources_request :: "uint32 \<Rightarrow> bytes" where
  "ofmp_resources_request xid = ofmp_header 20 2 xid"

definition ofmp_config_request :: "uint32 \<Rightarrow> bytes" where
  "ofmp_config_request xid = ofmp_header 24 4 xid @ store32 (htonl 0)"

definition switch_config :: "uint32 \<Rightarrow> bytes" where
  "switch_config xid = raw_header 9 12 xid @ store16 0 @ store16 (htons 128)"

definition stats_request :: "uint16 \<Rightarrow> uint32 \<Rightarrow> bytes" where
  "stats_request ty xid = raw_header 16 12 xid @ store16 ty @ store16 (htons 0)"

definition echo_request :: "uint32 \<Rightarrow> bytes" where
  "echo_request xid = raw_header 2 8 xid"

definition barrier_request :: "uint32 \<Rightarrow> bytes" where
  "barrier_request xid = raw_header 18 8 xid"

text \<open>\<open>rq\<close> is the memory from the header of the request on.\<close>

definition echo_reply :: "bytes \<Rightarrow> bytes option" where
  "echo_reply rq =
     (let n = unat (ntohs (load16 2 rq)) in
      if length rq < n \<or> n < 8 then None else Some ((take n rq)[1 := 3]))"

definition packet_out :: "uint32 \<Rightarrow> bytes \<Rightarrow> uint16 \<Rightarrow> bytes \<Rightarrow> bytes option" where
  "packet_out buffer_id actions in_port packet =
     (let n = 16 + length actions + length packet in
      if n \<le> 65535
      then Some ([1, 13] @ store16 (htons (of_nat n)) @ store32 0 @ store32 (htonl buffer_id) @ store16 (htons in_port) @
        store16 (htons (of_nat (length actions))) @ actions @ packet)
      else None)"

text \<open>\<^verbatim>\<open>send_packet\<close> of a packet, and of the packet in a buffer of the switch, with an action list or to a single port.\<close>

definition send_packet :: "'t transport \<Rightarrow> timeval \<Rightarrow> bytes \<Rightarrow> bytes \<Rightarrow> bytes \<Rightarrow> uint16 \<Rightarrow> 't connection \<Rightarrow>
    (errno option \<times> 't connection) option" where
  "send_packet ops now junk packet actions in_port c =
     Option.bind (packet_out (- 1) actions in_port packet) (\<lambda>opo. send_openflow ops now junk opo c)"

definition send_buffered_packet :: "'t transport \<Rightarrow> timeval \<Rightarrow> bytes \<Rightarrow> uint32 \<Rightarrow> bytes \<Rightarrow> uint16 \<Rightarrow> 't connection \<Rightarrow>
    (errno option \<times> 't connection) option" where
  "send_buffered_packet ops now junk buffer_id actions in_port c =
     Option.bind (packet_out buffer_id actions in_port []) (\<lambda>opo. send_openflow ops now junk opo c)"

definition output_action :: "uint16 \<Rightarrow> bytes" where
  "output_action out_port = store16 (htons 0) @ store16 (htons 8) @ store16 (htons out_port) @ store16 (htons 0)"

definition send_packet_to_port :: "'t transport \<Rightarrow> timeval \<Rightarrow> bytes \<Rightarrow> bytes \<Rightarrow> uint16 \<Rightarrow> uint16 \<Rightarrow> 't connection \<Rightarrow>
    (errno option \<times> 't connection) option" where
  "send_packet_to_port ops now junk packet out_port in_port c =
     send_packet ops now junk packet (output_action out_port) in_port c"

definition send_buffered_packet_to_port :: "'t transport \<Rightarrow> timeval \<Rightarrow> bytes \<Rightarrow> uint32 \<Rightarrow> uint16 \<Rightarrow> uint16 \<Rightarrow> 't connection \<Rightarrow>
    (errno option \<times> 't connection) option" where
  "send_buffered_packet_to_port ops now junk buffer_id out_port in_port c =
     send_buffered_packet ops now junk buffer_id (output_action out_port) in_port c"

definition add_snat :: "uint16 \<Rightarrow> uint32 \<Rightarrow> uint32 \<Rightarrow> uint16 \<Rightarrow> uint16 \<Rightarrow> uint16 \<Rightarrow> uint16 \<Rightarrow> ethernetaddr \<Rightarrow> uint16 \<Rightarrow> uint32 \<Rightarrow> bytes" where
  "add_snat port ip_start ip_end tcp_start tcp_end udp_start udp_end mac mac_timeout xid =
     raw_header 4 52 xid @ store32 (htonl 0x2320) @ store32 (htonl 2) @ store16 (htons 0) @ [0, 0] @
     [0, 0, 0, 0] @ store16 (htons port) @ store16 (htons mac_timeout) @ store32 (htonl ip_start) @ store32 (htonl ip_end) @
     store16 (htons tcp_start) @ store16 (htons tcp_end) @ store16 (htons udp_start) @ store16 (htons udp_end) @ take 6 mac @ [0, 0]"

definition add_snat_ip :: "uint16 \<Rightarrow> uint32 \<Rightarrow> uint32 \<Rightarrow> bytes" where
  "add_snat_ip port ip_addr xid = add_snat port ip_addr ip_addr 0 0 0 0 (replicate 6 0) 0 xid"

definition del_snat :: "uint16 \<Rightarrow> uint32 \<Rightarrow> bytes" where
  "del_snat port xid =
     raw_header 4 52 xid @ store32 (htonl 0x2320) @ store32 (htonl 2) @ store16 (htons 0) @ [0, 0] @
     [1, 0, 0, 0] @ store16 (htons port) @ replicate 26 0"

definition remote_command :: "bytes \<Rightarrow> bytes list \<Rightarrow> uint32 \<Rightarrow> bytes" where
  "remote_command command args xid =
     (let body = command @ concat (map (\<lambda>a. 0 # a) args) in
      raw_header 4 (16 + length body) xid @ store32 (htonl 0x2320) @ store32 (htonl 4) @ body)"

section \<open>The inactivity probe\<close>

text \<open>One run of the state machine of a connection, with what it waits for next.\<close>

datatype fsm_wait = Wait_timer timeval | Wait_for conn_wait | Wait_nothing

definition conn_run :: "'t transport \<Rightarrow> timeval \<Rightarrow> bytes \<Rightarrow> 't connection \<Rightarrow> (fsm_wait \<times> 't connection) option" where
  "conn_run ops now junk c =
     (if cn_state c = S_CONNECTED \<or> cn_state c = S_IDLE
      then if tv_ge now (cn_timeout c)
        then if cn_state c = S_CONNECTED
          then Option.bind (send_with_xid ops now junk echo_request c) (\<lambda>(e, c1).
            case e of
              None \<Rightarrow>
                (let t = tv_add now (make_timeval probe_interval 0)
                 in Some (Wait_timer t, c1\<lparr>cn_state := S_IDLE, cn_timeout := t\<rparr>))
            | Some err \<Rightarrow>
                if err = EAGAIN then Some (Wait_for (send_openflow_wait c1), c1)
                else Option.bind (t_close ops (cn_transport c1)) (\<lambda>t. Some (Wait_nothing, (disconnect err c1)\<lparr>cn_transport := t\<rparr>)))
          else Option.bind (t_close ops (cn_transport c)) (\<lambda>t. Some (Wait_nothing, (disconnect EPROTO c)\<lparr>cn_transport := t\<rparr>))
        else Some (Wait_timer (cn_timeout c), c)
      else Some (Wait_nothing, c))"

section \<open>Reconnection\<close>

datatype rl_status = CONN_SLEEPING | CONN_WAKING | CONN_CONNECTING | CONN_CONNECTED

text \<open>The factory makes a new connection, or reports an error; the other operations are those of the inner connection.\<close>

record ('f, 'c) inner_ops =
  i_new :: "'f \<Rightarrow> errno option \<times> 'c option \<times> 'f"
  i_connect :: "'c \<Rightarrow> (errno option \<times> 'c) option"
  i_send :: "bytes \<Rightarrow> 'c \<Rightarrow> (errno option \<times> 'c) option"
  i_recv :: "'c \<Rightarrow> ((errno + bytes) \<times> 'c) option"
  i_close :: "'c \<Rightarrow> 'c option"

text \<open>What the state machine asks for at the end of a run: when it is to run next.\<close>

datatype rl_wait = Sleep_until timeval | Yield | Rest | Wait_connect | Fall_through

record ('f, 'c) reliable =
  rl_factory :: 'f
  rl_conn :: "'c option"
  rl_backoff :: int
  rl_status :: rl_status
  rl_waits :: rl_wait

abbreviation backoff_limit :: int where "backoff_limit \<equiv> 60"

definition reconnect :: "('f, 'c) reliable \<Rightarrow> ('f, 'c) reliable" where
  "reconnect r =
     r\<lparr>rl_conn := None, rl_backoff := min backoff_limit (max 1 (rl_backoff r * 2)), rl_status := CONN_SLEEPING\<rparr>"

definition rl_connecting :: "('f, 'c) inner_ops \<Rightarrow> ('f, 'c) reliable \<Rightarrow> ('f, 'c) reliable option" where
  "rl_connecting ops r =
     Option.bind (rl_conn r) (\<lambda>c.
       Option.bind (i_connect ops c) (\<lambda>(e, c').
         let r1 = r\<lparr>rl_conn := Some c'\<rparr> in
         Some (case e of
           None \<Rightarrow> r1\<lparr>rl_status := CONN_CONNECTED, rl_waits := Rest\<rparr>
         | Some err \<Rightarrow> if err = EAGAIN then r1\<lparr>rl_waits := Wait_connect\<rparr> else (reconnect r1)\<lparr>rl_waits := Yield\<rparr>)))"

definition rl_waking :: "('f, 'c) inner_ops \<Rightarrow> ('f, 'c) reliable \<Rightarrow> ('f, 'c) reliable option" where
  "rl_waking ops r =
     (case i_new ops (rl_factory r) of (e, co, f) \<Rightarrow>
        let r1 = r\<lparr>rl_factory := f, rl_conn := co\<rparr> in
        if e \<noteq> None then Some ((reconnect r1)\<lparr>rl_waits := Yield\<rparr>) else rl_connecting ops (r1\<lparr>rl_status := CONN_CONNECTING\<rparr>))"

definition rl_run :: "('f, 'c) inner_ops \<Rightarrow> timeval \<Rightarrow> ('f, 'c) reliable \<Rightarrow> ('f, 'c) reliable option" where
  "rl_run ops now r =
     (case rl_status r of
        CONN_SLEEPING \<Rightarrow>
          if rl_backoff r \<noteq> 0
          then Some (r\<lparr>rl_status := CONN_WAKING, rl_waits := Sleep_until (tv_add now (make_timeval (rl_backoff r) 0))\<rparr>)
          else rl_waking ops (r\<lparr>rl_status := CONN_WAKING\<rparr>)
      | CONN_WAKING \<Rightarrow> rl_waking ops r
      | CONN_CONNECTING \<Rightarrow> rl_connecting ops r
      | CONN_CONNECTED \<Rightarrow> Some (r\<lparr>rl_waits := Fall_through\<rparr>))"

text \<open>The constructor, and the errors of the inner connection, run the state machine at once.\<close>

definition new_reliable :: "('f, 'c) inner_ops \<Rightarrow> timeval \<Rightarrow> 'f \<Rightarrow> ('f, 'c) reliable option" where
  "new_reliable ops now f =
     rl_run ops now \<lparr>rl_factory = f, rl_conn = None, rl_backoff = 0, rl_status = CONN_SLEEPING, rl_waits = Fall_through\<rparr>"

definition rl_send :: "('f, 'c) inner_ops \<Rightarrow> timeval \<Rightarrow> bytes \<Rightarrow> ('f, 'c) reliable \<Rightarrow> (errno option \<times> ('f, 'c) reliable) option" where
  "rl_send ops now oh r =
     (if rl_status r = CONN_CONNECTED
      then Option.bind (rl_conn r) (\<lambda>c.
        Option.bind (i_send ops oh c) (\<lambda>(e, c').
          let r1 = r\<lparr>rl_conn := Some c'\<rparr> in
          if e = None \<or> e = Some EAGAIN then Some (e, r1)
          else map_option (\<lambda>r2. (None, r2)) (rl_run ops now (reconnect r1))))
      else Some (None, r))"

definition rl_recv :: "('f, 'c) inner_ops \<Rightarrow> timeval \<Rightarrow> ('f, 'c) reliable \<Rightarrow> ((errno + bytes) \<times> ('f, 'c) reliable) option" where
  "rl_recv ops now r =
     (if rl_status r = CONN_CONNECTED
      then Option.bind (rl_conn r) (\<lambda>c.
        Option.bind (i_recv ops c) (\<lambda>(x, c').
          let r1 = r\<lparr>rl_conn := Some c'\<rparr> in
          case x of
            Inr b \<Rightarrow> Some (Inr b, r1\<lparr>rl_backoff := 0\<rparr>)
          | Inl e \<Rightarrow>
              if e = EAGAIN then Some (Inl EAGAIN, r1)
              else map_option (\<lambda>r2. (Inl EAGAIN, r2)) (rl_run ops now (reconnect r1))))
      else Some (Inl EAGAIN, r))"

definition rl_close :: "('f, 'c) inner_ops \<Rightarrow> ('f, 'c) reliable \<Rightarrow> ('f, 'c) reliable option" where
  "rl_close ops r = Option.bind (rl_conn r) (\<lambda>c. Option.bind (i_close ops c) (\<lambda>c'. Some (r\<lparr>rl_conn := Some c'\<rparr>)))"

text \<open>
  A reliable connection is a connection itself: the same state machine runs on the virtual functions it defines.
  \<open>conn_ops\<close> are the operations of an inner connection on some transport.
\<close>

definition reliable_transport :: "('f, 'c) inner_ops \<Rightarrow> timeval \<Rightarrow> ('f, 'c) reliable transport" where
  "reliable_transport ops now =
     \<lparr>t_connect = (\<lambda>r. (None, r)), t_send = rl_send ops now, t_recv = rl_recv ops now, t_close = rl_close ops\<rparr>"

definition conn_ops :: "('f \<Rightarrow> errno option \<times> 't connection option \<times> 'f) \<Rightarrow> 't transport \<Rightarrow> timeval \<Rightarrow> bytes \<Rightarrow>
    ('f, 't connection) inner_ops" where
  "conn_ops factory ops now junk =
     \<lparr>i_new = factory, i_connect = connect ops now junk, i_send = send_openflow ops now junk, i_recv = recv_openflow ops now junk,
      i_close = (\<lambda>c. Option.bind (t_close ops (cn_transport c)) (\<lambda>t. Some (c\<lparr>cn_transport := t\<rparr>)))\<rparr>"

text \<open>Where a reliable connection waits: with the inner connection, or for the condition \<^verbatim>\<open>connected\<close>.\<close>

datatype 'w reliable_wait = Inner 'w | Connected_wait

definition rl_send_wait :: "('c \<Rightarrow> 'w) \<Rightarrow> ('f, 'c) reliable \<Rightarrow> 'w reliable_wait option" where
  "rl_send_wait send_wait r =
     (if rl_status r = CONN_CONNECTED then map_option (\<lambda>c. Inner (send_wait c)) (rl_conn r) else Some Connected_wait)"

definition rl_recv_wait :: "('c \<Rightarrow> 'w) \<Rightarrow> ('f, 'c) reliable \<Rightarrow> 'w reliable_wait option" where
  "rl_recv_wait recv_wait r =
     (if rl_status r = CONN_CONNECTED then map_option (\<lambda>c. Inner (recv_wait c)) (rl_conn r) else Some Connected_wait)"

section \<open>Names of connections\<close>

text \<open>\<open>split_on\<close> is the tokenizer with kept empty tokens; \<open>c_atoi\<close> is \<^verbatim>\<open>atoi\<close> of the C library.\<close>

fun split_on :: "char \<Rightarrow> string \<Rightarrow> string list" where
  "split_on sep [] = [[]]"
| "split_on sep (c # cs) =
     (if c = sep then [] # split_on sep cs
      else case split_on sep cs of [] \<Rightarrow> [[c]] | t # ts \<Rightarrow> (c # t) # ts)"

definition is_space :: "char \<Rightarrow> bool" where
  "is_space c \<longleftrightarrow> (of_char c :: nat) = 32 \<or> 9 \<le> (of_char c :: nat) \<and> (of_char c :: nat) \<le> 13"

definition digits :: "string \<Rightarrow> int" where
  "digits s = foldl (\<lambda>n c. n * 10 + (of_char c - 48)) 0 (takeWhile is_digit s)"

definition c_atoi :: "string \<Rightarrow> int" where
  "c_atoi s =
     (case dropWhile is_space s of
        [] \<Rightarrow> 0
      | c # cs \<Rightarrow> if c = CHR ''-'' then - digits cs else if c = CHR ''+'' then digits cs else digits (c # cs))"

datatype conn_spec =
    Tcp_factory string uint16
  | Passive_tcp_factory string uint16
  | Ssl_factory string uint16 string string string
  | Passive_ssl_factory string uint16 string string string
  | Pcapreader string string bool
  | Packetgen int
  | Datapath int

abbreviation OFP_PORT :: uint16 where "OFP_PORT \<equiv> 6633"

definition default_port :: "uint16 \<Rightarrow> uint16" where
  "default_port p = (if p = 0 then OFP_PORT else p)"

definition ip_or_port :: "string \<Rightarrow> string \<times> uint16" where
  "ip_or_port s = (if CHR ''.'' \<in> set s then (s, 0) else (''0.0.0.0'', word_of_int (c_atoi s)))"

definition ip_and_port :: "string \<Rightarrow> string \<Rightarrow> string \<times> uint16" where
  "ip_and_port ip p = (if ip \<noteq> [] then ip else ''0.0.0.0'', word_of_int (c_atoi p))"

text \<open>\<^verbatim>\<open>Openflow_connection_factory::create\<close>; \<open>None\<close> is the end of the program.  The ports are in host byte order here.\<close>

definition create :: "bool \<Rightarrow> bool \<Rightarrow> string \<Rightarrow> conn_spec option" where
  "create have_pcap have_netlink s =
     (case split_on (CHR '':'') s of
        kind # a # rest \<Rightarrow>
          if kind = ''tcp''
          then Some (Tcp_factory a (case rest of [] \<Rightarrow> OFP_PORT | p # _ \<Rightarrow> word_of_int (c_atoi p)))
          else if kind = ''ptcp''
          then (case rest of
                  [] \<Rightarrow> (case ip_or_port a of (ip, p) \<Rightarrow> Some (Passive_tcp_factory ip (default_port p)))
                | [b] \<Rightarrow> (case ip_and_port a b of (ip, p) \<Rightarrow> Some (Passive_tcp_factory ip (default_port p)))
                | _ \<Rightarrow> None)
          else if kind = ''ssl''
          then (case rest of
                  [p, key, cert, ca] \<Rightarrow> Some (Ssl_factory a (default_port (word_of_int (c_atoi p))) key cert ca)
                | _ \<Rightarrow> None)
          else if kind = ''pssl''
          then (case rest of
                  [p, key, cert, ca] \<Rightarrow>
                    (case ip_and_port a p of (ip, n) \<Rightarrow> Some (Passive_ssl_factory ip (default_port n) key cert ca))
                | [key, cert, ca] \<Rightarrow>
                    (case ip_or_port a of (ip, n) \<Rightarrow> Some (Passive_ssl_factory ip (default_port n) key cert ca))
                | [cert, ca] \<Rightarrow> Some (Passive_ssl_factory ''0.0.0.0'' OFP_PORT a cert ca)
                | _ \<Rightarrow> None)
          else if kind = ''pcap'' \<or> kind = ''pcapt''
          then if have_pcap
            then (case rest of
                    [] \<Rightarrow> Some (Pcapreader a [] (kind = ''pcapt''))
                  | [b] \<Rightarrow> Some (Pcapreader a b (kind = ''pcapt''))
                  | _ \<Rightarrow> None)
            else None
          else if kind = ''pgen''
          then if rest = [] then Some (Packetgen (c_atoi a)) else None
          else if kind = ''nl'' \<and> have_netlink then Some (Datapath (c_atoi a))
          else None
      | _ \<Rightarrow> None)"

lemma digits_append: "list_all is_digit s \<Longrightarrow> digits (s @ t) = foldl (\<lambda>n c. n * 10 + (of_char c - 48)) (digits s) (takeWhile is_digit t)"
  by (simp add: digits_def list_all_iff takeWhile_append takeWhile_eq_all_conv [THEN iffD2])

lemma digit_char: "n < 10 \<Longrightarrow> is_digit (char_of (48 + n)) \<and> of_char (char_of (48 + n) :: char) = (48 + int n)"
proof -
  assume "n < 10"
  then have c: "of_char (char_of (48 + n) :: char) = 48 + n" by simp
  have "of_char (char_of (48 + n) :: char) = int (of_char (char_of (48 + n) :: char))" by (rule of_nat_of_char [symmetric])
  then show ?thesis using c \<open>n < 10\<close> by (simp add: is_digit_def)
qed

lemma dec_digits: "list_all is_digit (dec n) \<and> dec n \<noteq> [] \<and> digits (dec n) = int n"
proof (induction n rule: dec.induct)
  case (1 n)
  show ?case
  proof (cases "n < 10")
    case True
    then show ?thesis using digit_char [of n] by (simp add: dec.simps [of n] digits_def)
  next
    case False
    with 1 have "list_all is_digit (dec (n div 10))" "digits (dec (n div 10)) = int (n div 10)" by simp_all
    then show ?thesis using False digit_char [of "n mod 10"]
      by (simp add: dec.simps [of n] digits_append) (simp add: zdiv_int zmod_int)
  qed
qed

lemma c_atoi_dec: "c_atoi (dec n) = int n"
proof (cases "dec n")
  case (Cons c cs)
  then have c: "is_digit c" using dec_digits [of n] by simp
  then have "\<not> is_space c" "c \<noteq> CHR ''-''" "c \<noteq> CHR ''+''" by (auto simp: is_digit_def is_space_def)
  then show ?thesis using Cons dec_digits [of n] by (simp add: c_atoi_def)
qed (use dec_digits [of n] in simp)

lemma split_on_plain: "sep \<notin> set s \<Longrightarrow> split_on sep s = [s]"
  by (induction s) auto

lemma split_on_append: "sep \<notin> set s \<Longrightarrow> split_on sep (s @ sep # t) = s # split_on sep t"
  by (induction s) auto

lemma colon_dec: "CHR '':'' \<notin> set (dec n)"
  using dec_digits [of n] by (auto simp: list_all_iff is_digit_def)

section \<open>What the state machine keeps\<close>

text \<open>
  A call that answers \<^verbatim>\<open>EAGAIN\<close> without an error of its own leaves the connection waiting for the operation that has
  just answered \<^verbatim>\<open>EAGAIN\<close>.
\<close>

definition blocked_on :: "'t transport \<Rightarrow> conn_wait \<Rightarrow> bool" where
  "blocked_on ops w \<longleftrightarrow>
     (case w of
        Do_connect_wait \<Rightarrow> (\<exists>t t'. t_connect ops t = (Some EAGAIN, t'))
      | Do_send_openflow_wait \<Rightarrow> (\<exists>m t t'. t_send ops m t = Some (Some EAGAIN, t'))
      | Do_recv_openflow_wait \<Rightarrow> (\<exists>t t'. t_recv ops t = Some (Inl EAGAIN, t'))
      | Immediate_wake \<Rightarrow> False)"

lemma conn_step_stays:
  assumes "conn_step ops now junk c = Some c'" and "cn_state c' = cn_state c" and "cn_state c \<notin> {S_CONNECTED, S_IDLE, S_DISCONNECTED}"
  shows "blocked_on ops (connect_wait c')"
proof (cases "cn_state c")
  case S_CONNECTING
  obtain e t where "t_connect ops (cn_transport c) = (e, t)" by (cases "t_connect ops (cn_transport c)")
  moreover from this have "e = Some EAGAIN"
    using assms(1,2) S_CONNECTING
    by (cases e) (auto simp: conn_step_def s_connecting_def disconnect_def Let_def split: if_splits)
  ultimately show ?thesis
    using S_CONNECTING assms(2) by (auto simp: blocked_on_def connect_wait_def need_to_wait_for_connect_def)
next
  case S_SEND_HELLO
  obtain xid n where x: "get_xid (cn_nextxid c) = (xid, n)" by (cases "get_xid (cn_nextxid c)")
  then obtain e t where t: "t_send ops (raw_header 0 8 xid) (cn_transport c) = Some (e, t)"
    using assms(1) S_SEND_HELLO by (auto simp: conn_step_def s_send_hello_def Let_def bind_eq_Some_conv)
  then have "e = Some EAGAIN"
    using assms(1,2) S_SEND_HELLO x
    by (cases e) (auto simp: conn_step_def s_send_hello_def disconnect_def Let_def split: if_splits)
  with t show ?thesis
    using S_SEND_HELLO assms(2) by (auto simp: blocked_on_def connect_wait_def need_to_wait_for_connect_def)
next
  case S_RECV_HELLO
  then obtain r t where t: "t_recv ops (cn_transport c) = Some (r, t)"
    using assms(1) by (auto simp: conn_step_def s_recv_hello_def Let_def bind_eq_Some_conv)
  then have "r = Inl EAGAIN"
    using assms(1,2) S_RECV_HELLO
    by (cases r) (auto simp: conn_step_def s_recv_hello_def disconnect_def Let_def split: if_splits)
  with t show ?thesis
    using S_RECV_HELLO assms(2) by (auto simp: blocked_on_def connect_wait_def need_to_wait_for_connect_def)
next
  case S_SEND_ERROR
  then obtain m e t where t: "t_send ops m (cn_transport c) = Some (e, t)" "e = Some EAGAIN"
    using assms(1,2) by (auto simp: conn_step_def s_send_error_def disconnect_def Let_def bind_eq_Some_conv split: if_splits)
  then show ?thesis
    using S_SEND_ERROR assms(2) by (auto simp: blocked_on_def connect_wait_def need_to_wait_for_connect_def)
qed (use assms(3) in simp_all)

lemma connect_pending:
  assumes "cn_state c \<notin> {S_CONNECTED, S_IDLE, S_DISCONNECTED}"
  shows "connect ops now junk c = (case conn_step ops now junk c of None \<Rightarrow> None
    | Some c1 \<Rightarrow> if cn_state c1 \<noteq> cn_state c then connect ops now junk c1 else Some (Some EAGAIN, c1))"
  using assms by (subst connect.simps) (auto split: conn_state.splits)

text \<open>The result of \<^verbatim>\<open>connect\<close>, by the state it leaves.\<close>

definition connect_ok :: "'t transport \<Rightarrow> errno option \<Rightarrow> 't connection \<Rightarrow> bool" where
  "connect_ok ops r c \<longleftrightarrow>
     (if cn_state c = S_CONNECTED \<or> cn_state c = S_IDLE then r = None
      else if cn_state c = S_DISCONNECTED then r = Some (cn_error c)
      else r = Some EAGAIN \<and> blocked_on ops (connect_wait c))"

lemma connect_result:
  assumes "connect ops now junk c = Some (r, c')"
  shows "connect_ok ops r c'"
  using assms
proof (induction ops now junk c rule: connect.induct)
  case (1 ops now junk c)
  show ?case
  proof (cases "cn_state c \<in> {S_CONNECTED, S_IDLE, S_DISCONNECTED}")
    case True
    with 1(5) show ?thesis by (auto simp: connect.simps [of ops now junk c] connect_ok_def)
  next
    case False
    note e = connect_pending [OF False, of ops now junk]
    with 1(5) obtain c1 where c1: "conn_step ops now junk c = Some c1" by (auto split: option.splits)
    show ?thesis
    proof (cases "cn_state c1 = cn_state c")
      case True
      then have "r = Some EAGAIN" "c' = c1" using 1(5) e c1 by simp_all
      with True False conn_step_stays [OF c1 True False] show ?thesis by (simp add: connect_ok_def)
    next
      case change: False
      then have "connect ops now junk c1 = Some (r, c')" using 1(5) e c1 by simp
      note step = c1 change this
      from False consider "cn_state c = S_CONNECTING" | "cn_state c = S_SEND_HELLO" | "cn_state c = S_RECV_HELLO"
        | "cn_state c = S_SEND_ERROR" by (cases "cn_state c") simp_all
      then show ?thesis by cases (erule 1(1-4) [OF _ step])+
    qed
  qed
qed

text \<open>A transport whose operations always return.\<close>

definition returning :: "'t transport \<Rightarrow> bool" where
  "returning ops \<longleftrightarrow>
     (\<forall>t. fst (t_connect ops t) \<noteq> Some EINPROGRESS) \<and> (\<forall>m t. t_send ops m t \<noteq> None) \<and>
     (\<forall>t. \<exists>r t'. t_recv ops t = Some (r, t') \<and> (\<forall>b. r = Inr b \<longrightarrow> 8 \<le> length b))"

lemma conn_step_returns:
  assumes "returning ops" and "cn_state c \<notin> {S_CONNECTED, S_IDLE, S_DISCONNECTED}"
  shows "\<exists>c'. conn_step ops now junk c = Some c'"
proof -
  obtain e t where 1: "t_connect ops (cn_transport c) = (e, t)" "e \<noteq> Some EINPROGRESS"
    using assms(1) unfolding returning_def by (metis prod.collapse)
  have 2: "\<exists>e t. t_send ops m (cn_transport c) = Some (e, t)" for m
    using assms(1) unfolding returning_def by (metis not_Some_eq prod.collapse)
  obtain r t' where 3: "t_recv ops (cn_transport c) = Some (r, t')" "\<And>b. r = Inr b \<Longrightarrow> 8 \<le> length b"
    using assms(1) unfolding returning_def by metis
  from assms(2) consider "cn_state c = S_CONNECTING" | "cn_state c = S_SEND_HELLO" | "cn_state c = S_RECV_HELLO"
    | "cn_state c = S_SEND_ERROR" by (cases "cn_state c") simp_all
  then show ?thesis
  proof cases
    case 2
    obtain xid n where "get_xid (cn_nextxid c) = (xid, n)" by (cases "get_xid (cn_nextxid c)")
    moreover obtain e t where "t_send ops (raw_header 0 8 xid) (cn_transport c) = Some (e, t)"
      using \<open>\<And>m. \<exists>e t. t_send ops m (cn_transport c) = Some (e, t)\<close> by blast
    ultimately show ?thesis using 2 by (simp add: conn_step_def s_send_hello_def Let_def)
  next
    case 3
    then show ?thesis using \<open>t_recv ops (cn_transport c) = Some (r, t')\<close> \<open>\<And>b. r = Inr b \<Longrightarrow> 8 \<le> length b\<close>
      by (cases r) (auto simp: conn_step_def s_recv_hello_def Let_def not_less [symmetric])
  next
    case 4
    obtain e t where "t_send ops (hello_failed junk (cn_min_version c) (cn_version c)) (cn_transport c) = Some (e, t)"
      using \<open>\<And>m. \<exists>e t. t_send ops m (cn_transport c) = Some (e, t)\<close> by blast
    then show ?thesis using 4 by (simp add: conn_step_def s_send_error_def Let_def)
  qed (use 1 in \<open>cases e; simp add: conn_step_def s_connecting_def Let_def\<close>)
qed

lemma connect_returns:
  assumes "returning ops"
  shows "\<exists>r c'. connect ops now junk c = Some (r, c')"
  using assms
proof (induction ops now junk c rule: connect.induct)
  case (1 ops now junk c)
  show ?case
  proof (cases "cn_state c \<in> {S_CONNECTED, S_IDLE, S_DISCONNECTED}")
    case True
    then show ?thesis by (auto simp: connect.simps [of ops now junk c])
  next
    case False
    obtain c1 where c1: "conn_step ops now junk c = Some c1" using conn_step_returns [OF 1(5) False] by blast
    show ?thesis
    proof (cases "cn_state c1 = cn_state c")
      case True
      with c1 show ?thesis by (simp add: connect_pending [OF False])
    next
      case change: False
      note step = c1 change 1(5)
      from False consider "cn_state c = S_CONNECTING" | "cn_state c = S_SEND_HELLO" | "cn_state c = S_RECV_HELLO"
        | "cn_state c = S_SEND_ERROR" by (cases "cn_state c") simp_all
      then have "\<exists>r c'. connect ops now junk c1 = Some (r, c')" by cases (erule 1(1-4) [OF _ step])+
      with c1 change show ?thesis by (simp add: connect_pending [OF False])
    qed
  qed
qed

lemma connect_connected: "cn_state c = S_CONNECTED \<or> cn_state c = S_IDLE \<Longrightarrow> connect ops now junk c = Some (None, c)"
  by (auto simp: connect.simps)

lemma connect_step:
  assumes "cn_state c \<notin> {S_CONNECTED, S_IDLE, S_DISCONNECTED}" and "conn_step ops now junk c = Some c1" and "cn_state c1 \<noteq> cn_state c"
  shows "connect ops now junk c = connect ops now junk c1"
  using assms by (subst connect.simps) (auto split: conn_state.splits)

lemma send_connected:
  assumes "cn_state c = S_CONNECTED \<or> cn_state c = S_IDLE" and "t_send ops oh (cn_transport c) = Some (e, t)" and "e \<noteq> Some EINTR"
  shows "send_openflow ops now junk oh c = Some (e, c\<lparr>cn_transport := t\<rparr>)"
  using assms by (subst send_openflow.simps) (simp add: connect_connected)

lemma packet_out_layout:
  assumes "16 + length actions + length packet \<le> 65535"
  shows "\<exists>m opo. packet_out buffer_id actions in_port packet = Some m \<and> of_frame m \<and> of_packet_out_unpack m = Some opo \<and>
    packet_out_buffer_id opo = buffer_id \<and> packet_out_in_port opo = in_port \<and>
    unat (packet_out_actions_len opo) = length actions \<and> drop 16 m = actions @ packet"
proof -
  define n where "n = 16 + length actions + length packet"
  define h where "h = [1, 13] @ store16 (htons (of_nat n)) @ store32 0 @ store32 (htonl buffer_id) @ store16 (htons in_port) @
      store16 (htons (of_nat (length actions)))"
  define m where "m = h @ actions @ packet"
  have le: "n \<le> 65535" "length actions \<le> 65535" using assms by (simp_all add: n_def)
  have h: "length h = 16" by (simp add: h_def)
  then have lm: "length m = n" by (simp add: m_def n_def)
  have u: "unat (of_nat n :: uint16) = n" "unat (of_nat (length actions) :: uint16) = length actions"
    using le by (simp_all add: unat_of_nat)
  have "packet_out buffer_id actions in_port packet = Some m"
    using le by (simp add: packet_out_def Let_def m_def h_def n_def)
  moreover have "of_frame m"
    using u le by (simp add: of_frame_def lm) (simp add: m_def h_def byteorder n_def)
  moreover have "of_packet_out_unpack m = Some \<lparr>packet_out_header = \<lparr>header_version = load8 0 m, header_type = load8 1 m,
      header_length = ntohs (load16 2 m), header_xid = ntohl (load32 4 m)\<rparr>, packet_out_buffer_id = buffer_id,
      packet_out_in_port = in_port, packet_out_actions_len = of_nat (length actions)\<rparr>"
  proof -
    have "load32 8 m = htonl buffer_id" "load16 12 m = htons in_port" "load16 14 m = htons (of_nat (length actions))"
      by (simp_all add: m_def h_def byteorder)
    then show ?thesis by (simp add: of_packet_out_unpack_def of_header_unpack_def lm) (simp add: n_def)
  qed
  moreover have "drop 16 m = actions @ packet" using h by (simp add: m_def)
  ultimately show ?thesis using u(2) by (intro exI [of _ m]) simp
qed

text \<open>
  A connection name with a host and a port names that host and port, for active and passive connections; without a port
  it names the port of OpenFlow.  An empty port is port 0 for an active connection and the port of OpenFlow for a passive one.
\<close>

lemma connection_names:
  assumes "CHR '':'' \<notin> set host"
  shows "create pc nl (''tcp:'' @ host @ '':'' @ dec (unat p)) = Some (Tcp_factory host p)"
    and "create pc nl (''tcp:'' @ host) = Some (Tcp_factory host OFP_PORT)"
    and "create pc nl (''tcp:'' @ host @ '':'') = Some (Tcp_factory host 0)"
    and "create pc nl (''ptcp:'' @ host @ '':'' @ dec (unat p)) =
      Some (Passive_tcp_factory (if host = [] then ''0.0.0.0'' else host) (default_port p))"
    and "create pc nl (''ptcp:'' @ dec (unat p)) = Some (Passive_tcp_factory ''0.0.0.0'' (default_port p))"
proof -
  have dot: "CHR ''.'' \<notin> set (dec (unat p))" using dec_digits [of "unat p"] by (auto simp: list_all_iff is_digit_def)
  note t = split_on_append [OF assms] split_on_plain [OF assms] split_on_plain [OF colon_dec] c_atoi_dec
  show "create pc nl (''tcp:'' @ host @ '':'' @ dec (unat p)) = Some (Tcp_factory host p)"
    "create pc nl (''tcp:'' @ host) = Some (Tcp_factory host OFP_PORT)"
    "create pc nl (''tcp:'' @ host @ '':'') = Some (Tcp_factory host 0)"
    "create pc nl (''ptcp:'' @ host @ '':'' @ dec (unat p)) =
      Some (Passive_tcp_factory (if host = [] then ''0.0.0.0'' else host) (default_port p))"
    "create pc nl (''ptcp:'' @ dec (unat p)) = Some (Passive_tcp_factory ''0.0.0.0'' (default_port p))"
    by (simp_all add: create_def t ip_and_port_def ip_or_port_def dot c_atoi_def [of "[]"])
qed

text \<open>\<^verbatim>\<open>send_stats_request\<close> does not convert the type to network byte order: a switch reads type 256 for type 1.\<close>

lemma stats_request_type: "load16 8 (stats_request ty xid) = ty \<and> ntohs (load16 8 (stats_request 1 xid)) = 256"
  by (simp add: stats_request_def raw_header_def byteorder) (simp add: htons_def)

text \<open>A transport that is connected, takes every message and delivers the ones it is given.\<close>

definition mailbox :: "(bytes list \<times> bytes list) transport" where
  "mailbox = \<lparr>t_connect = (\<lambda>t. (None, t)), t_send = (\<lambda>m (outbox, inbox). Some (None, outbox @ [m], inbox)),
     t_recv = (\<lambda>(outbox, inbox). case inbox of [] \<Rightarrow> Some (Inl EAGAIN, outbox, [])
       | m # ms \<Rightarrow> Some (Inr m, outbox, ms)), t_close = (\<lambda>(outbox, inbox). Some (outbox, []))\<rparr>"

definition mail_conn :: "conn_state \<Rightarrow> bytes list \<Rightarrow> (bytes list \<times> bytes list) connection" where
  "mail_conn st ms = \<lparr>cn_state = st, cn_error = 0, cn_version = 0, cn_min_version = 1, cn_timeout = make_timeval 15 0,
     cn_nextxid = 7, cn_transport = ([], ms)\<rparr>"

section \<open>Reconnection after failures\<close>

text \<open>Successive runs of the state machine, the \<open>k\<close>th one at the time \<open>now k\<close>.\<close>

fun rl_runs :: "('f, 'c) inner_ops \<Rightarrow> (nat \<Rightarrow> timeval) \<Rightarrow> nat \<Rightarrow> ('f, 'c) reliable \<Rightarrow> ('f, 'c) reliable option" where
  "rl_runs ops now 0 r = Some r"
| "rl_runs ops now (Suc k) r = Option.bind (rl_runs ops now k r) (rl_run ops (now k))"

definition attempt_fails :: "('f, 'c) inner_ops \<Rightarrow> 'f \<Rightarrow> bool" where
  "attempt_fails ops f \<longleftrightarrow>
     (case i_new ops f of
        (Some e, co, f') \<Rightarrow> True
      | (None, Some c, f') \<Rightarrow> (case i_connect ops c of Some (Some e, c') \<Rightarrow> e \<noteq> EAGAIN | _ \<Rightarrow> False)
      | (None, None, f') \<Rightarrow> False)"

lemma rl_waking_fails:
  assumes "attempt_fails ops (rl_factory r)"
  shows "\<exists>r'. rl_waking ops r = Some r' \<and> rl_status r' = CONN_SLEEPING \<and>
    rl_backoff r' = min backoff_limit (max 1 (rl_backoff r * 2)) \<and> rl_waits r' = Yield"
  using assms
  by (auto simp: attempt_fails_def rl_waking_def rl_connecting_def reconnect_def Let_def split: prod.splits option.splits)

lemma backoff_step: "min 60 (max 1 (min 60 (2 ^ n) * 2)) = min 60 (2 ^ Suc n :: int)"
proof -
  have "1 \<le> x \<Longrightarrow> min 60 (max 1 (min 60 x * 2)) = min 60 (2 * x)" for x :: int by (simp add: min_def max_def)
  from this [of "2 ^ n"] show ?thesis by simp
qed

lemma failing_runs:
  fixes now :: "nat \<Rightarrow> timeval"
  assumes "rl_status r = CONN_SLEEPING" and "rl_backoff r = 0" and fails: "\<And>f. attempt_fails ops f"
  shows "\<exists>r'. rl_runs ops now (Suc (Suc (2 * n))) r = Some r' \<and> rl_status r' = CONN_WAKING \<and>
    rl_waits r' = Sleep_until (tv_add (now (Suc (2 * n))) (make_timeval (min 60 (2 ^ n)) 0))"
proof -
  have sleep: "\<exists>r''. Option.bind (Some r') (rl_run ops t) = Some r'' \<and> rl_status r'' = CONN_WAKING \<and> rl_backoff r'' = min 60 (2 ^ n) \<and>
      rl_waits r'' = Sleep_until (tv_add t (make_timeval (min 60 (2 ^ n)) 0))"
    if "rl_status r' = CONN_SLEEPING" "rl_backoff r' = min 60 (2 ^ n)" for r' t n
  proof -
    have "min 60 (2 ^ n) \<noteq> (0 :: int)" by (simp add: min_def)
    with that show ?thesis by (simp add: rl_run_def)
  qed
  have "\<exists>r'. rl_runs ops now (Suc (Suc (2 * n))) r = Some r' \<and> rl_status r' = CONN_WAKING \<and> rl_backoff r' = min 60 (2 ^ n) \<and>
    rl_waits r' = Sleep_until (tv_add (now (Suc (2 * n))) (make_timeval (min 60 (2 ^ n)) 0))"
  proof (induction n)
    case 0
    obtain r' where r': "rl_run ops (now 0) r = Some r'" "rl_status r' = CONN_SLEEPING" "rl_backoff r' = 1"
      using rl_waking_fails [OF fails, of "r\<lparr>rl_status := CONN_WAKING\<rparr>"] assms(1,2) by (auto simp: rl_run_def)
    with sleep [of r' 0 "now 1"] show ?case by simp
  next
    case (Suc n)
    then obtain r1 where r1: "rl_runs ops now (Suc (Suc (2 * n))) r = Some r1" "rl_status r1 = CONN_WAKING" "rl_backoff r1 = min 60 (2 ^ n)"
      by blast
    obtain r2 where r2: "rl_run ops (now (Suc (Suc (2 * n)))) r1 = Some r2" "rl_status r2 = CONN_SLEEPING"
        "rl_backoff r2 = min 60 (2 ^ Suc n)"
      using rl_waking_fails [OF fails, of r1] r1(2,3) backoff_step [of n] by (auto simp: rl_run_def)
    have k: "Suc (Suc (2 * Suc n)) = Suc (Suc (Suc (Suc (2 * n))))" "Suc (2 * Suc n) = Suc (Suc (Suc (2 * n)))" by simp_all
    have "rl_runs ops now (Suc (Suc (Suc (2 * n)))) r = Some r2" using r1(1) r2(1) by (simp del: rl_runs.simps add: rl_runs.simps(2) [of _ _ "Suc (Suc (2 * n))"])
    then show ?case using sleep [OF r2(2,3), of "now (Suc (Suc (Suc (2 * n))))"]
      by (simp only: k rl_runs.simps(2) [of _ _ "Suc (Suc (Suc (2 * n)))"])
  qed
  then show ?thesis by blast
qed

text \<open>A factory that never gets a connection.\<close>

definition broken :: "(unit, bool) inner_ops" where
  "broken = \<lparr>i_new = (\<lambda>f. (Some EPROTO, None, f)), i_connect = (\<lambda>c. None), i_send = (\<lambda>m c. None),
     i_recv = (\<lambda>c. if c then Some (Inr [], c) else Some (Inl EPROTO, c)), i_close = Some\<rparr>"

section \<open>Properties\<close>



text \<open>
  C9: when the transport connects, takes the hello message and delivers the hello of the peer, the connection ends
  connected with version 1 and a deadline for the next message if the peer offers a version from 1 to the experimental
  limit; with any other version the peer is sent an error and the connection ends disconnected with \<^verbatim>\<open>EPROTO\<close>.
\<close>

theorem handshake:
  assumes "cn_state c = S_CONNECTING" and "cn_min_version c = 1" and "t_connect ops (cn_transport c) = (None, t1)"
    and "t_send ops (raw_header 0 8 (fst (get_xid (cn_nextxid c)))) t1 = Some (None, t2)"
    and "t_recv ops t2 = Some (Inr hello, t3)" and "8 \<le> length hello" and "load8 1 hello = 0"
    and "t_send ops (hello_failed junk 1 (min 1 (uint (load8 0 hello)))) t3 = Some (None, t4)"
  shows "\<exists>c'. connect ops now junk c =
      Some (if 1 \<le> load8 0 hello \<and> load8 0 hello \<le> OFP_EXPERIMENTAL_VERSION then None else Some EPROTO, c') \<and>
    (if 1 \<le> load8 0 hello \<and> load8 0 hello \<le> OFP_EXPERIMENTAL_VERSION
     then cn_state c' = S_CONNECTED \<and> cn_version c' = 1 \<and> cn_timeout c' = tv_add now (make_timeval probe_interval 0) \<and>
       cn_transport c' = t3
     else cn_state c' = S_DISCONNECTED \<and> cn_transport c' = t4)"
proof -
  let ?n = "snd (get_xid (cn_nextxid c))" and ?v = "load8 0 hello"
  let ?c1 = "c\<lparr>cn_transport := t1, cn_state := S_SEND_HELLO\<rparr>"
  let ?c2 = "c\<lparr>cn_transport := t2, cn_nextxid := ?n, cn_state := S_RECV_HELLO\<rparr>"
  have "conn_step ops now junk c = Some ?c1"
    using assms(1,3) by (simp add: conn_step_def s_connecting_def)
  then have 1: "connect ops now junk c = connect ops now junk ?c1" using assms(1) by (intro connect_step) simp_all
  have "conn_step ops now junk ?c1 = Some ?c2"
    using assms(4) by (simp add: conn_step_def s_send_hello_def Let_def split_beta)
  then have 2: "connect ops now junk ?c1 = connect ops now junk ?c2" by (intro connect_step) simp_all
  have v: "1 \<le> ?v \<longleftrightarrow> 0 < uint ?v" by (simp add: word_le_def int_one_le_iff_zero_less)
  let ?t = "tv_add now (make_timeval probe_interval 0)"
  let ?c3 = "c\<lparr>cn_transport := t3, cn_nextxid := ?n, cn_version := min 1 (uint ?v),
    cn_state := (if 1 \<le> ?v \<and> ?v \<le> OFP_EXPERIMENTAL_VERSION then S_CONNECTED else S_SEND_ERROR),
    cn_timeout := (if 1 \<le> ?v then ?t else cn_timeout c)\<rparr>"
  have "conn_step ops now junk ?c2 = Some ?c3"
    using assms(2,5-7) v by (auto simp: conn_step_def s_recv_hello_def Let_def simp del: One_nat_def)
  then have 3: "connect ops now junk ?c2 = connect ops now junk ?c3" by (intro connect_step) simp_all
  show ?thesis
  proof (cases "1 \<le> ?v \<and> ?v \<le> OFP_EXPERIMENTAL_VERSION")
    case True
    then have "cn_version ?c3 = 1" using v by simp
    with True show ?thesis unfolding 1 2 3 by (simp add: connect_connected)
  next
    case False
    let ?c4 = "disconnect EPROTO (?c3\<lparr>cn_transport := t4\<rparr>)"
    have "conn_step ops now junk ?c3 = Some ?c4"
      using False assms(2,8) by (auto simp: conn_step_def s_send_error_def)
    then have "connect ops now junk ?c3 = connect ops now junk ?c4"
      by (rule connect_step [rotated]) (use False in \<open>simp_all add: disconnect_def\<close>)
    also have "\<dots> = Some (Some EPROTO, ?c4)" by (subst connect.simps) (simp add: disconnect_def)
    finally have "connect ops now junk c = Some (Some EPROTO, ?c4)" by (simp only: 1 2 3)
    moreover have "cn_state ?c4 = S_DISCONNECTED \<and> cn_transport ?c4 = t4" by (simp add: disconnect_def)
    ultimately have "\<exists>c'. connect ops now junk c = Some (Some EPROTO, c') \<and> cn_state c' = S_DISCONNECTED \<and> cn_transport c' = t4"
      by (intro exI [of _ ?c4] conjI) simp_all
    then show ?thesis unfolding if_not_P [OF False] .
  qed
qed

theorem handshake_witness:
  "\<exists>c'. connect mailbox (make_timeval 5 0) [] (mail_conn S_CONNECTING [[4, 0, 0, 8, 0, 0, 0, 1]]) = Some (None, c') \<and>
     cn_state c' = S_CONNECTED \<and> cn_version c' = 1 \<and> cn_timeout c' = make_timeval 20 0"
  using handshake [of "mail_conn S_CONNECTING [[4, 0, 0, 8, 0, 0, 0, 1]]" mailbox "([], [[4, 0, 0, 8, 0, 0, 0, 1]])"
      "([raw_header 0 8 (fst (get_xid 7))], [[4, 0, 0, 8, 0, 0, 0, 1]])" "[4, 0, 0, 8, 0, 0, 0, 1]"
      "([raw_header 0 8 (fst (get_xid 7))], [])" "[]" _ "make_timeval 5 0"]
  by (fastforce simp: mail_conn_def mailbox_def load8_def tv_add_def make_timeval_def)

text \<open>
  C11: a connection on which nothing is received until its deadline is probed with an echo request and gets a second
  deadline fifteen seconds later; when that passes too it is closed and ends disconnected with \<^verbatim>\<open>EPROTO\<close>.  A message that
  arrives before then brings the connection back, with a new deadline.
\<close>

theorem inactivity:
  assumes "cn_state c = S_CONNECTED" and "tv_ge now (cn_timeout c)"
    and "t_send ops (echo_request (fst (get_xid (cn_nextxid c)))) (cn_transport c) = Some (None, t1)"
    and "tv_ge later (tv_add now (make_timeval probe_interval 0))"
    and "t_recv ops t1 = Some (Inr m, t2)" and "t_close ops t1 = Some t3"
  shows "\<exists>c1. conn_run ops now junk c = Some (Wait_timer (tv_add now (make_timeval probe_interval 0)), c1) \<and>
    cn_state c1 = S_IDLE \<and>
    (\<exists>c2. conn_run ops later junk c1 = Some (Wait_nothing, c2) \<and> cn_state c2 = S_DISCONNECTED \<and> cn_error c2 = EPROTO \<and>
      cn_transport c2 = t3) \<and>
    (\<exists>c3. recv_openflow ops soon junk c1 = Some (Inr m, c3) \<and> cn_state c3 = S_CONNECTED \<and>
      cn_timeout c3 = tv_add soon (make_timeval probe_interval 0))"
proof -
  let ?t = "tv_add now (make_timeval probe_interval 0)"
  obtain xid n where x: "get_xid (cn_nextxid c) = (xid, n)" by (cases "get_xid (cn_nextxid c)")
  have "send_with_xid ops now junk echo_request c = Some (None, c\<lparr>cn_nextxid := n, cn_transport := t1\<rparr>)"
    using send_connected [of "c\<lparr>cn_nextxid := n\<rparr>" ops "echo_request xid" None t1 now junk] assms(1,3) x
    by (simp add: send_with_xid_def)
  then have r: "conn_run ops now junk c =
      Some (Wait_timer ?t, c\<lparr>cn_nextxid := n, cn_transport := t1, cn_state := S_IDLE, cn_timeout := ?t\<rparr>)"
    using assms(1,2) by (simp add: conn_run_def Let_def)
  moreover have "recv_openflow ops soon junk (c\<lparr>cn_nextxid := n, cn_transport := t1, cn_state := S_IDLE, cn_timeout := ?t\<rparr>) =
      Some (Inr m, c\<lparr>cn_nextxid := n, cn_transport := t2, cn_state := S_CONNECTED,
        cn_timeout := tv_add soon (make_timeval probe_interval 0)\<rparr>)"
    using assms(5) by (subst recv_openflow.simps) (simp add: connect_connected Let_def)
  ultimately show ?thesis
    using assms(4,6) by (simp add: conn_run_def disconnect_def)
qed

theorem inactivity_witness:
  "\<exists>c1 c2 c3. conn_run mailbox (make_timeval 15 0) [] (mail_conn S_CONNECTED [[1, 3, 0, 8, 0, 0, 0, 1]]) =
       Some (Wait_timer (make_timeval 30 0), c1) \<and>
     conn_run mailbox (make_timeval 30 0) [] c1 = Some (Wait_nothing, c2) \<and> cn_error c2 = EPROTO \<and>
     recv_openflow mailbox (make_timeval 29 0) [] c1 = Some (Inr [1, 3, 0, 8, 0, 0, 0, 1], c3) \<and>
     cn_timeout c3 = make_timeval 44 0"
  using inactivity [of "mail_conn S_CONNECTED [[1, 3, 0, 8, 0, 0, 0, 1]]" "make_timeval 15 0" mailbox
      "([echo_request (fst (get_xid 7))], [[1, 3, 0, 8, 0, 0, 0, 1]])" "make_timeval 30 0"
      "[1, 3, 0, 8, 0, 0, 0, 1]" "([echo_request (fst (get_xid 7))], [])" "([echo_request (fst (get_xid 7))], [])" "[]"
      "make_timeval 29 0"]
  by (fastforce simp: mail_conn_def mailbox_def tv_add_def make_timeval_def tv_ge_def timeval_compare_def)

text \<open>
  C12: as long as every attempt fails, the run after the attempt number \<open>n + 1\<close> waits \<open>2 ^ n\<close> seconds before the next
  one, but never more than a minute.  An error of an established connection starts such a wait at once, and a message that
  is received starts the sequence anew.
\<close>

theorem backoff_doubles:
  assumes "rl_status r = CONN_SLEEPING" and "rl_backoff r = 0" and "\<And>f. attempt_fails ops f"
    and "i_recv ops c = Some (Inr b, c1)" and "i_recv ops c' = Some (Inl e, c2)" and "e \<noteq> EAGAIN"
  shows "(\<exists>r'. rl_runs ops (\<lambda>k. now k) (Suc (Suc (2 * n))) r = Some r' \<and> rl_status r' = CONN_WAKING \<and>
      rl_waits r' = Sleep_until (tv_add (now (Suc (2 * n))) (make_timeval (min 60 (2 ^ n)) 0))) \<and>
    (\<exists>r'. rl_recv ops t (r\<lparr>rl_conn := Some c, rl_backoff := k, rl_status := CONN_CONNECTED\<rparr>) = Some (Inr b, r') \<and>
      rl_backoff r' = 0 \<and> rl_status r' = CONN_CONNECTED) \<and>
    (\<exists>r'. rl_recv ops t (r\<lparr>rl_conn := Some c', rl_backoff := k, rl_status := CONN_CONNECTED\<rparr>) = Some (Inl EAGAIN, r') \<and>
      rl_waits r' = Sleep_until (tv_add t (make_timeval (min 60 (max 1 (k * 2))) 0)) \<and> rl_conn r' = None)"
proof -
  have "min 60 (max 1 (k * 2)) \<noteq> (0 :: int)" by simp
  then have "\<exists>r'. rl_recv ops t (r\<lparr>rl_conn := Some c', rl_backoff := k, rl_status := CONN_CONNECTED\<rparr>) = Some (Inl EAGAIN, r') \<and>
      rl_waits r' = Sleep_until (tv_add t (make_timeval (min 60 (max 1 (k * 2))) 0)) \<and> rl_conn r' = None"
    using assms(5,6) by (simp add: rl_recv_def rl_run_def reconnect_def)
  moreover have "\<exists>r'. rl_recv ops t (r\<lparr>rl_conn := Some c, rl_backoff := k, rl_status := CONN_CONNECTED\<rparr>) = Some (Inr b, r') \<and>
      rl_backoff r' = 0 \<and> rl_status r' = CONN_CONNECTED"
    using assms(4) by (simp add: rl_recv_def)
  ultimately show ?thesis using failing_runs [OF assms(1-3), of now n] by blast
qed

theorem backoff_doubles_witness:
  "\<exists>r'. rl_runs broken (\<lambda>k. make_timeval (int k) 0) 14
       \<lparr>rl_factory = (), rl_conn = None, rl_backoff = 0, rl_status = CONN_SLEEPING, rl_waits = Fall_through\<rparr> = Some r' \<and>
     rl_waits r' = Sleep_until (make_timeval 73 0)"
proof -
  have "attempt_fails broken f" for f by (simp add: broken_def attempt_fails_def)
  moreover have "i_recv broken True = Some (Inr [], True)" "i_recv broken False = Some (Inl EPROTO, False)"
    by (simp_all add: broken_def)
  ultimately have "\<exists>r'. rl_runs broken (\<lambda>k. make_timeval (int k) 0) (Suc (Suc (2 * 6)))
       \<lparr>rl_factory = (), rl_conn = None, rl_backoff = 0, rl_status = CONN_SLEEPING, rl_waits = Fall_through\<rparr> = Some r' \<and>
     rl_waits r' = Sleep_until (tv_add (make_timeval (int (Suc (2 * 6))) 0) (make_timeval (min 60 (2 ^ 6)) 0))"
    using backoff_doubles [of "\<lparr>rl_factory = (), rl_conn = None, rl_backoff = 0, rl_status = CONN_SLEEPING, rl_waits = Fall_through\<rparr>"
      broken True "[]" True False EPROTO False "\<lambda>k. make_timeval (int k) 0" 6]
    by (simp del: rl_runs.simps) blast
  then show ?thesis by (simp add: tv_add_def make_timeval_def del: rl_runs.simps)
qed

text \<open>
  C13: a reliable connection repeats the handshake over the inner connection that has finished it: it sends a second
  hello, and the first message of the switch that is not a hello ends it with \<^verbatim>\<open>EPROTO\<close>.
\<close>

theorem reliable_handshake_fails:
  assumes "cn_state c = S_CONNECTED"
    and "t_send ops (raw_header 0 8 (fst (get_xid (cn_nextxid b)))) (cn_transport c) = Some (None, t1)"
    and "t_recv ops t1 = Some (Inr m, t2)" and "8 \<le> length m" and "load8 1 m \<noteq> 0"
    and "cn_state b = S_CONNECTING" and "rl_status (cn_transport b) = CONN_CONNECTED" and "rl_conn (cn_transport b) = Some c"
  shows "\<exists>b'. connect (reliable_transport (conn_ops factory ops now junk) now) now junk b = Some (Some EPROTO, b') \<and>
    cn_state b' = S_DISCONNECTED"
proof -
  let ?rt = "reliable_transport (conn_ops factory ops now junk) now"
  let ?n = "snd (get_xid (cn_nextxid b))" and ?m = "raw_header 0 8 (fst (get_xid (cn_nextxid b)))"
  define r1 where "r1 = (cn_transport b)\<lparr>rl_conn := Some (c\<lparr>cn_transport := t1\<rparr>)\<rparr>"
  have "send_openflow ops now junk ?m c = Some (None, c\<lparr>cn_transport := t1\<rparr>)" using assms(1,2) by (intro send_connected) simp_all
  then have snd: "t_send ?rt ?m (cn_transport b) = Some (None, r1)"
    using assms(7,8) by (simp add: reliable_transport_def rl_send_def conn_ops_def r1_def)
  have "\<exists>c2. recv_openflow ops now junk (c\<lparr>cn_transport := t1\<rparr>) = Some (Inr m, c2)"
    using assms(1,3) by (subst recv_openflow.simps) (simp add: connect_connected)
  then obtain r2 where rcv: "t_recv ?rt r1 = Some (Inr m, r2)"
    using assms(7) by (auto simp: reliable_transport_def rl_recv_def conn_ops_def r1_def)
  have conn: "t_connect ?rt (cn_transport b) = (None, cn_transport b)" by (simp add: reliable_transport_def)
  have "connect ?rt now junk b = connect ?rt now junk (b\<lparr>cn_transport := r1, cn_nextxid := ?n, cn_state := S_RECV_HELLO\<rparr>)"
    using assms(6) conn snd
    by (simp add: connect_pending [of b] connect_pending [of "b\<lparr>cn_state := S_SEND_HELLO\<rparr>"] conn_step_def s_connecting_def
        s_send_hello_def Let_def split_beta)
  also have "\<dots> = connect ?rt now junk (disconnect EPROTO (b\<lparr>cn_nextxid := ?n, cn_transport := r2, cn_state := S_RECV_HELLO\<rparr>))"
    using rcv assms(4,5)
    by (simp add: connect_pending [of "b\<lparr>cn_transport := r1, cn_nextxid := ?n, cn_state := S_RECV_HELLO\<rparr>"] conn_step_def
        s_recv_hello_def Let_def disconnect_def)
  also have "\<dots> = Some (Some EPROTO, disconnect EPROTO (b\<lparr>cn_nextxid := ?n, cn_transport := r2, cn_state := S_RECV_HELLO\<rparr>))"
    by (subst connect.simps) (simp add: disconnect_def)
  finally show ?thesis by (simp add: disconnect_def)
qed

theorem reliable_handshake_fails_witness:
  "\<exists>r. new_reliable (conn_ops (\<lambda>f. (None, Some (mail_conn S_CONNECTING [[1, 0, 0, 8, 0, 0, 0, 1], [1, 2, 0, 8, 0, 0, 0, 2]]), f))
       mailbox (make_timeval 5 0) []) (make_timeval 5 0) () = Some r \<and>
     (\<exists>b'. connect (reliable_transport (conn_ops (\<lambda>f. (None, Some (mail_conn S_CONNECTING [[1, 0, 0, 8, 0, 0, 0, 1], [1, 2, 0, 8, 0, 0, 0, 2]]), f))
       mailbox (make_timeval 5 0) []) (make_timeval 5 0)) (make_timeval 5 0) []
         \<lparr>cn_state = S_CONNECTING, cn_error = 0, cn_version = 0, cn_min_version = 1, cn_timeout = make_timeval 0 0, cn_nextxid = 8,
          cn_transport = r\<rparr> = Some (Some EPROTO, b') \<and> cn_state b' = S_DISCONNECTED)"
proof -
  let ?in = "mail_conn S_CONNECTING [[1, 0, 0, 8, 0, 0, 0, 1], [1, 2, 0, 8, 0, 0, 0, 2]]"
  let ?f = "\<lambda>f. (None, Some ?in, f) :: errno option \<times> (bytes list \<times> bytes list) connection option \<times> unit"
  let ?now = "make_timeval 5 0"
  let ?out = "[raw_header 0 8 (fst (get_xid 7))]"
  define c where "c = ?in\<lparr>cn_state := S_CONNECTED, cn_version := 1, cn_timeout := tv_add ?now (make_timeval 15 0),
    cn_nextxid := snd (get_xid 7), cn_transport := (?out, [[1, 2, 0, 8, 0, 0, 0, 2 :: 8 word]])\<rparr>"
  define r where "r = \<lparr>rl_factory = (), rl_conn = Some c, rl_backoff = 0, rl_status = CONN_CONNECTED, rl_waits = Rest\<rparr>"
  have "connect mailbox ?now [] ?in = Some (None, c)"
    by (simp add: connect_pending connect_connected conn_step_def mail_conn_def s_connecting_def s_send_hello_def s_recv_hello_def
        mailbox_def split_beta Let_def c_def load8_def)
  then have "new_reliable (conn_ops ?f mailbox ?now []) ?now () = Some r"
    by (simp add: new_reliable_def rl_run_def rl_waking_def rl_connecting_def conn_ops_def r_def)
  moreover have "\<exists>b'. connect (reliable_transport (conn_ops ?f mailbox ?now []) ?now) ?now []
      \<lparr>cn_state = S_CONNECTING, cn_error = 0, cn_version = 0, cn_min_version = 1, cn_timeout = make_timeval 0 0, cn_nextxid = 8,
        cn_transport = r\<rparr> = Some (Some EPROTO, b') \<and> cn_state b' = S_DISCONNECTED"
    by (rule reliable_handshake_fails [of c mailbox _ "(?out @ [raw_header 0 8 (fst (get_xid 8))], [[1, 2, 0, 8, 0, 0, 0, 2]])"
        "[1, 2, 0, 8, 0, 0, 0, 2]" "(?out @ [raw_header 0 8 (fst (get_xid 8))], [])"])
      (simp_all add: c_def r_def mail_conn_def mailbox_def load8_def)
  ultimately show ?thesis by blast
qed



end
