(* ===== verification/Nox_Switch.thy ===== *)
theory Nox_Switch
  imports Nox_Of_Event Nox_Connection
begin

text \<open>
  The two forwarding applications, \<^verbatim>\<open>src/src/nox/coreapps/hub/hub.cc\<close> and \<^verbatim>\<open>src/src/nox/coreapps/switch/switch.cc\<close>.  A
  handler returns the commands that it gives to the network, in order.  The memory of a flow-mod message is allocated
  without being cleared; \<open>junk\<close> is what it held, and the members that the code does not set keep it.
\<close>

section \<open>Commands\<close>

datatype command =
    Openflow_command datapathid bytes
  | Packet_command datapathid bytes uint16 uint16
  | Buffer_command datapathid uint32 uint16 uint16

abbreviation OFPP_FLOOD :: uint16 where "OFPP_FLOOD \<equiv> 0xfffb"
abbreviation OFP_DEFAULT_PRIORITY :: uint16 where "OFP_DEFAULT_PRIORITY \<equiv> 0x8000"
abbreviation LLDP :: uint16 where "LLDP \<equiv> htons 0x88cc"

definition ofd_flow_mod_flags :: uint16 where
  "ofd_flow_mod_flags = 0 + 1"

section \<open>The hub\<close>

definition hub_flow_mod :: "bytes \<Rightarrow> flow \<Rightarrow> uint32 \<Rightarrow> bytes" where
  "hub_flow_mod junk flow buffer_id =
     [1, 14] @ store16 (htons 80) @ take 4 (drop 4 junk) @
     store32 (htonl 0) @ store16 (htons (fl_in_port flow)) @ take 6 (fl_dl_src flow) @ take 6 (fl_dl_dst flow) @
     store16 (fl_dl_vlan flow) @ [fl_dl_vlan_pcp flow] @ take 1 (drop 29 junk) @ store16 (fl_dl_type flow) @
     take 1 (drop 32 junk) @ [fl_nw_proto flow] @ take 2 (drop 34 junk) @ store32 (fl_nw_src flow) @ store32 (fl_nw_dst flow) @
     store16 (fl_tp_src flow) @ store16 (fl_tp_dst flow) @
     store64 0 @ store16 (htons 0) @ store16 (htons 5) @ store16 (htons 5) @ store16 (htons OFP_DEFAULT_PRIORITY) @
     store32 (htonl buffer_id) @ take 2 (drop 68 junk) @ store16 (htons 0) @
     store16 (htons 0) @ store16 (htons 8) @ store16 (htons OFPP_FLOOD) @ store16 (htons 0)"

definition hub_handler :: "bytes \<Rightarrow> packet_in_event \<Rightarrow> command list" where
  "hub_handler junk pi =
     (let flow = Flow_of_packet (pi_in_port pi) (pi_buf pi) 0 in
      if fl_dl_type flow = LLDP then []
      else Openflow_command (pi_datapath_id pi) (hub_flow_mod junk flow (pi_buffer_id pi)) #
        (if pi_buffer_id pi = - 1 \<and> pi_total_len pi = length (pi_buf pi)
         then [Packet_command (pi_datapath_id pi) (pi_buf pi) OFPP_FLOOD (pi_in_port pi)] else []))"

section \<open>The learning switch\<close>

text \<open>\<open>sources\<close> is the hash set of \<^verbatim>\<open>Mac_source\<close>, as a map from its key to the port.\<close>

record learning_switch =
  sources :: "datapathid \<times> ethernetaddr \<Rightarrow> int option"
  setup_flows :: bool

definition configure :: "string list \<Rightarrow> learning_switch" where
  "configure args =
     \<lparr>sources = (\<lambda>_. None), setup_flows = foldl (\<lambda>b arg. if arg = ''noflow'' then False else b) True args\<rparr>"

definition switch_flow_mod :: "bytes \<Rightarrow> flow \<Rightarrow> uint32 \<Rightarrow> int \<Rightarrow> bytes" where
  "switch_flow_mod junk flow buffer_id out_port =
     [1, 14] @ store16 (htons 80) @ take 4 (drop 4 junk) @
     store32 (htonl 0) @ store16 (htons (fl_in_port flow)) @ take 6 (fl_dl_src flow) @ take 6 (fl_dl_dst flow) @
     store16 (fl_dl_vlan flow) @ [fl_dl_vlan_pcp flow] @ take 1 (drop 29 junk) @ store16 (fl_dl_type flow) @
     [fl_nw_tos flow] @ [fl_nw_proto flow] @ take 2 (drop 34 junk) @ store32 (fl_nw_src flow) @ store32 (fl_nw_dst flow) @
     store16 (fl_tp_src flow) @ store16 (fl_tp_dst flow) @
     store64 0 @ store16 (htons 0) @ store16 (htons 5) @ store16 (htons 0) @ store16 (htons OFP_DEFAULT_PRIORITY) @
     store32 (htonl buffer_id) @ take 2 (drop 68 junk) @ store16 (htons ofd_flow_mod_flags) @
     store16 (htons 0) @ store16 (htons 8) @ store16 (htons (word_of_int out_port)) @ store16 (htons 0)"

definition learn :: "packet_in_event \<Rightarrow> flow \<Rightarrow> learning_switch \<Rightarrow> learning_switch" where
  "learn pi flow sw =
     (if eth_is_multicast (fl_dl_src flow) then sw
      else sw\<lparr>sources := (sources sw)((pi_datapath_id pi, fl_dl_src flow) \<mapsto> uint (pi_in_port pi))\<rparr>)"

definition destination :: "packet_in_event \<Rightarrow> flow \<Rightarrow> learning_switch \<Rightarrow> int" where
  "destination pi flow sw =
     (if eth_is_multicast (fl_dl_dst flow) then - 1
      else case sources sw (pi_datapath_id pi, fl_dl_dst flow) of None \<Rightarrow> - 1 | Some port \<Rightarrow> port)"

definition switch_handle :: "bytes \<Rightarrow> packet_in_event \<Rightarrow> learning_switch \<Rightarrow> command list \<times> learning_switch" where
  "switch_handle junk pi sw =
     (let flow = Flow_of_packet (pi_in_port pi) (pi_buf pi) 0; dp = pi_datapath_id pi in
      if fl_dl_type flow = LLDP then ([], sw)
      else
        let sw1 = learn pi flow sw; out_port = destination pi flow sw1;
            port = (if out_port = - 1 then OFPP_FLOOD else word_of_int out_port);
            set_up = (if setup_flows sw \<and> out_port \<noteq> - 1
              then [Openflow_command dp (switch_flow_mod junk flow (pi_buffer_id pi) out_port)] else []);
            send = (if \<not> setup_flows sw \<or> out_port = - 1 \<or> pi_buffer_id pi = - 1
              then if pi_buffer_id pi = - 1
                then if pi_total_len pi \<noteq> length (pi_buf pi) then [] else [Packet_command dp (pi_buf pi) port (pi_in_port pi)]
                else [Buffer_command dp (pi_buffer_id pi) port (pi_in_port pi)]
              else [])
        in (set_up @ send, sw1))"

section \<open>Flows of packets\<close>

abbreviation packet_flow :: "packet_in_event \<Rightarrow> flow" where
  "packet_flow pi \<equiv> Flow_of_packet (pi_in_port pi) (pi_buf pi) 0"

lemma switch_flow_mod_decoded:
  assumes "length junk = 80" and "length (fl_dl_src flow) = 6" and "length (fl_dl_dst flow) = 6"
  shows "length (switch_flow_mod junk flow b p) = 80"
    and "Flow_of_match (drop 8 (switch_flow_mod junk flow b p)) cookie invalid =
      Flow_copy (flow\<lparr>fl_in_port := htons (fl_in_port flow)\<rparr>) cookie invalid"
    and "load32 8 (switch_flow_mod junk flow b p) = 0"
    and "drop 72 (switch_flow_mod junk flow b p) = output_action (word_of_int p)"
    and "ntohl (load32 64 (switch_flow_mod junk flow b p)) = b"
proof -
  let ?m = "switch_flow_mod junk flow b p"
  show l: "length ?m = 80" using assms by (simp add: switch_flow_mod_def)
  show "Flow_of_match (drop 8 ?m) cookie invalid = Flow_copy (flow\<lparr>fl_in_port := htons (fl_in_port flow)\<rparr>) cookie invalid"
    using assms by (cases flow) (simp add: switch_flow_mod_def Flow_of_match_def Flow_copy_def byteorder)
  show "load32 8 ?m = 0" "ntohl (load32 64 ?m) = b" using assms by (simp_all add: switch_flow_mod_def byteorder)
  show "drop 72 ?m = output_action (word_of_int p)" using assms by (simp add: switch_flow_mod_def output_action_def)
qed

text \<open>
  The hub leaves the type of service of the match as it found the memory, so the flow entry it sets up need not match the
  packet it was made for.
\<close>

lemma hub_flow_mod_tos:
  assumes "length junk = 80" and "length (fl_dl_src flow) = 6" and "length (fl_dl_dst flow) = 6"
  shows "Flow_of_match (drop 8 (hub_flow_mod junk flow b)) cookie invalid =
    Flow_copy (flow\<lparr>fl_in_port := htons (fl_in_port flow), fl_nw_tos := junk ! 32\<rparr>) cookie invalid"
proof -
  have "take 1 (drop 32 junk) = [junk ! 32]" using assms(1) by (simp add: take_Suc_conv_app_nth hd_drop_conv_nth take_Suc)
  then show ?thesis
    using assms by (cases flow) (simp add: hub_flow_mod_def Flow_of_match_def Flow_copy_def byteorder)
qed

section \<open>What the switch knows\<close>

text \<open>The packets of a sequence that tell where a host is.\<close>

definition seen_from :: "datapathid \<Rightarrow> ethernetaddr \<Rightarrow> packet_in_event list \<Rightarrow> packet_in_event list" where
  "seen_from dp mac ps =
     filter (\<lambda>pi. pi_datapath_id pi = dp \<and> fl_dl_src (packet_flow pi) = mac \<and> fl_dl_type (packet_flow pi) \<noteq> LLDP) ps"

definition last_port :: "datapathid \<Rightarrow> ethernetaddr \<Rightarrow> packet_in_event list \<Rightarrow> int option" where
  "last_port dp mac ps =
     (if eth_is_multicast mac \<or> seen_from dp mac ps = [] then None else Some (uint (pi_in_port (last (seen_from dp mac ps)))))"

definition after_packets :: "bytes \<Rightarrow> string list \<Rightarrow> packet_in_event list \<Rightarrow> learning_switch" where
  "after_packets junk args ps = foldl (\<lambda>sw pi. snd (switch_handle junk pi sw)) (configure args) ps"

lemma switch_handle_state:
  "snd (switch_handle junk pi sw) = (if fl_dl_type (packet_flow pi) = LLDP then sw else learn pi (packet_flow pi) sw)"
  by (simp add: switch_handle_def Let_def)

lemma last_port_snoc:
  "last_port dp mac (ps @ [pi]) =
     (if pi_datapath_id pi = dp \<and> fl_dl_src (packet_flow pi) = mac \<and> fl_dl_type (packet_flow pi) \<noteq> LLDP \<and> \<not> eth_is_multicast mac
      then Some (uint (pi_in_port pi)) else last_port dp mac ps)"
  by (auto simp: last_port_def seen_from_def)

lemma after_packets_sources: "sources (after_packets junk args ps) (dp, mac) = last_port dp mac ps"
proof (induction ps rule: rev_induct)
  case Nil
  show ?case by (simp add: after_packets_def configure_def last_port_def seen_from_def)
next
  case (snoc pi ps)
  then show ?case by (auto simp: after_packets_def switch_handle_state learn_def last_port_snoc)
qed

lemma after_packets_setup: "setup_flows (after_packets junk args ps) \<longleftrightarrow> ''noflow'' \<notin> set args"
proof -
  have "foldl (\<lambda>b arg. if arg = ''noflow'' then False else b) True xs \<longleftrightarrow> ''noflow'' \<notin> set xs" for xs
    by (induction xs rule: rev_induct) auto
  moreover have "setup_flows (after_packets junk args ps) = setup_flows (configure args)"
    by (induction ps rule: rev_induct) (simp_all add: after_packets_def switch_handle_state learn_def)
  ultimately show ?thesis by (simp add: configure_def)
qed

section \<open>Properties\<close>

text \<open>
  C23: the switch learns from every packet.  A packet for a host that was seen before, on whatever port it was seen last, sets
  up a flow that matches exactly the header fields of the packet and sends it to that port and nowhere else, and a packet
  that the datapath did not buffer is sent to the same port.  A packet for another host is flooded without setting up a
  flow.  A packet that is neither buffered nor complete is not sent.
\<close>

theorem switch_forwards:
  fixes ps :: "packet_in_event list" and pi :: packet_in_event
  defines "to \<equiv> last_port (pi_datapath_id pi) (fl_dl_dst (packet_flow pi)) (ps @ [pi])"
  assumes "length junk = 80" and "fl_dl_type (packet_flow pi) \<noteq> LLDP" and "''noflow'' \<notin> set args"
  shows "case to of
      None \<Rightarrow> fst (switch_handle junk pi (after_packets junk args ps)) =
        (if pi_buffer_id pi \<noteq> - 1 then [Buffer_command (pi_datapath_id pi) (pi_buffer_id pi) OFPP_FLOOD (pi_in_port pi)]
         else if pi_total_len pi = length (pi_buf pi)
         then [Packet_command (pi_datapath_id pi) (pi_buf pi) OFPP_FLOOD (pi_in_port pi)] else [])
    | Some port \<Rightarrow> \<exists>m. fst (switch_handle junk pi (after_packets junk args ps)) = Openflow_command (pi_datapath_id pi) m #
        (if pi_buffer_id pi = - 1 \<and> pi_total_len pi = length (pi_buf pi)
         then [Packet_command (pi_datapath_id pi) (pi_buf pi) (word_of_int port) (pi_in_port pi)] else []) \<and>
        load32 8 m = 0 \<and> Flow_of_match (drop 8 m) 0 (fl_invalid (packet_flow pi)) =
          Flow_copy ((packet_flow pi)\<lparr>fl_in_port := htons (fl_in_port (packet_flow pi))\<rparr>) 0 (fl_invalid (packet_flow pi)) \<and>
        drop 72 m = output_action (word_of_int port) \<and> ntohl (load32 64 m) = pi_buffer_id pi"
proof -
  let ?f = "packet_flow pi" and ?sw = "after_packets junk args ps"
  have wf: "length (fl_dl_src ?f) = 6" "length (fl_dl_dst ?f) = 6"
    using wf_eth_Flow_of_packet [of "pi_in_port pi" "pi_buf pi" 0] by (simp_all add: wf_flow_def wf_eth_def ethernetaddr_LEN_def)
  have "learn pi ?f ?sw = after_packets junk args (ps @ [pi])"
    using assms(3) by (simp add: after_packets_def switch_handle_state)
  then have d: "destination pi ?f (learn pi ?f ?sw) = (case to of None \<Rightarrow> - 1 | Some port \<Rightarrow> port)"
    by (simp add: destination_def after_packets_sources to_def) (simp add: last_port_def)
  have "0 \<le> port" if "to = Some port" for port
    using that by (auto simp: to_def last_port_def split: if_splits)
  then have "port \<noteq> - 1" if "to = Some port" for port using that by fastforce
  then show ?thesis
    using assms(3,4) d switch_flow_mod_decoded [OF assms(2) wf]
    by (auto simp: switch_handle_def Let_def after_packets_setup split: option.split)
qed

definition example_packet :: "ethernetaddr \<Rightarrow> ethernetaddr \<Rightarrow> uint16 \<Rightarrow> packet_in_event" where
  "example_packet dst src port = \<lparr>pi_datapath_id = 1, pi_in_port = port, pi_total_len = 14, pi_buffer_id = 7, pi_reason = 0,
     pi_flow = Flow_empty, pi_buf = dst @ src @ [0x12, 0x34]\<rparr>"

theorem switch_forwards_witness:
  "\<exists>m. fst (switch_handle (replicate 80 0) (example_packet [2, 0, 0, 0, 0, 1] [2, 0, 0, 0, 0, 2] 6)
       (after_packets (replicate 80 0) [] [example_packet [2, 0, 0, 0, 0, 9] [2, 0, 0, 0, 0, 1] 5])) = [Openflow_command 1 m] \<and>
     drop 72 m = output_action 5"
proof -
  let ?p = "example_packet [2, 0, 0, 0, 0, 1] [2, 0, 0, 0, 0, 2] 6" and ?q = "example_packet [2, 0, 0, 0, 0, 9] [2, 0, 0, 0, 0, 1] 5"
  have "fl_dl_type (packet_flow ?p) \<noteq> LLDP" by code_simp
  moreover have "last_port (pi_datapath_id ?p) (fl_dl_dst (packet_flow ?p)) ([?q] @ [?p]) = Some 5" by code_simp
  ultimately show ?thesis
    using switch_forwards [of "replicate 80 0" ?p "[]" "[?q]"] by (auto simp: example_packet_def)
qed

end
