(* ===== verification/Nox_Timer.thy ===== *)
theory Nox_Timer
  imports Nox_Timeval "HOL-Library.Sublist"
begin

text \<open>
  The timer dispatcher, \<^verbatim>\<open>src/src/lib/timer-dispatcher.cc\<close>.  Timers are objects on a heap, and the queues hold their
  addresses: \<open>td_timers\<close> is the ordered set of the active timers, \<open>td_applicants\<close> and \<open>td_all\<close> are hash sets.  The address
  of a new timer is the argument \<open>a\<close> of \<open>post\<close>; an address may be used again once its timer was deleted.  \<open>td_now\<close> is the
  time that \<^verbatim>\<open>do_gettimeofday\<close> has cached and \<open>td_signals\<close> counts the signals to the condition \<^verbatim>\<open>new_timers\<close>.
\<close>

section \<open>Timers\<close>

type_synonym address = nat

record 'c timer_impl =
  ti_func :: 'c
  ti_time :: timeval
  ti_admitted :: bool
  ti_generation :: uint32

definition compare_timer :: "'c timer_impl \<Rightarrow> 'c timer_impl \<Rightarrow> bool" where
  "compare_timer lhs rhs =
     (if tv_neq (ti_time lhs) (ti_time rhs) then tv_less (ti_time lhs) (ti_time rhs)
      else ti_generation lhs < ti_generation rhs)"

record 'c timer_dispatcher =
  td_heap :: "address \<Rightarrow> 'c timer_impl option"
  td_timers :: "address list"
  td_applicants :: "address list"
  td_all :: "address list"
  td_signals :: nat
  td_serial :: uint32
  td_generation :: uint32
  td_now :: timeval

text \<open>The object behind a pointer.\<close>

definition impl :: "'c timer_dispatcher \<Rightarrow> address \<Rightarrow> 'c timer_impl" where
  "impl d a = the (td_heap d a)"

text \<open>Insertion into a \<^verbatim>\<open>std::set\<close> with the order \<open>lt\<close>, and removal of the element that is equivalent to \<open>a\<close>.\<close>

fun set_insert :: "('a \<Rightarrow> 'a \<Rightarrow> bool) \<Rightarrow> 'a \<Rightarrow> 'a list \<Rightarrow> 'a list" where
  "set_insert lt a [] = [a]"
| "set_insert lt a (x # xs) = (if lt a x then a # x # xs else if lt x a then x # set_insert lt a xs else x # xs)"

definition set_erase :: "('a \<Rightarrow> 'a \<Rightarrow> bool) \<Rightarrow> 'a \<Rightarrow> 'a list \<Rightarrow> 'a list" where
  "set_erase lt a xs = filter (\<lambda>x. lt a x \<or> lt x a) xs"

definition timer_lt :: "'c timer_dispatcher \<Rightarrow> address \<Rightarrow> address \<Rightarrow> bool" where
  "timer_lt d a b = compare_timer (impl d a) (impl d b)"

definition new_timer_dispatcher :: "timeval \<Rightarrow> 'c timer_dispatcher" where
  "new_timer_dispatcher now = \<lparr>td_heap = (\<lambda>_. None), td_timers = [], td_applicants = [], td_all = [], td_signals = 0,
     td_serial = 0, td_generation = 0, td_now = now\<rparr>"

text \<open>\<open>Timer\<close> is the handle of a timer; it has no dispatcher when it was default-constructed or cancelled.\<close>

record timer =
  tm_dispatcher :: bool
  tm_impl :: address
  tm_generation :: uint32

definition no_timer :: timer where
  "no_timer = \<lparr>tm_dispatcher = False, tm_impl = 0, tm_generation = 0\<rparr>"

definition post :: "address \<Rightarrow> 'c \<Rightarrow> timeval \<Rightarrow> 'c timer_dispatcher \<Rightarrow> timer \<times> 'c timer_dispatcher" where
  "post a callback duration d =
     (let g = td_generation d + 1;
          t = \<lparr>ti_func = callback, ti_time = tv_add (td_now d) duration, ti_admitted = False, ti_generation = g\<rparr>
      in (\<lparr>tm_dispatcher = True, tm_impl = a, tm_generation = g\<rparr>,
          d\<lparr>td_heap := (td_heap d)(a := Some t), td_generation := g, td_applicants := List.insert a (td_applicants d),
            td_all := List.insert a (td_all d), td_signals := td_signals d + 1\<rparr>))"

definition post_now :: "address \<Rightarrow> 'c \<Rightarrow> 'c timer_dispatcher \<Rightarrow> timer \<times> 'c timer_dispatcher" where
  "post_now a callback d = post a callback (make_timeval 0 0) d"

definition check_validity :: "address \<Rightarrow> uint32 \<Rightarrow> 'c timer_dispatcher \<Rightarrow> bool" where
  "check_validity a generation d \<longleftrightarrow> a \<in> set (td_all d) \<and> ti_generation (impl d a) = generation"

definition impl_cancel :: "address \<Rightarrow> 'c timer_dispatcher \<Rightarrow> 'c timer_dispatcher" where
  "impl_cancel a d =
     (let d1 = (if ti_admitted (impl d a)
        then d\<lparr>td_timers := set_erase (timer_lt d) a (td_timers d),
               td_heap := (td_heap d)(a := Some ((impl d a)\<lparr>ti_admitted := False\<rparr>))\<rparr>
        else d\<lparr>td_applicants := removeAll a (td_applicants d)\<rparr>)
      in d1\<lparr>td_all := removeAll a (td_all d1)\<rparr>)"

definition set_timeout :: "address \<Rightarrow> timeval \<Rightarrow> 'c timer_dispatcher \<Rightarrow> 'c timer_dispatcher" where
  "set_timeout a when d =
     (let d1 = impl_cancel a d in
      d1\<lparr>td_heap := (td_heap d1)(a := Some ((impl d1 a)\<lparr>ti_time := when\<rparr>)),
         td_applicants := List.insert a (td_applicants d1), td_all := List.insert a (td_all d1)\<rparr>)"

definition impl_delay :: "address \<Rightarrow> bool \<Rightarrow> int \<Rightarrow> int \<Rightarrow> 'c timer_dispatcher \<Rightarrow> 'c timer_dispatcher" where
  "impl_delay a neg sec usec d =
     (let delta = \<lparr>tv_sec = sec, tv_usec = usec\<rparr>; t = ti_time (impl d a)
      in set_timeout a (if neg then tv_sub t delta else tv_add t delta) d)"

definition impl_reset :: "address \<Rightarrow> int \<Rightarrow> int \<Rightarrow> 'c timer_dispatcher \<Rightarrow> 'c timer_dispatcher" where
  "impl_reset a sec usec d = set_timeout a (tv_add (td_now d) (make_timeval sec usec)) d"

abbreviation valid_handle :: "timer \<Rightarrow> 'c timer_dispatcher \<Rightarrow> bool" where
  "valid_handle h d \<equiv> tm_dispatcher h \<and> check_validity (tm_impl h) (tm_generation h) d"

definition timer_cancel :: "timer \<Rightarrow> 'c timer_dispatcher \<Rightarrow> timer \<times> 'c timer_dispatcher" where
  "timer_cancel h d =
     (if valid_handle h d
      then let d1 = impl_cancel (tm_impl h) d
        in (h\<lparr>tm_dispatcher := False, tm_impl := 0\<rparr>, d1\<lparr>td_heap := (td_heap d1)(tm_impl h := None)\<rparr>)
      else (h, d))"

definition timer_delay :: "timer \<Rightarrow> bool \<Rightarrow> int \<Rightarrow> int \<Rightarrow> 'c timer_dispatcher \<Rightarrow> 'c timer_dispatcher" where
  "timer_delay h neg sec usec d = (if valid_handle h d then impl_delay (tm_impl h) neg sec usec d else d)"

definition timer_reset :: "timer \<Rightarrow> int \<Rightarrow> int \<Rightarrow> 'c timer_dispatcher \<Rightarrow> 'c timer_dispatcher" where
  "timer_reset h sec usec d = (if valid_handle h d then impl_reset (tm_impl h) sec usec d else d)"

definition timer_get_time :: "timer \<Rightarrow> 'c timer_dispatcher \<Rightarrow> timeval" where
  "timer_get_time h d = (if valid_handle h d then ti_time (impl d (tm_impl h)) else \<lparr>tv_sec = 0, tv_usec = 0\<rparr>)"

section \<open>Dispatch\<close>

definition admit :: "timeval \<Rightarrow> 'c timer_dispatcher \<Rightarrow> 'c timer_dispatcher" where
  "admit now d =
     (let d1 = d\<lparr>td_now := now,
        td_heap := (\<lambda>a. if a \<in> set (td_applicants d) then Some ((impl d a)\<lparr>ti_admitted := True\<rparr>) else td_heap d a)\<rparr>
      in d1\<lparr>td_timers := fold (set_insert (timer_lt d1)) (td_applicants d) (td_timers d), td_applicants := []\<rparr>)"

text \<open>
  \<open>run\<close> is the effect of a callback on the dispatcher, also when it ends with an exception.  The result of the loop is the
  list of the timers that were fired; \<open>None\<close> is a loop without end.
\<close>

partial_function (option) fire :: "('c \<Rightarrow> 'c timer_dispatcher \<Rightarrow> 'c timer_dispatcher) \<Rightarrow> timeval \<Rightarrow> uint32 \<Rightarrow>
    'c timer_dispatcher \<Rightarrow> ('c timer_impl list \<times> 'c timer_dispatcher) option" where
  "fire run now serial d =
     (case td_timers d of
        [] \<Rightarrow> Some ([], d)
      | a # rest \<Rightarrow>
          let t = impl d a in
          if tv_le now (ti_time t) then Some ([], d)
          else
            let d1 = run (ti_func t) (d\<lparr>td_timers := rest, td_all := removeAll a (td_all d)\<rparr>);
                d2 = d1\<lparr>td_heap := (td_heap d1)(a := None)\<rparr>
            in if serial \<noteq> td_serial d2 then Some ([t], d2)
               else Option.bind (fire run now serial d2) (\<lambda>(fired, d3). Some (t # fired, d3)))"

definition poll_timers :: "('c \<Rightarrow> 'c timer_dispatcher \<Rightarrow> 'c timer_dispatcher) \<Rightarrow> timeval \<Rightarrow>
    'c timer_dispatcher \<Rightarrow> ('c timer_impl list \<times> 'c timer_dispatcher) option" where
  "poll_timers run now d =
     (let d1 = admit now d; d2 = d1\<lparr>td_serial := td_serial d1 + 1\<rparr> in fire run now (td_serial d2) d2)"

text \<open>\<^verbatim>\<open>poll\<close> returns whether a timer was fired.\<close>

definition poll :: "('c \<Rightarrow> 'c timer_dispatcher \<Rightarrow> 'c timer_dispatcher) \<Rightarrow> timeval \<Rightarrow>
    'c timer_dispatcher \<Rightarrow> (bool \<times> 'c timer_dispatcher) option" where
  "poll run now d = map_option (\<lambda>(fired, d'). (fired \<noteq> [], d')) (poll_timers run now d)"

text \<open>\<^verbatim>\<open>wait\<close> sets a timer of the scheduler for the first active timer.\<close>

definition timer_wait :: "'c timer_dispatcher \<Rightarrow> timeval option" where
  "timer_wait d = (case td_timers d of [] \<Rightarrow> None | a # _ \<Rightarrow> Some (ti_time (impl d a)))"

section \<open>The order of the timers\<close>

lemma compare_timer_lex:
  "compare_timer x y \<longleftrightarrow> tv_sec (ti_time x) < tv_sec (ti_time y) \<or> tv_sec (ti_time x) = tv_sec (ti_time y) \<and>
    (tv_usec (ti_time x) < tv_usec (ti_time y) \<or> tv_usec (ti_time x) = tv_usec (ti_time y) \<and> ti_generation x < ti_generation y)"
  by (auto simp: compare_timer_def tv_neq_def tv_less_def timeval_compare_def)

text \<open>What \<^verbatim>\<open>std::set\<close> asks of its order, and what it then does.\<close>

locale ordered_set =
  fixes lt :: "'a \<Rightarrow> 'a \<Rightarrow> bool"
  assumes lt_irrefl: "\<not> lt a a" and lt_trans: "lt a b \<Longrightarrow> lt b c \<Longrightarrow> lt a c"
begin

lemma set_insert_new:
  assumes "\<forall>x\<in>set xs. lt a x \<or> lt x a"
  shows "set (set_insert lt a xs) = insert a (set xs)"
  using assms by (induction xs) auto

lemma set_insert_sorted:
  assumes "\<forall>x\<in>set xs. lt a x \<or> lt x a" and "sorted_wrt lt xs"
  shows "sorted_wrt lt (set_insert lt a xs)"
  using assms
proof (induction xs)
  case (Cons x xs)
  then have "set (set_insert lt a xs) = insert a (set xs)" by (intro set_insert_new) simp
  with Cons show ?case by (auto intro: lt_trans)
qed simp

lemma insert_all:
  assumes "sorted_wrt lt xs" and "distinct as" and "set as \<inter> set xs = {}"
    and "\<And>x y. x \<in> set as \<union> set xs \<Longrightarrow> y \<in> set as \<union> set xs \<Longrightarrow> x \<noteq> y \<Longrightarrow> lt x y \<or> lt y x"
  shows "set (fold (set_insert lt) as xs) = set as \<union> set xs \<and> sorted_wrt lt (fold (set_insert lt) as xs)"
  using assms
proof (induction as arbitrary: xs)
  case (Cons a as)
  have new: "\<forall>x\<in>set xs. lt a x \<or> lt x a" using Cons.prems(3,4) by auto
  have "set (fold (set_insert lt) as (set_insert lt a xs)) = set as \<union> set (set_insert lt a xs) \<and>
      sorted_wrt lt (fold (set_insert lt) as (set_insert lt a xs))"
    using Cons.prems set_insert_sorted [OF new] set_insert_new [OF new] by (intro Cons.IH) auto
  then show ?case using set_insert_new [OF new] by auto
qed simp

lemma sorted_distinct: "sorted_wrt lt xs \<Longrightarrow> distinct xs"
  by (induction xs) (auto simp: lt_irrefl)

end

interpretation timer_order: ordered_set "timer_lt d" for d
  by unfold_locales (auto simp: timer_lt_def compare_timer_lex)

section \<open>The invariant of the dispatcher\<close>

text \<open>
  Every timer is active or an applicant, never both, and its object is allocated and knows which; the active timers are in
  order; and no two timers have the same generation.
\<close>

definition td_inv :: "'c timer_dispatcher \<Rightarrow> bool" where
  "td_inv d \<longleftrightarrow> distinct (td_applicants d) \<and> distinct (td_all d) \<and> set (td_timers d) \<inter> set (td_applicants d) = {} \<and>
     set (td_all d) = set (td_timers d) \<union> set (td_applicants d) \<and> sorted_wrt (timer_lt d) (td_timers d) \<and>
     (\<forall>a\<in>set (td_all d). td_heap d a \<noteq> None \<and> (ti_admitted (impl d a) \<longleftrightarrow> a \<in> set (td_timers d)) \<and>
        ti_generation (impl d a) \<le> td_generation d) \<and>
     inj_on (\<lambda>a. ti_generation (impl d a)) (set (td_all d))"

lemma td_invD:
  assumes "td_inv d"
  shows "distinct (td_applicants d)" and "distinct (td_all d)" and "set (td_timers d) \<inter> set (td_applicants d) = {}"
    and "set (td_all d) = set (td_timers d) \<union> set (td_applicants d)" and "sorted_wrt (timer_lt d) (td_timers d)"
    and "inj_on (\<lambda>a. ti_generation (impl d a)) (set (td_all d))" and "distinct (td_timers d)"
  using assms timer_order.sorted_distinct by (auto simp: td_inv_def)

lemma td_inv_timer:
  assumes "td_inv d" and "a \<in> set (td_all d)"
  shows "td_heap d a = Some (impl d a)" and "ti_admitted (impl d a) \<longleftrightarrow> a \<in> set (td_timers d)"
    and "ti_generation (impl d a) \<le> td_generation d"
  using assms by (auto simp: td_inv_def impl_def)

lemma timer_lt_total:
  assumes "td_inv d" and "a \<in> set (td_all d)" and "b \<in> set (td_all d)" and "a \<noteq> b"
  shows "timer_lt d a b \<or> timer_lt d b a"
proof -
  have "ti_generation (impl d a) \<noteq> ti_generation (impl d b)" using td_invD(6) [OF assms(1)] assms(2-4) by (auto dest: inj_onD)
  then show ?thesis by (auto simp: timer_lt_def compare_timer_lex)
qed

lemma set_erase_timer:
  assumes "td_inv d" and "a \<in> set (td_all d)"
  shows "set_erase (timer_lt d) a (td_timers d) = removeAll a (td_timers d)"
  unfolding set_erase_def removeAll_filter_not_eq
proof (rule filter_cong [OF refl])
  fix x assume "x \<in> set (td_timers d)"
  then have "x \<in> set (td_all d)" using td_invD(4) [OF assms(1)] by simp
  then show "(timer_lt d a x \<or> timer_lt d x a) = (a \<noteq> x)"
    using timer_lt_total [OF assms(1,2)] timer_order.lt_irrefl by metis
qed

lemma impl_simps [simp]:
  "impl (d\<lparr>td_timers := ts\<rparr>) = impl d" "impl (d\<lparr>td_applicants := as\<rparr>) = impl d" "impl (d\<lparr>td_all := xs\<rparr>) = impl d"
  "impl (d\<lparr>td_now := now\<rparr>) = impl d" "impl (d\<lparr>td_serial := n\<rparr>) = impl d" "impl (d\<lparr>td_signals := m\<rparr>) = impl d"
  "impl (d\<lparr>td_generation := g\<rparr>) = impl d" "impl (d\<lparr>td_heap := h\<rparr>) a = the (h a)"
  by (simp_all add: impl_def fun_eq_iff)

text \<open>In a state that keeps the invariant, cancelling takes the timer out of every queue.\<close>

lemma impl_cancel_eq:
  assumes "td_inv d" and "a \<in> set (td_all d)"
  shows "impl_cancel a d = d\<lparr>td_timers := removeAll a (td_timers d), td_applicants := removeAll a (td_applicants d),
    td_all := removeAll a (td_all d), td_heap := (td_heap d)(a := Some ((impl d a)\<lparr>ti_admitted := False\<rparr>))\<rparr>"
proof (cases "a \<in> set (td_timers d)")
  case True
  then have "a \<notin> set (td_applicants d)" using td_invD(3) [OF assms(1)] by auto
  then show ?thesis
    using True td_inv_timer(2) [OF assms] set_erase_timer [OF assms] by (simp add: impl_cancel_def Let_def)
next
  case False
  then have "\<not> ti_admitted (impl d a)" using td_inv_timer(2) [OF assms] by simp
  then have "(impl d a)\<lparr>ti_admitted := False\<rparr> = impl d a" by (cases "impl d a") simp
  then show ?thesis
    using False td_inv_timer(1,2) [OF assms] by (simp add: impl_cancel_def Let_def fun_upd_idem)
qed

lemma set_timeout_eq:
  assumes "td_inv d" and "a \<in> set (td_all d)"
  shows "set_timeout a when d = d\<lparr>td_timers := removeAll a (td_timers d), td_applicants := a # removeAll a (td_applicants d),
    td_all := a # removeAll a (td_all d),
    td_heap := (td_heap d)(a := Some ((impl d a)\<lparr>ti_admitted := False, ti_time := when\<rparr>))\<rparr>"
  by (simp add: set_timeout_def impl_cancel_eq [OF assms] Let_def List.insert_def)

lemma timer_lt_cong: "impl d' a = impl d a \<Longrightarrow> impl d' b = impl d b \<Longrightarrow> timer_lt d' a b = timer_lt d a b"
  by (simp add: timer_lt_def)

lemma td_inv_without:
  assumes "td_inv d" and "td_timers d' = removeAll a (td_timers d)" and "td_applicants d' = removeAll a (td_applicants d)"
    and "td_all d' = removeAll a (td_all d)" and "\<And>b. b \<noteq> a \<Longrightarrow> td_heap d' b = td_heap d b" and "td_generation d \<le> td_generation d'"
  shows "td_inv d'"
proof -
  have i: "impl d' b = impl d b" if "b \<noteq> a" for b using assms(5) that by (simp add: impl_def)
  have "sorted_wrt (timer_lt d) (td_timers d')"
    unfolding assms(2) removeAll_filter_not_eq using td_invD(5) [OF assms(1)] by (rule sorted_wrt_filter)
  then have "sorted_wrt (timer_lt d') (td_timers d')"
    by (rule sorted_wrt_mono_rel [rotated]) (auto simp: timer_lt_def i assms(2))
  moreover have "inj_on (\<lambda>a. ti_generation (impl d' a)) (set (td_all d'))"
    using td_invD(6) [OF assms(1)] i by (auto simp: assms(4) inj_on_def)
  moreover have "td_heap d' b \<noteq> None \<and> (ti_admitted (impl d' b) \<longleftrightarrow> b \<in> set (td_timers d')) \<and>
      ti_generation (impl d' b) \<le> td_generation d'" if "b \<in> set (td_all d')" for b
    using td_inv_timer [OF assms(1), of b] assms(5) [of b] assms(6) i [of b] that by (auto simp: assms(2,4))
  ultimately show ?thesis
    using td_invD(1-4) [OF assms(1)] unfolding td_inv_def by (auto simp: assms(2-4) distinct_removeAll)
qed

lemma td_inv_with:
  assumes "td_inv d" and "td_timers d' = td_timers d" and "td_applicants d' = a # td_applicants d" and "td_all d' = a # td_all d"
    and "\<And>b. b \<noteq> a \<Longrightarrow> td_heap d' b = td_heap d b" and "td_generation d \<le> td_generation d'" and "a \<notin> set (td_all d)"
    and "td_heap d' a = Some t" and "\<not> ti_admitted t" and "ti_generation t \<le> td_generation d'"
    and "\<And>b. b \<in> set (td_all d) \<Longrightarrow> ti_generation (impl d b) \<noteq> ti_generation t"
  shows "td_inv d'"
proof -
  have i: "impl d' b = impl d b" if "b \<noteq> a" for b using assms(5) that by (simp add: impl_def)
  have n: "a \<notin> set (td_timers d)" "a \<notin> set (td_applicants d)" using assms(7) td_invD(4) [OF assms(1)] by auto
  have "sorted_wrt (timer_lt d') (td_timers d')"
    unfolding assms(2) using td_invD(5) [OF assms(1)]
    by (rule sorted_wrt_mono_rel [rotated]) (use n i in \<open>metis timer_lt_cong\<close>)
  moreover have "impl d' a = t" using assms(8) by (simp add: impl_def)
  moreover have same: "impl d' b = impl d b" if "b \<in> set (td_all d)" for b using i assms(7) that by metis
  then have "inj_on (\<lambda>a. ti_generation (impl d' a)) (set (td_all d))"
    using td_invD(6) [OF assms(1)] by (simp add: inj_on_def)
  then have "inj_on (\<lambda>a. ti_generation (impl d' a)) (set (td_all d'))"
    using assms(7,11) same \<open>impl d' a = t\<close> by (force simp: assms(4))
  moreover have "ti_generation (impl d' b) \<le> td_generation d'" if "b \<in> set (td_all d)" for b
    using td_inv_timer(3) [OF assms(1) that] assms(6,7) i [of b] that by (metis order_trans)
  moreover have "td_heap d' b \<noteq> None \<and> (ti_admitted (impl d' b) \<longleftrightarrow> b \<in> set (td_timers d))" if "b \<in> set (td_all d)" for b
    using td_inv_timer(1,2) [OF assms(1) that] assms(5,7) i [of b] that by fastforce
  ultimately show ?thesis
    using td_invD(1-4) [OF assms(1)] assms(7-10) n by (auto simp: td_inv_def assms(2-4))
qed

section \<open>What the operations keep\<close>

text \<open>What code outside the dispatcher can do to it, as long as the generations do not wrap around.\<close>

inductive client :: "'c timer_dispatcher \<Rightarrow> 'c timer_dispatcher \<Rightarrow> bool" where
  client_post: "td_heap d a = None \<Longrightarrow> td_generation d \<noteq> - 1 \<Longrightarrow> client d (snd (post a cb duration d))"
| client_cancel: "client d (snd (timer_cancel h d))"
| client_delay: "client d (timer_delay h neg sec usec d)"
| client_reset: "client d (timer_reset h sec usec d)"

text \<open>Every timer is new, or it was there before with the same callback.\<close>

definition same_timers :: "'c timer_dispatcher \<Rightarrow> 'c timer_dispatcher \<Rightarrow> bool" where
  "same_timers d d' \<longleftrightarrow> td_generation d \<le> td_generation d' \<and>
     (\<forall>a\<in>set (td_all d'). td_generation d < ti_generation (impl d' a) \<or>
        a \<in> set (td_all d) \<and> ti_generation (impl d' a) = ti_generation (impl d a) \<and> ti_func (impl d' a) = ti_func (impl d a))"

text \<open>The active timers are as before, except that some were taken away.\<close>

definition fewer_active :: "'c timer_dispatcher \<Rightarrow> 'c timer_dispatcher \<Rightarrow> bool" where
  "fewer_active d d' \<longleftrightarrow> td_serial d' = td_serial d \<and> td_now d' = td_now d \<and> subseq (td_timers d') (td_timers d) \<and>
     (\<forall>a\<in>set (td_timers d'). impl d' a = impl d a) \<and>
     (\<forall>a. a \<notin> set (td_all d) \<and> td_heap d a \<noteq> None \<longrightarrow> a \<notin> set (td_all d') \<and> td_heap d' a = td_heap d a)"

lemma same_timers_trans:
  assumes "same_timers d1 d2" and "same_timers d2 d3"
  shows "same_timers d1 d3"
  unfolding same_timers_def
proof (intro conjI ballI)
  show "td_generation d1 \<le> td_generation d3" using assms by (auto simp: same_timers_def)
next
  fix a assume "a \<in> set (td_all d3)"
  with assms(2) consider "td_generation d2 < ti_generation (impl d3 a)"
    | "a \<in> set (td_all d2)" "ti_generation (impl d3 a) = ti_generation (impl d2 a)" "ti_func (impl d3 a) = ti_func (impl d2 a)"
    by (auto simp: same_timers_def)
  then show "td_generation d1 < ti_generation (impl d3 a) \<or>
      a \<in> set (td_all d1) \<and> ti_generation (impl d3 a) = ti_generation (impl d1 a) \<and> ti_func (impl d3 a) = ti_func (impl d1 a)"
    by cases (use assms(1) in \<open>force simp: same_timers_def\<close>)+
qed

lemma set_subseq: "subseq xs ys \<Longrightarrow> set xs \<subseteq> set ys"
  by (induction rule: list_emb.induct) auto

lemma sorted_wrt_subseq: "subseq xs ys \<Longrightarrow> sorted_wrt P ys \<Longrightarrow> sorted_wrt P xs"
  by (induction rule: list_emb.induct) (auto dest: set_subseq)

lemma fewer_active_trans:
  assumes "fewer_active d1 d2" and "fewer_active d2 d3"
  shows "fewer_active d1 d3"
proof -
  have "set (td_timers d3) \<subseteq> set (td_timers d2)" using assms(2) by (simp add: fewer_active_def set_subseq)
  then show ?thesis using assms unfolding fewer_active_def by (auto intro: subseq_order.trans)
qed

lemma subseq_removeAll: "subseq (removeAll a xs) xs"
  by (simp add: removeAll_filter_not_eq)

lemma post_step:
  assumes "td_inv d" and "td_heap d a = None" and "td_generation d \<noteq> - 1"
  shows "td_inv (snd (post a cb duration d))" and "same_timers d (snd (post a cb duration d))"
    and "fewer_active d (snd (post a cb duration d))"
proof -
  let ?d = "snd (post a cb duration d)"
  have a: "a \<notin> set (td_all d)" "a \<notin> set (td_applicants d)" "a \<notin> set (td_timers d)"
    using assms(2) td_inv_timer(1) [OF assms(1)] td_invD(4) [OF assms(1)] by auto
  have g: "td_generation d < td_generation d + 1" using unat_plus_one [OF assms(3)] by (simp add: word_less_nat_alt)
  have old: "ti_generation (impl d b) < td_generation d + 1" if "b \<in> set (td_all d)" for b
    using td_inv_timer(3) [OF assms(1) that] g by (rule order_le_less_trans)
  show "td_inv ?d"
    by (rule td_inv_with [OF assms(1), where a = a])
      (use a g old [THEN less_imp_neq] in \<open>auto simp: post_def Let_def List.insert_def dest: less_imp_le\<close>)
  show "same_timers d ?d" using a g by (auto simp: same_timers_def post_def Let_def List.insert_def impl_def)
  show "fewer_active d ?d" using a assms(2) by (auto simp: fewer_active_def post_def Let_def List.insert_def impl_def)
qed

lemma cancel_step:
  assumes "td_inv d"
  shows "td_inv (snd (timer_cancel h d))" and "same_timers d (snd (timer_cancel h d))" and "fewer_active d (snd (timer_cancel h d))"
proof -
  let ?d = "snd (timer_cancel h d)" and ?a = "tm_impl h"
  have "td_inv ?d \<and> same_timers d ?d \<and> fewer_active d ?d"
  proof (cases "valid_handle h d")
    case True
    then have a: "?a \<in> set (td_all d)" by (simp add: check_validity_def)
    have d: "?d = d\<lparr>td_timers := removeAll ?a (td_timers d), td_applicants := removeAll ?a (td_applicants d),
        td_all := removeAll ?a (td_all d), td_heap := (td_heap d)(?a := None)\<rparr>"
      using True by (simp add: timer_cancel_def Let_def impl_cancel_eq [OF assms a])
    have "td_inv ?d" by (rule td_inv_without [OF assms, where a = ?a]) (simp_all add: d)
    then show ?thesis using a by (auto simp: d same_timers_def fewer_active_def subseq_removeAll impl_def)
  qed (auto simp: timer_cancel_def assms same_timers_def fewer_active_def)
  then show "td_inv ?d" "same_timers d ?d" "fewer_active d ?d" by simp_all
qed

lemma set_timeout_step:
  assumes "td_inv d" and "a \<in> set (td_all d)"
  shows "td_inv (set_timeout a when d) \<and> same_timers d (set_timeout a when d) \<and> fewer_active d (set_timeout a when d)"
proof -
  let ?d1 = "d\<lparr>td_timers := removeAll a (td_timers d), td_applicants := removeAll a (td_applicants d), td_all := removeAll a (td_all d)\<rparr>"
  have inv: "td_inv ?d1" by (rule td_inv_without [OF assms(1), where a = a]) simp_all
  have "ti_generation (impl d b) \<noteq> ti_generation (impl d a)" if "b \<in> set (td_all d)" "b \<noteq> a" for b
    using td_invD(6) [OF assms(1)] assms(2) that by (auto dest: inj_onD)
  then have "td_inv (set_timeout a when d)"
    by (intro td_inv_with [OF inv, where a = a and t = "(impl d a)\<lparr>ti_admitted := False, ti_time := when\<rparr>"])
      (use td_inv_timer(3) [OF assms] in \<open>auto simp: set_timeout_eq [OF assms]\<close>)
  then show ?thesis
    using assms(2) by (auto simp: set_timeout_eq [OF assms] same_timers_def fewer_active_def subseq_removeAll impl_def)
qed

lemma steps_refl: "td_inv d \<Longrightarrow> td_inv d \<and> same_timers d d \<and> fewer_active d d"
  by (auto simp: same_timers_def fewer_active_def)

lemma client_step:
  assumes "client d d'" and "td_inv d"
  shows "td_inv d' \<and> same_timers d d' \<and> fewer_active d d'"
  using assms
proof cases
  case (client_post a cb duration)
  with post_step [OF assms(2)] show ?thesis by simp
next
  case (client_cancel h)
  with cancel_step [OF assms(2)] show ?thesis by simp
next
  case (client_delay h neg sec usec)
  with set_timeout_step [OF assms(2)] steps_refl [OF assms(2)] show ?thesis
    by (auto simp: timer_delay_def impl_delay_def Let_def check_validity_def)
next
  case (client_reset h sec usec)
  with set_timeout_step [OF assms(2)] steps_refl [OF assms(2)] show ?thesis
    by (auto simp: timer_reset_def impl_reset_def check_validity_def)
qed

lemma client_steps:
  assumes "client\<^sup>*\<^sup>* d d'" and "td_inv d"
  shows "td_inv d' \<and> same_timers d d' \<and> fewer_active d d'"
  using assms
proof (induction rule: rtranclp_induct)
  case base
  then show ?case by (rule steps_refl)
next
  case (step d1 d2)
  with client_step [OF step(2)] show ?case by (blast intro: same_timers_trans fewer_active_trans)
qed

lemma td_inv_serial: "td_inv (d\<lparr>td_serial := k\<rparr>) = td_inv d"
  by (simp add: td_inv_def timer_lt_def [abs_def])

section \<open>Firing timers\<close>

lemma tv_not_le: "\<not> tv_le x y \<longleftrightarrow> tv_less y x"
  by (auto simp: tv_le_def tv_less_def timeval_compare_def)

lemma timer_lt_time: "timer_lt d a b \<Longrightarrow> tv_le now (ti_time (impl d a)) \<Longrightarrow> tv_le now (ti_time (impl d b))"
  by (auto simp: timer_lt_def compare_timer_lex tv_le_def timeval_compare_def split: if_splits)

lemma admit_step:
  assumes "td_inv d"
  shows "td_inv (admit now d)" and "same_timers d (admit now d)" and "set (td_timers (admit now d)) = set (td_all d)"
    and "length (td_timers (admit now d)) = length (td_all d)" and "td_generation (admit now d) = td_generation d"
    and "\<And>a. a \<in> set (td_all d) \<Longrightarrow> impl (admit now d) a = (impl d a)\<lparr>ti_admitted := True\<rparr>"
proof -
  let ?d = "d\<lparr>td_now := now,
        td_heap := (\<lambda>a. if a \<in> set (td_applicants d) then Some ((impl d a)\<lparr>ti_admitted := True\<rparr>) else td_heap d a)\<rparr>"
  have a: "admit now d = ?d\<lparr>td_timers := fold (set_insert (timer_lt ?d)) (td_applicants d) (td_timers d), td_applicants := []\<rparr>"
    by (simp add: admit_def Let_def)
  show i: "impl (admit now d) a = (impl d a)\<lparr>ti_admitted := True\<rparr>" if "a \<in> set (td_all d)" for a
  proof (cases "a \<in> set (td_applicants d)")
    case False
    then have "ti_admitted (impl d a)" using that td_invD(4) [OF assms] td_inv_timer(2) [OF assms that] by auto
    then have "(impl d a)\<lparr>ti_admitted := True\<rparr> = impl d a" by (cases "impl d a") simp
    then show ?thesis using False td_inv_timer(1) [OF assms that] by (simp add: a)
  qed (simp add: a)
  have lt: "timer_lt ?d x y \<longleftrightarrow> timer_lt d x y" if "x \<in> set (td_all d)" "y \<in> set (td_all d)" for x y
    using i [OF that(1)] i [OF that(2)] by (simp add: a timer_lt_def compare_timer_lex)
  have sub: "set (td_applicants d) \<union> set (td_timers d) = set (td_all d)" using td_invD(4) [OF assms] by auto
  have "sorted_wrt (timer_lt ?d) (td_timers d)"
    using td_invD(5) [OF assms] by (rule sorted_wrt_mono_rel [rotated]) (use lt sub in blast)
  moreover have "timer_lt ?d x y \<or> timer_lt ?d y x" if "x \<in> set (td_all d)" "y \<in> set (td_all d)" "x \<noteq> y" for x y
    using lt [OF that(1,2)] lt [OF that(2,1)] timer_lt_total [OF assms that] by simp
  ultimately have "set (td_timers (admit now d)) = set (td_all d) \<and> sorted_wrt (timer_lt ?d) (td_timers (admit now d))"
    using timer_order.insert_all [of ?d "td_timers d" "td_applicants d"] td_invD(1,3) [OF assms] sub by (auto simp: a)
  moreover have "timer_lt (admit now d) = timer_lt ?d" by (simp add: a timer_lt_def fun_eq_iff)
  ultimately show s: "set (td_timers (admit now d)) = set (td_all d)" and "td_inv (admit now d)"
    using td_invD(2,6) [OF assms] td_inv_timer [OF assms] i
    by (auto simp: td_inv_def inj_on_def a)
  then show "length (td_timers (admit now d)) = length (td_all d)"
    using td_invD(7) td_invD(2) [OF assms] by (metis distinct_card)
  show "td_generation (admit now d) = td_generation d" by (simp add: a)
  then show "same_timers d (admit now d)" using i by (simp add: same_timers_def) (simp add: a)
qed

text \<open>The timer at the head is taken out and runs, and its object is deleted.\<close>

definition fire_one :: "('c \<Rightarrow> 'c timer_dispatcher \<Rightarrow> 'c timer_dispatcher) \<Rightarrow> address \<Rightarrow> 'c timer_dispatcher \<Rightarrow> 'c timer_dispatcher" where
  "fire_one run a d =
     (let d1 = run (ti_func (impl d a)) (d\<lparr>td_timers := tl (td_timers d), td_all := removeAll a (td_all d)\<rparr>)
      in d1\<lparr>td_heap := (td_heap d1)(a := None)\<rparr>)"

text \<open>The callbacks leave an active timer alone.\<close>

definition left_alone :: "('c \<Rightarrow> 'c timer_dispatcher \<Rightarrow> 'c timer_dispatcher) \<Rightarrow> address \<Rightarrow> bool" where
  "left_alone run a \<longleftrightarrow> (\<forall>cb d. a \<in> set (td_timers d) \<longrightarrow> a \<in> set (td_timers (run cb d)))"

text \<open>Callbacks that do not block and that post at most \<open>n\<close> timers each.\<close>

locale timer_client =
  fixes run :: "'c \<Rightarrow> 'c timer_dispatcher \<Rightarrow> 'c timer_dispatcher" and n :: nat
  assumes run_law: "unat (td_generation d) + n < 2 ^ 32 \<Longrightarrow>
    client\<^sup>*\<^sup>* d (run cb d) \<and> unat (td_generation (run cb d)) \<le> unat (td_generation d) + n"
begin

lemma fire_one_step:
  assumes "td_inv d" and "td_timers d = a # rest" and "unat (td_generation d) + n < 2 ^ 32"
  shows "td_inv (fire_one run a d)" and "same_timers d (fire_one run a d)" and "subseq (td_timers (fire_one run a d)) rest"
    and "\<And>b. b \<in> set (td_timers (fire_one run a d)) \<Longrightarrow> impl (fire_one run a d) b = impl d b"
    and "td_serial (fire_one run a d) = td_serial d"
    and "unat (td_generation (fire_one run a d)) \<le> unat (td_generation d) + n"
proof -
  let ?d0 = "d\<lparr>td_timers := rest, td_all := removeAll a (td_all d)\<rparr>" and ?d2 = "fire_one run a d"
  let ?d1 = "run (ti_func (impl d a)) ?d0"
  have a: "a \<notin> set rest" "a \<notin> set (td_applicants d)" "td_heap d a \<noteq> None"
    using td_invD(3,4,7) [OF assms(1)] td_inv_timer(1) [OF assms(1), of a] assms(2) by auto
  have inv0: "td_inv ?d0" by (rule td_inv_without [OF assms(1), where a = a]) (use a assms(2) in simp_all)
  have g: "unat (td_generation ?d0) + n < 2 ^ 32" using assms(3) by simp
  note run = run_law [OF g, of "ti_func (impl d a)"]
  from client_steps [OF conjunct1 [OF run] inv0]
  have d1: "td_inv ?d1" "same_timers ?d0 ?d1" "fewer_active ?d0 ?d1" by simp_all
  then have a1: "a \<notin> set (td_all ?d1)" using a by (simp add: fewer_active_def)
  then have a2: "a \<notin> set (td_timers ?d1)" "a \<notin> set (td_applicants ?d1)" using td_invD(4) [OF d1(1)] by auto
  have d2: "?d2 = ?d1\<lparr>td_heap := (td_heap ?d1)(a := None)\<rparr>" using assms(2) by (simp add: fire_one_def Let_def)
  show "td_inv ?d2" by (rule td_inv_without [OF d1(1), where a = a]) (use a1 a2 in \<open>simp_all add: d2\<close>)
  have "same_timers d ?d0" by (simp add: same_timers_def)
  moreover have "same_timers ?d1 ?d2" using a1 by (auto simp: same_timers_def d2 impl_def)
  ultimately show "same_timers d ?d2" using d1(2) by (blast intro: same_timers_trans)
  show "subseq (td_timers ?d2) rest" "td_serial ?d2 = td_serial d" using d1(3) by (simp_all add: d2 fewer_active_def)
  show "impl ?d2 b = impl d b" if "b \<in> set (td_timers ?d2)" for b
    using that d1(3) a2 by (auto simp: d2 fewer_active_def impl_def)
  show "unat (td_generation ?d2) \<le> unat (td_generation d) + n" using run by (simp add: d2)
qed

lemma fire_ok:
  assumes "td_inv d" and "td_serial d = serial" and "unat (td_generation d) + length (td_timers d) * n < 2 ^ 32"
  shows "\<exists>fired d'. fire run now serial d = Some (fired, d') \<and> td_inv d' \<and> same_timers d d' \<and>
    subseq fired (map (impl d) (td_timers d)) \<and> (\<forall>t\<in>set fired. tv_less (ti_time t) now) \<and>
    (\<forall>a\<in>set (td_timers d'). tv_le now (ti_time (impl d' a))) \<and>
    (\<forall>a\<in>set (td_timers d). left_alone run a \<longrightarrow> (if tv_less (ti_time (impl d a)) now then impl d a \<in> set fired
       else a \<in> set (td_timers d') \<and> impl d' a = impl d a))"
  using assms
proof (induction "length (td_timers d)" arbitrary: d rule: less_induct)
  case (less d)
  show ?case
  proof (cases "td_timers d")
    case Nil
    then show ?thesis using less.prems steps_refl [of d] by (subst fire.simps) simp
  next
    case (Cons a rest)
    show ?thesis
    proof (cases "tv_le now (ti_time (impl d a))")
      case True
      have "tv_le now (ti_time (impl d b))" if "b \<in> set (td_timers d)" for b
        using td_invD(5) [OF less.prems(1)] that True timer_lt_time [OF _ True] by (auto simp: Cons)
      moreover from this have "\<not> tv_less (ti_time (impl d b)) now" if "b \<in> set (td_timers d)" for b
        using that by (simp flip: tv_not_le)
      moreover have "fire run now serial d = Some ([], d)" using Cons True by (subst fire.simps) simp
      ultimately show ?thesis using less.prems steps_refl [of d] by auto
    next
      case False
      let ?d = "fire_one run a d"
      have "unat (td_generation d) + n < 2 ^ 32" using less.prems(3) by (simp add: Cons)
      note one = fire_one_step [OF less.prems(1) Cons this]
      have l: "length (td_timers ?d) \<le> length rest" using one(3) by (rule list_emb_length)
      have "unat (td_generation d) + (n + length rest * n) < 2 ^ 32" using less.prems(3) by (simp add: Cons)
      then have "unat (td_generation ?d) + length (td_timers ?d) * n < 2 ^ 32"
        using mult_le_mono1 [OF l, of n] one(6) by linarith
      from less.hyps [OF _ one(1) _ this] obtain fired d' where IH:
        "fire run now serial ?d = Some (fired, d')" "td_inv d'" "same_timers ?d d'"
        "subseq fired (map (impl ?d) (td_timers ?d))" "\<forall>t\<in>set fired. tv_less (ti_time t) now"
        "\<forall>a\<in>set (td_timers d'). tv_le now (ti_time (impl d' a))"
        "\<forall>a\<in>set (td_timers ?d). left_alone run a \<longrightarrow> (if tv_less (ti_time (impl ?d a)) now then impl ?d a \<in> set fired
          else a \<in> set (td_timers d') \<and> impl d' a = impl ?d a)"
        using l one(5) less.prems(2) Cons by (metis le_imp_less_Suc length_Cons)
      have f: "fire run now serial d = Some (impl d a # fired, d')"
        using Cons False IH(1) one(5) less.prems(2) by (subst fire.simps) (simp add: fire_one_def Let_def)
      have same: "map (impl ?d) (td_timers ?d) = map (impl d) (td_timers ?d)" using one(4) by simp
      have "subseq (map (impl d) (td_timers ?d)) (map (impl d) rest)" using one(3) by (rule subseq_map)
      with IH(4) same have "subseq fired (map (impl d) rest)" by (metis subseq_order.trans)
      then have sub: "subseq (impl d a # fired) (map (impl d) (td_timers d))" by (simp add: Cons)
      have rest: "if tv_less (ti_time (impl d b)) now then impl d b \<in> set (impl d a # fired)
          else b \<in> set (td_timers d') \<and> impl d' b = impl d b"
        if "b \<in> set (td_timers d)" "left_alone run b" for b
      proof (cases "b = a")
        case True
        with False show ?thesis by (simp add: tv_not_le)
      next
        case False
        with that(1) have "b \<in> set (td_timers (d\<lparr>td_timers := tl (td_timers d), td_all := removeAll a (td_all d)\<rparr>))" by (simp add: Cons)
        then have "b \<in> set (td_timers ?d)" using that(2) by (simp add: left_alone_def fire_one_def Let_def)
        then show ?thesis using IH(7) that(2) one(4) [of b] by auto
      qed
      have "\<forall>t\<in>set (impl d a # fired). tv_less (ti_time t) now" using IH(5) False by (simp add: tv_not_le)
      with f sub IH(2,6) same_timers_trans [OF one(2) IH(3)] show ?thesis
        by (intro exI [of _ "impl d a # fired"] exI [of _ d'] conjI) (assumption+, intro ballI impI, rule rest)
    qed
  qed
qed

end

section \<open>The timers as a schedule\<close>

text \<open>What the dispatcher promises: a schedule from the generations to times and callbacks.\<close>

definition schedule :: "'c timer_dispatcher \<Rightarrow> uint32 \<Rightarrow> (timeval \<times> 'c) option" where
  "schedule d = map_of (map (\<lambda>a. (ti_generation (impl d a), ti_time (impl d a), ti_func (impl d a))) (td_all d))"

lemma schedule_iff:
  assumes "td_inv d"
  shows "schedule d g = Some x \<longleftrightarrow> (\<exists>a\<in>set (td_all d). ti_generation (impl d a) = g \<and> x = (ti_time (impl d a), ti_func (impl d a)))"
proof -
  have "distinct (map (\<lambda>a. ti_generation (impl d a)) (td_all d))"
    using td_invD(2,6) [OF assms] by (simp add: distinct_map)
  then show ?thesis unfolding schedule_def by (subst map_of_eq_Some_iff) (auto simp: comp_def)
qed

lemma schedule_at: "td_inv d \<Longrightarrow> a \<in> set (td_all d) \<Longrightarrow>
    schedule d (ti_generation (impl d a)) = Some (ti_time (impl d a), ti_func (impl d a))"
  by (auto simp: schedule_iff)

lemma map_ext_Some: "(\<And>k x. m k = Some x \<longleftrightarrow> m' k = Some x) \<Longrightarrow> m = m'"
  by (rule ext) (metis not_None_eq)

lemma generation_only:
  assumes "td_inv d" and "a \<in> set (td_all d)" and "b \<in> set (td_all d)"
  shows "ti_generation (impl d b) = ti_generation (impl d a) \<longleftrightarrow> b = a"
  using td_invD(6) [OF assms(1)] assms(2,3) by (auto dest: inj_onD)

lemma schedule_post:
  assumes "td_inv d" and "td_heap d a = None" and "td_generation d \<noteq> - 1"
  shows "schedule (snd (post a cb duration d)) = (schedule d)(td_generation d + 1 \<mapsto> (tv_add (td_now d) duration, cb))"
proof (rule map_ext_Some)
  fix g x
  let ?d = "snd (post a cb duration d)"
  have a: "a \<notin> set (td_all d)" using assms(2) td_inv_timer(1) [OF assms(1)] by auto
  have "td_generation d < td_generation d + 1" using unat_plus_one [OF assms(3)] by (simp add: word_less_nat_alt)
  then have old: "ti_generation (impl d b) \<noteq> td_generation d + 1" if "b \<in> set (td_all d)" for b
    using td_inv_timer(3) [OF assms(1) that] by auto
  have i: "impl ?d b = impl d b" if "b \<in> set (td_all d)" for b using a that by (auto simp: post_def Let_def impl_def)
  have "schedule ?d g = Some x \<longleftrightarrow> (\<exists>b\<in>insert a (set (td_all d)). ti_generation (impl ?d b) = g \<and>
      x = (ti_time (impl ?d b), ti_func (impl ?d b)))"
    using schedule_iff [OF post_step(1) [OF assms], of cb duration g x] by (simp add: post_def Let_def)
  also have "\<dots> \<longleftrightarrow> g = td_generation d + 1 \<and> x = (tv_add (td_now d) duration, cb) \<or>
      (\<exists>b\<in>set (td_all d). ti_generation (impl d b) = g \<and> x = (ti_time (impl d b), ti_func (impl d b)))"
    using i by (auto simp: post_def Let_def)
  also have "\<dots> \<longleftrightarrow> ((schedule d)(td_generation d + 1 \<mapsto> (tv_add (td_now d) duration, cb))) g = Some x"
    using old schedule_iff [OF assms(1), of g x] by auto
  finally show "schedule ?d g = Some x \<longleftrightarrow> ((schedule d)(td_generation d + 1 \<mapsto> (tv_add (td_now d) duration, cb))) g = Some x" .
qed

lemma schedule_cancel:
  assumes "td_inv d" and "valid_handle h d"
  shows "schedule (snd (timer_cancel h d)) = (schedule d)(tm_generation h := None)"
proof (rule map_ext_Some)
  fix g x
  let ?d = "snd (timer_cancel h d)" and ?a = "tm_impl h"
  have a: "?a \<in> set (td_all d)" "ti_generation (impl d ?a) = tm_generation h" using assms(2) by (simp_all add: check_validity_def)
  have d: "td_all ?d = removeAll ?a (td_all d)" "\<And>b. b \<noteq> ?a \<Longrightarrow> impl ?d b = impl d b"
    using assms(2) by (simp_all add: timer_cancel_def Let_def impl_cancel_eq [OF assms(1) a(1)] impl_def)
  show "schedule ?d g = Some x \<longleftrightarrow> ((schedule d)(tm_generation h := None)) g = Some x"
    using schedule_iff [OF cancel_step(1) [OF assms(1)], of h g x] schedule_iff [OF assms(1), of g x]
      generation_only [OF assms(1) a(1)] a(2) d by auto
qed

lemma schedule_set_timeout:
  assumes "td_inv d" and "a \<in> set (td_all d)"
  shows "schedule (set_timeout a when d) = (schedule d)(ti_generation (impl d a) \<mapsto> (when, ti_func (impl d a)))"
proof (rule map_ext_Some)
  fix g x
  let ?d = "set_timeout a when d"
  have d: "set (td_all ?d) = set (td_all d)" "\<And>b. b \<noteq> a \<Longrightarrow> impl ?d b = impl d b"
      "impl ?d a = (impl d a)\<lparr>ti_admitted := False, ti_time := when\<rparr>"
    using assms(2) by (auto simp: set_timeout_eq [OF assms] impl_def)
  have gen: "ti_generation (impl ?d b) = ti_generation (impl d b)" for b by (cases "b = a") (simp_all add: d)
  have "td_inv ?d" using set_timeout_step [OF assms] by simp
  from schedule_iff [OF this, of g x] have s: "schedule ?d g = Some x \<longleftrightarrow>
      (\<exists>b\<in>set (td_all d). ti_generation (impl d b) = g \<and> x = (ti_time (impl ?d b), ti_func (impl ?d b)))" by (simp add: d(1) gen)
  show "schedule ?d g = Some x \<longleftrightarrow> ((schedule d)(ti_generation (impl d a) \<mapsto> (when, ti_func (impl d a)))) g = Some x"
  proof (cases "g = ti_generation (impl d a)")
    case True
    have "schedule ?d g = Some x \<longleftrightarrow> x = (when, ti_func (impl d a))"
    proof -
      have "ti_time (impl ?d a) = when" "ti_func (impl ?d a) = ti_func (impl d a)" by (simp_all add: d(3))
      moreover have "(\<exists>b\<in>set (td_all d). ti_generation (impl d b) = g \<and> P b) \<longleftrightarrow> P a" for P
        using generation_only [OF assms] assms(2) True by blast
      ultimately show ?thesis unfolding s by simp
    qed
    with True show ?thesis by auto
  next
    case False
    then have "impl ?d b = impl d b" if "ti_generation (impl d b) = g" for b using d(2) [of b] that by blast
    then show ?thesis using False s schedule_iff [OF assms(1), of g x] by auto
  qed
qed

section \<open>Properties\<close>

text \<open>A step of the program: code outside uses a timer, or the poll loop polls the dispatcher.\<close>

inductive td_step :: "('c \<Rightarrow> 'c timer_dispatcher \<Rightarrow> 'c timer_dispatcher) \<Rightarrow> nat \<Rightarrow> 'c timer_dispatcher \<Rightarrow> 'c timer_dispatcher \<Rightarrow> bool"
  for run n where
  step_client: "client d d' \<Longrightarrow> td_step run n d d'"
| step_poll: "unat (td_generation d) + length (td_all d) * n < 2 ^ 32 \<Longrightarrow> poll_timers run now d = Some (fired, d') \<Longrightarrow>
    td_step run n d d'"

context timer_client
begin

lemma poll_ok:
  assumes "td_inv d" and "unat (td_generation d) + length (td_all d) * n < 2 ^ 32"
  shows "\<exists>fired d'. poll_timers run now d = Some (fired, d') \<and> td_inv d' \<and> same_timers d d' \<and> sorted_wrt compare_timer fired \<and>
    (\<forall>t\<in>set fired. tv_less (ti_time t) now \<and> (\<exists>a\<in>set (td_all d). t = (impl d a)\<lparr>ti_admitted := True\<rparr>)) \<and>
    (\<forall>a\<in>set (td_timers d'). tv_le now (ti_time (impl d' a))) \<and>
    (\<forall>a\<in>set (td_all d). left_alone run a \<longrightarrow>
       (if tv_less (ti_time (impl d a)) now then (impl d a)\<lparr>ti_admitted := True\<rparr> \<in> set fired
        else a \<in> set (td_timers d') \<and> impl d' a = (impl d a)\<lparr>ti_admitted := True\<rparr>))"
proof -
  let ?d1 = "admit now d"
  let ?d2 = "?d1\<lparr>td_serial := td_serial ?d1 + 1\<rparr>"
  note ad = admit_step [OF assms(1), where now = now]
  have inv: "td_inv ?d2" using ad(1) by (simp only: td_inv_serial)
  have st: "same_timers d ?d2" using ad(2) by (simp add: same_timers_def)
  from fire_ok [OF inv refl, where now = now] ad(4,5) assms(2) obtain fired d' where f:
    "fire run now (td_serial ?d2) ?d2 = Some (fired, d')" "td_inv d'" "same_timers ?d2 d'"
    "subseq fired (map (impl ?d1) (td_timers ?d1))" "\<forall>t\<in>set fired. tv_less (ti_time t) now"
    "\<forall>a\<in>set (td_timers d'). tv_le now (ti_time (impl d' a))"
    "\<forall>a\<in>set (td_timers ?d1). left_alone run a \<longrightarrow> (if tv_less (ti_time (impl ?d1 a)) now then impl ?d1 a \<in> set fired
      else a \<in> set (td_timers d') \<and> impl d' a = impl ?d1 a)" by (auto cong: if_cong)
  have "sorted_wrt compare_timer (map (impl ?d1) (td_timers ?d1))"
    using td_invD(5) [OF ad(1)] by (simp add: sorted_wrt_map timer_lt_def [abs_def])
  then have "sorted_wrt compare_timer fired" by (rule sorted_wrt_subseq [OF f(4)])
  moreover have "\<exists>a\<in>set (td_all d). t = (impl d a)\<lparr>ti_admitted := True\<rparr>" if "t \<in> set fired" for t
    using set_subseq [OF f(4)] that ad(3,6) by auto
  moreover have "if tv_less (ti_time (impl d a)) now then (impl d a)\<lparr>ti_admitted := True\<rparr> \<in> set fired
      else a \<in> set (td_timers d') \<and> impl d' a = (impl d a)\<lparr>ti_admitted := True\<rparr>"
    if "a \<in> set (td_all d)" "left_alone run a" for a
    using f(7) that ad(3) ad(6) [OF that(1)] by auto
  ultimately show ?thesis
    using f(1,2,5,6) same_timers_trans [OF st f(3)] by (auto simp: poll_timers_def Let_def)
qed

lemma step_ok:
  assumes "td_step run n d d'" and "td_inv d"
  shows "td_inv d' \<and> same_timers d d'"
  using assms(1)
proof cases
  case step_client
  with client_step [OF _ assms(2)] show ?thesis by blast
next
  case (step_poll now fired)
  with poll_ok [OF assms(2) step_poll(1), of now] show ?thesis by auto
qed

lemma steps_ok: "(td_step run n)\<^sup>*\<^sup>* d d' \<Longrightarrow> td_inv d \<Longrightarrow> td_inv d' \<and> same_timers d d'"
proof (induction rule: rtranclp_induct)
  case (step d1 d2)
  with step_ok [OF step(2)] show ?case by (blast intro: same_timers_trans)
qed (simp add: steps_refl)

end

lemma new_timer_dispatcher_inv: "td_inv (new_timer_dispatcher now)"
  by (simp add: td_inv_def new_timer_dispatcher_def)

lemma dead_handle:
  assumes "\<not> valid_handle h d"
  shows "timer_cancel h d = (h, d)" and "timer_delay h neg sec usec d = d" and "timer_reset h sec usec d = d"
    and "timer_get_time h d = \<lparr>tv_sec = 0, tv_usec = 0\<rparr>"
  using assms by (auto simp: timer_cancel_def timer_delay_def timer_reset_def timer_get_time_def)

text \<open>Callbacks for examples: callback \<open>k\<close> posts itself again after \<open>k\<close> seconds at address \<open>100 + k\<close>, if that is free.\<close>

definition again :: "nat \<Rightarrow> nat timer_dispatcher \<Rightarrow> nat timer_dispatcher" where
  "again k d = (if td_heap d (100 + k) = None then snd (post (100 + k) k (make_timeval (int k) 0) d) else d)"

interpretation again: timer_client again 1
proof
  fix d :: "nat timer_dispatcher" and cb
  assume g: "unat (td_generation d) + 1 < 2 ^ 32"
  then have m: "td_generation d \<noteq> - 1" by (auto simp: unsigned_minus_1_eq_mask mask_eq_exp_minus_1)
  have "client\<^sup>*\<^sup>* d (again cb d)"
    unfolding again_def using client_post [OF _ m] by (auto intro: r_into_rtranclp)
  moreover have "unat (td_generation (again cb d)) \<le> unat (td_generation d) + 1"
    using unat_plus_one [OF m] by (simp add: again_def post_def Let_def)
  ultimately show "client\<^sup>*\<^sup>* d (again cb d) \<and> unat (td_generation (again cb d)) \<le> unat (td_generation d) + 1" ..
qed

text \<open>Two timers, the younger of which is the first to fire.\<close>

definition example_timers :: "nat timer_dispatcher" where
  "example_timers = snd (post 3 3 (make_timeval 3 0) (snd (post 5 5 (make_timeval 5 0) (new_timer_dispatcher (make_timeval 0 0)))))"

lemmas example_simps = impl_def example_timers_def post_def new_timer_dispatcher_def List.insert_def Let_def

lemma example_timers_client: "client\<^sup>*\<^sup>* (new_timer_dispatcher (make_timeval 0 0)) example_timers"
proof -
  let ?d0 = "new_timer_dispatcher (make_timeval 0 0) :: nat timer_dispatcher"
  let ?d1 = "snd (post 5 5 (make_timeval 5 0) ?d0)"
  have "client ?d0 ?d1" by (rule client_post) (simp_all add: new_timer_dispatcher_def)
  moreover have "client ?d1 example_timers"
    unfolding example_timers_def by (rule client_post) (simp_all add: post_def new_timer_dispatcher_def Let_def)
  ultimately show ?thesis by (meson converse_rtranclp_into_rtranclp r_into_rtranclp)
qed

lemma example_timers_inv: "td_inv example_timers"
  using client_steps [OF example_timers_client new_timer_dispatcher_inv] by simp

text \<open>
  C19: whatever is posted, cancelled, delayed and reset, by callbacks too, every timer of the dispatcher stays in exactly one
  of its queues with a live object behind it, the queue of the active timers stays ordered by time and age, and polling
  always returns.  No pointer in a queue dangles.
\<close>

theorem timer_invariant:
  assumes "timer_client run n" and "(td_step run n)\<^sup>*\<^sup>* (new_timer_dispatcher start) d"
    and "unat (td_generation d) + length (td_all d) * n < 2 ^ 32"
  shows "td_inv d \<and> (\<exists>progress d'. poll run now d = Some (progress, d') \<and> td_inv d')"
proof -
  have "td_inv d" using timer_client.steps_ok [OF assms(1,2) new_timer_dispatcher_inv] by simp
  moreover from timer_client.poll_ok [OF assms(1) this assms(3), of now]
  have "\<exists>progress d'. poll run now d = Some (progress, d') \<and> td_inv d'" by (auto simp: poll_def)
  ultimately show ?thesis ..
qed

theorem timer_invariant_witness:
  "td_inv example_timers \<and> (\<exists>progress d'. poll again (make_timeval 10 0) example_timers = Some (progress, d') \<and> td_inv d')"
proof (rule timer_invariant [OF again.timer_client_axioms])
  have "(td_step again 1)\<^sup>*\<^sup>* d d'" if "client\<^sup>*\<^sup>* d d'" for d d'
    using that by (induction rule: rtranclp_induct) (auto intro: rtranclp.rtrancl_into_rtrancl step_client)
  with example_timers_client show "(td_step again 1)\<^sup>*\<^sup>* (new_timer_dispatcher (make_timeval 0 0)) example_timers" by blast
  show "unat (td_generation example_timers) + length (td_all example_timers) * 1 < 2 ^ 32" by (simp add: example_simps)
qed

text \<open>
  C18: polling fires timers whose time has passed and only those, in the order of their times and, for equal times, of their
  posting.  A timer that the callbacks leave alone is fired if its time has passed and stays as it is otherwise, and no
  expired timer stays active.
\<close>

theorem timers_fire_in_order:
  assumes "timer_client run n" and "td_inv d" and "unat (td_generation d) + length (td_all d) * n < 2 ^ 32"
  shows "\<exists>fired d'. poll_timers run now d = Some (fired, d') \<and> sorted_wrt compare_timer fired \<and>
    (\<forall>t\<in>set fired. tv_less (ti_time t) now \<and> (\<exists>a\<in>set (td_all d). t = (impl d a)\<lparr>ti_admitted := True\<rparr>)) \<and>
    (\<forall>a\<in>set (td_timers d'). tv_le now (ti_time (impl d' a))) \<and>
    (\<forall>a\<in>set (td_all d). left_alone run a \<longrightarrow>
       (if tv_less (ti_time (impl d a)) now then (impl d a)\<lparr>ti_admitted := True\<rparr> \<in> set fired
        else a \<in> set (td_timers d') \<and> impl d' a = (impl d a)\<lparr>ti_admitted := True\<rparr>))"
  using timer_client.poll_ok [OF assms, of now] by blast

theorem timers_fire_in_order_witness:
  "\<exists>fired d'. poll_timers again (make_timeval 4 0) example_timers = Some (fired, d') \<and> sorted_wrt compare_timer fired \<and>
     (impl example_timers 3)\<lparr>ti_admitted := True\<rparr> \<in> set fired \<and> 5 \<in> set (td_timers d')"
proof -
  have alone: "left_alone again a" for a by (simp add: left_alone_def again_def post_def Let_def)
  have "unat (td_generation example_timers) + length (td_all example_timers) * 1 < 2 ^ 32" by (simp add: example_simps)
  note poll = timers_fire_in_order [OF again.timer_client_axioms example_timers_inv this, where now = "make_timeval 4 0"]
  have mem: "3 \<in> set (td_all example_timers)" "5 \<in> set (td_all example_timers)" by (simp_all add: example_simps)
  have "tv_less (ti_time (impl example_timers 3)) (make_timeval 4 0)"
    "\<not> tv_less (ti_time (impl example_timers 5)) (make_timeval 4 0)"
    by (simp_all add: example_simps tv_less_def timeval_compare_def tv_add_def make_timeval_def)
  with poll alone mem show ?thesis by (elim exE conjE) (intro exI conjI, assumption+, (drule (1) bspec, simp)+)
qed

text \<open>
  C20: the handle of a timer is good for that timer only.  However the program goes on, also when the memory of the timer is
  used for another one, the handle refers to the timer it was made for, or it is dead: then nothing done through it has an
  effect, and it stays dead.
\<close>

theorem stale_handles:
  assumes "timer_client run n" and "td_inv d0" and "td_heap d0 a = None" and "td_generation d0 \<noteq> - 1"
    and "post a cb duration d0 = (h, d1)" and "(td_step run n)\<^sup>*\<^sup>* d1 d2" and "(td_step run n)\<^sup>*\<^sup>* d2 d3"
  shows "(valid_handle h d2 \<longrightarrow> tm_impl h = a \<and> td_heap d2 a = Some (impl d2 a) \<and> ti_func (impl d2 a) = cb) \<and>
    (\<not> valid_handle h d2 \<longrightarrow> \<not> valid_handle h d3 \<and> timer_cancel h d2 = (h, d2) \<and> timer_delay h neg sec usec d2 = d2 \<and>
      timer_reset h sec usec d2 = d2)"
proof -
  have h: "h = \<lparr>tm_dispatcher = True, tm_impl = a, tm_generation = td_generation d1\<rparr>" "impl d1 a =
      \<lparr>ti_func = cb, ti_time = tv_add (td_now d0) duration, ti_admitted = False, ti_generation = td_generation d1\<rparr>"
    using assms(5) by (auto simp: post_def Let_def)
  have "td_inv d1" using post_step(1) [OF assms(2-4), of cb duration] assms(5) by simp
  with timer_client.steps_ok [OF assms(1,6)] have d2: "td_inv d2" "same_timers d1 d2" by auto
  with timer_client.steps_ok [OF assms(1,7)] have d3: "same_timers d2 d3" by blast
  have "ti_func (impl d2 a) = cb" if "valid_handle h d2"
    using d2(2) that by (auto simp: same_timers_def check_validity_def h)
  moreover have "td_heap d2 a = Some (impl d2 a)" if "valid_handle h d2"
    using td_inv_timer(1) [OF d2(1)] that by (simp add: check_validity_def h)
  moreover have "td_generation d1 \<le> td_generation d2" using d2(2) by (simp add: same_timers_def)
  then have "\<not> valid_handle h d3" if "\<not> valid_handle h d2"
    using d3 that by (auto simp: same_timers_def check_validity_def h)
  ultimately show ?thesis using dead_handle [of h d2] h(1) by auto
qed

theorem stale_handles_witness:
  "let (h, d1) = post 7 7 (make_timeval 7 0) example_timers; d2 = snd (timer_cancel h d1); d3 = snd (post 7 8 (make_timeval 8 0) d2)
   in td_heap d3 7 \<noteq> None \<and> \<not> valid_handle h d3 \<and> timer_reset h 1 0 d2 = d2"
proof -
  obtain h d1 where p: "post 7 7 (make_timeval 7 0) example_timers = (h, d1)" by (cases "post 7 7 (make_timeval 7 0) example_timers")
  let ?d2 = "snd (timer_cancel h d1)"
  let ?d3 = "snd (post 7 8 (make_timeval 8 0) ?d2)"
  have free: "td_heap example_timers 7 = None" "td_generation example_timers \<noteq> - 1" by (simp_all add: example_simps)
  have h: "h = \<lparr>tm_dispatcher = True, tm_impl = 7, tm_generation = 3\<rparr>" "7 \<in> set (td_all d1)" "ti_generation (impl d1 7) = 3"
      "td_generation d1 = 3"
    using p by (auto simp: example_simps)
  have "td_inv d1" using post_step(1) [OF example_timers_inv free, of 7 "make_timeval 7 0"] p by simp
  then have d2: "td_all ?d2 = removeAll 7 (td_all d1)" "td_heap ?d2 7 = None" "td_generation ?d2 = 3"
    using h by (simp_all add: timer_cancel_def check_validity_def Let_def impl_cancel_eq)
  then have "\<not> valid_handle h ?d2" by (simp add: check_validity_def h)
  moreover have "(td_step again 1)\<^sup>*\<^sup>* d1 ?d2" by (intro r_into_rtranclp step_client client_cancel)
  moreover have "(td_step again 1)\<^sup>*\<^sup>* ?d2 ?d3"
    by (intro r_into_rtranclp step_client client_post) (simp_all add: d2)
  ultimately have "\<not> valid_handle h ?d3 \<and> timer_reset h 1 0 ?d2 = ?d2"
    using stale_handles [OF again.timer_client_axioms example_timers_inv free p, of ?d2 ?d3] by blast
  then show ?thesis by (simp add: p) (simp add: post_def Let_def)
qed



text \<open>Posting a timer wakes the dispatcher up; moving one does not, even when it is then the next to fire.\<close>

lemma reset_does_not_signal:
  shows "td_signals (snd (post a cb duration d)) = td_signals d + 1" and "td_signals (timer_reset h sec usec d) = td_signals d"
    and "td_signals (timer_delay h neg sec usec d) = td_signals d"
  by (simp_all add: post_def timer_reset_def timer_delay_def impl_delay_def impl_reset_def set_timeout_def impl_cancel_def Let_def)

end
