(* ===== verification/Nox_Event_Dispatch.thy ===== *)
theory Nox_Event_Dispatch
  imports Nox_Prelude
begin

text \<open>
  The event dispatcher, \<^verbatim>\<open>src/src/lib/event-dispatcher.cc\<close>, and the registration of handlers with the filter chains of the
  configuration, \<^verbatim>\<open>src/src/builtin/event-dispatcher-component.cc\<close>.  The multimap of an event name is the list of its nodes
  in iteration order; a node has a number, which stands for its address.  A handler is a function on the state of the
  program and of the dispatcher; it may post events and register handlers.  \<open>ed_wakeups\<close> counts the broadcasts to
  \<^verbatim>\<open>nonempty_queue\<close>.
\<close>

section \<open>Handlers\<close>

type_synonym event_name = string

record 'h node =
  nd_order :: int
  nd_handler :: 'h
  nd_number :: nat

record ('h, 'e) event_dispatcher =
  ed_table :: "event_name \<Rightarrow> 'h node list option"
  ed_queue :: "'e list"
  ed_wakeups :: nat
  ed_serial :: uint32
  ed_nodes :: nat

datatype disposition = CONTINUE | STOP

definition new_event_dispatcher :: "('h, 'e) event_dispatcher" where
  "new_event_dispatcher = \<lparr>ed_table = (\<lambda>_. None), ed_queue = [], ed_wakeups = 0, ed_serial = 0, ed_nodes = 0\<rparr>"

text \<open>\<^verbatim>\<open>std::multimap::insert\<close> puts a node behind the nodes with the same key.\<close>

fun multimap_insert :: "'h node \<Rightarrow> 'h node list \<Rightarrow> 'h node list" where
  "multimap_insert n [] = [n]"
| "multimap_insert n (m # ms) = (if nd_order n < nd_order m then n # m # ms else m # multimap_insert n ms)"

definition chain :: "('h, 'e) event_dispatcher \<Rightarrow> event_name \<Rightarrow> 'h node list" where
  "chain d name = (case ed_table d name of None \<Rightarrow> [] | Some ms \<Rightarrow> ms)"

definition add_handler :: "event_name \<Rightarrow> 'h \<Rightarrow> int \<Rightarrow> ('h, 'e) event_dispatcher \<Rightarrow> ('h, 'e) event_dispatcher" where
  "add_handler name handler order d =
     (let n = \<lparr>nd_order = order, nd_handler = handler, nd_number = ed_nodes d\<rparr>
      in d\<lparr>ed_table := (ed_table d)(name \<mapsto> multimap_insert n (chain d name)), ed_nodes := ed_nodes d + 1\<rparr>)"

definition post_event :: "'e \<Rightarrow> ('h, 'e) event_dispatcher \<Rightarrow> ('h, 'e) event_dispatcher" where
  "post_event event d =
     d\<lparr>ed_wakeups := (if ed_queue d = [] then ed_wakeups d + 1 else ed_wakeups d), ed_queue := ed_queue d @ [event]\<rparr>"

section \<open>Dispatch\<close>

text \<open>
  \<open>run h e\<close> is the call of handler \<open>h\<close> for event \<open>e\<close>: the disposition, or \<open>None\<close> for an exception, and the new state of the
  program and of the dispatcher.
\<close>

type_synonym ('h, 'e, 'w) runner = "'h \<Rightarrow> 'e \<Rightarrow> 'w \<times> ('h, 'e) event_dispatcher \<Rightarrow> disposition option \<times> 'w \<times> ('h, 'e) event_dispatcher"

text \<open>The nodes behind the one with the given number, as the list is now: what is left for an iterator to that node.\<close>

definition nodes_after :: "nat \<Rightarrow> 'h node list \<Rightarrow> 'h node list" where
  "nodes_after k ms = tl (dropWhile (\<lambda>m. nd_number m \<noteq> k) ms)"

partial_function (option) dispatch_from :: "('h, 'e, 'w) runner \<Rightarrow> event_name \<Rightarrow> 'e \<Rightarrow> 'h node list \<Rightarrow>
    'w \<times> ('h, 'e) event_dispatcher \<Rightarrow> ('w \<times> ('h, 'e) event_dispatcher) option" where
  "dispatch_from run name e ms s =
     (case ms of
        [] \<Rightarrow> Some s
      | m # _ \<Rightarrow>
          (case run (nd_handler m) e s of (r, w, d) \<Rightarrow>
             if r = Some CONTINUE then dispatch_from run name e (nodes_after (nd_number m) (chain d name)) (w, d)
             else Some (w, d)))"

definition dispatch :: "('e \<Rightarrow> event_name) \<Rightarrow> ('h, 'e, 'w) runner \<Rightarrow> 'e \<Rightarrow> 'w \<times> ('h, 'e) event_dispatcher \<Rightarrow>
    ('w \<times> ('h, 'e) event_dispatcher) option" where
  "dispatch get_name run e s =
     (let name = get_name e in
      case ed_table (snd s) name of None \<Rightarrow> Some s | Some ms \<Rightarrow> dispatch_from run name e ms s)"

text \<open>The loop of \<^verbatim>\<open>poll\<close>, with \<open>n\<close> events to go.  \<open>None\<close> is a call that does not return, or \<^verbatim>\<open>pop_front\<close> of an empty list.\<close>

fun poll_events :: "('e \<Rightarrow> event_name) \<Rightarrow> ('h, 'e, 'w) runner \<Rightarrow> uint32 \<Rightarrow> nat \<Rightarrow> 'w \<times> ('h, 'e) event_dispatcher \<Rightarrow>
    ('w \<times> ('h, 'e) event_dispatcher) option" where
  "poll_events get_name run serial 0 s = Some s"
| "poll_events get_name run serial (Suc n) (w, d) =
     (case ed_queue d of
        [] \<Rightarrow> None
      | e # es \<Rightarrow>
          Option.bind (dispatch get_name run e (w, d\<lparr>ed_queue := es\<rparr>)) (\<lambda>s.
            if serial \<noteq> ed_serial (snd s) then Some s else poll_events get_name run serial n s))"

definition event_poll :: "('e \<Rightarrow> event_name) \<Rightarrow> ('h, 'e, 'w) runner \<Rightarrow> 'w \<times> ('h, 'e) event_dispatcher \<Rightarrow>
    (bool \<times> 'w \<times> ('h, 'e) event_dispatcher) option" where
  "event_poll get_name run s =
     (let n = length (ed_queue (snd s)); d = (snd s)\<lparr>ed_serial := ed_serial (snd s) + 1\<rparr>
      in map_option (\<lambda>s'. (n > 0, s')) (poll_events get_name run (ed_serial d) n (fst s, d)))"

text \<open>What \<^verbatim>\<open>wait\<close> registers: wake up at once, or when the queue gets its first event.\<close>

definition event_wait :: "('h, 'e) event_dispatcher \<Rightarrow> bool" where
  "event_wait d \<longleftrightarrow> ed_queue d \<noteq> []"

section \<open>Registration by components\<close>

text \<open>The configuration gives some events a chain of filters; a component has a place in it by its name.\<close>

record ('h, 'e) event_component =
  ec_events :: "event_name list"
  ec_chains :: "event_name \<Rightarrow> (string \<Rightarrow> int option) option"
  ec_dispatcher :: "('h, 'e) event_dispatcher"

text \<open>The later of two places of the same name counts.\<close>

definition filter_chain :: "string list \<Rightarrow> string \<Rightarrow> int option" where
  "filter_chain filters = foldl (\<lambda>m (i, f). m(f \<mapsto> int i)) Map.empty (enumerate 0 filters)"

definition register_event :: "event_name \<Rightarrow> ('h, 'e) event_component \<Rightarrow> bool \<times> ('h, 'e) event_component" where
  "register_event name c =
     (if name \<in> set (ec_events c) then (False, c) else (True, c\<lparr>ec_events := name # ec_events c\<rparr>))"

definition system_events :: "event_name list" where
  "system_events =
     [''Datapath_join_event'', ''Datapath_leave_event'', ''Error_event'', ''Flow_removed_event'',
     ''Flow_mod_event'', ''Packet_in_event'', ''Port_status_event'', ''Shutdown_event'',
     ''Bootstrap_complete_event'', ''Flow_stats_in_event'', ''Queue_stats_in_event'', ''Queue_config_in_event'',
     ''Table_stats_in_event'', ''Ofmp_config_update_event'', ''Ofmp_config_update_ack_event'',
     ''Ofmp_resources_update_event'', ''Port_stats_in_event'', ''Aggregate_stats_in_event'',
     ''Desc_stats_in_event'', ''Switch_mgr_join_event'', ''Switch_mgr_leave_event'', ''Barrier_reply_event'',
     ''Openflow_msg_event'']"

definition new_event_component :: "(event_name \<times> string list) list \<Rightarrow> ('h, 'e) event_component" where
  "new_event_component config =
     foldl (\<lambda>c name. snd (register_event name c))
       \<lparr>ec_events = [],
        ec_chains = foldl (\<lambda>m (name, filters). m(name \<mapsto> filter_chain filters)) Map.empty config,
        ec_dispatcher = new_event_dispatcher\<rparr>
       system_events"

definition register_handler :: "string \<Rightarrow> event_name \<Rightarrow> 'h \<Rightarrow> ('h, 'e) event_component \<Rightarrow> bool \<times> ('h, 'e) event_component" where
  "register_handler filter_name name h c =
     (if name \<notin> set (ec_events c) then (False, c)
      else
        let order = (case ec_chains c name of
              None \<Rightarrow> 0
            | Some ch \<Rightarrow> (case ch filter_name of None \<Rightarrow> 0 | Some i \<Rightarrow> i))
        in (True, c\<lparr>ec_dispatcher := add_handler name h order (ec_dispatcher c)\<rparr>))"

section \<open>The order of the handlers\<close>

text \<open>The chain of a name, without the numbers of the nodes.\<close>

definition handlers :: "('h, 'e) event_dispatcher \<Rightarrow> event_name \<Rightarrow> (int \<times> 'h) list" where
  "handlers d name = map (\<lambda>m. (nd_order m, nd_handler m)) (chain d name)"

lemma chain_add [simp]:
  "chain (add_handler name h order d) name' =
     (if name' = name then multimap_insert \<lparr>nd_order = order, nd_handler = h, nd_number = ed_nodes d\<rparr> (chain d name) else chain d name')"
  by (simp add: add_handler_def Let_def chain_def)

lemma chain_simps [simp]:
  "chain (d\<lparr>ed_queue := q\<rparr>) = chain d" "chain (d\<lparr>ed_wakeups := k\<rparr>) = chain d" "chain (d\<lparr>ed_serial := n\<rparr>) = chain d"
  by (simp_all add: chain_def fun_eq_iff)

lemma chain_new [simp]: "chain new_event_dispatcher name = []"
  by (simp add: chain_def new_event_dispatcher_def)

lemma new_event_dispatcher_queue: "ed_queue new_event_dispatcher = []"
  by (simp add: new_event_dispatcher_def)

lemma add_handler_queue [simp]: "ed_queue (add_handler name h order d) = ed_queue d"
  by (simp add: add_handler_def Let_def)

text \<open>Every node is numbered once and the nodes are in order.\<close>

definition ed_inv :: "('h, 'e) event_dispatcher \<Rightarrow> bool" where
  "ed_inv d \<longleftrightarrow> (\<forall>name. sorted (map nd_order (chain d name)) \<and> distinct (map nd_number (chain d name)) \<and>
     (\<forall>m\<in>set (chain d name). nd_number m < ed_nodes d))"

lemma set_multimap_insert [simp]: "set (multimap_insert n ms) = insert n (set ms)"
  by (induction ms) auto

lemma sorted_multimap_insert: "sorted (map nd_order ms) \<Longrightarrow> sorted (map nd_order (multimap_insert n ms))"
  by (induction ms) auto

lemma distinct_multimap_insert:
  "distinct (map nd_number ms) \<Longrightarrow> nd_number n \<notin> nd_number ` set ms \<Longrightarrow> distinct (map nd_number (multimap_insert n ms))"
  by (induction ms) auto

lemma new_event_dispatcher_inv: "ed_inv new_event_dispatcher"
  by (simp add: ed_inv_def new_event_dispatcher_def chain_def)

lemma add_handler_inv:
  assumes "ed_inv d"
  shows "ed_inv (add_handler name h order d)"
proof -
  have "ed_nodes (add_handler name h order d) = ed_nodes d + 1" by (simp add: add_handler_def Let_def)
  moreover have "ed_nodes d \<notin> nd_number ` set (chain d name)" using assms by (force simp: ed_inv_def)
  ultimately show ?thesis
    using assms by (auto simp: ed_inv_def less_Suc_eq intro: sorted_multimap_insert distinct_multimap_insert)
qed

lemma post_event_inv: "ed_inv d \<Longrightarrow> ed_inv (post_event e d)"
  by (simp add: ed_inv_def post_event_def)

text \<open>Insertion behind equal keys, one after the other, is a stable sort.\<close>

fun insert_behind :: "(int \<times> 'h) \<Rightarrow> (int \<times> 'h) list \<Rightarrow> (int \<times> 'h) list" where
  "insert_behind x [] = [x]"
| "insert_behind x (y # ys) = (if fst x < fst y then x # y # ys else y # insert_behind x ys)"

lemma multimap_insert_behind:
  "map (\<lambda>m. (nd_order m, nd_handler m)) (multimap_insert n ms) =
     insert_behind (nd_order n, nd_handler n) (map (\<lambda>m. (nd_order m, nd_handler m)) ms)"
  by (induction ms) auto

lemma insort_key_behind:
  "insort_key fst x (insert_behind y ys) = insert_behind y (insort_key fst x ys)"
  by (induction ys) auto

lemma sort_key_snoc: "sort_key fst (xs @ [y]) = insert_behind y (sort_key fst xs)"
  by (induction xs) (auto simp: insort_key_behind)

lemma handlers_add: "handlers (add_handler name h order d) name' =
    (if name' = name then insert_behind (order, h) (handlers d name) else handlers d name')"
  by (simp add: handlers_def multimap_insert_behind)

lemma handlers_fold:
  "handlers (foldl (\<lambda>d (name, order, h). add_handler name h order d) new_event_dispatcher regs) name =
     sort_key fst (map snd (filter (\<lambda>r. fst r = name) regs))"
proof (induction regs rule: rev_induct)
  case Nil
  show ?case by (simp add: handlers_def new_event_dispatcher_def chain_def)
next
  case (snoc r regs)
  then show ?case by (cases r) (auto simp: handlers_add sort_key_snoc)
qed

section \<open>Handlers that only post events\<close>

text \<open>
  The reference: the handlers of an event run one after the other until one stops it, and the events of the queue are
  handled one after the other.  \<open>eff h e w\<close> is what a handler does: its disposition, the new state and the events it posts.
\<close>

type_synonym ('h, 'e, 'w) effect = "'h \<Rightarrow> 'e \<Rightarrow> 'w \<Rightarrow> disposition option \<times> 'w \<times> 'e list"

fun run_chain :: "('h, 'e, 'w) effect \<Rightarrow> 'h list \<Rightarrow> 'e \<Rightarrow> 'w \<Rightarrow> 'w \<times> 'e list" where
  "run_chain eff [] e w = (w, [])"
| "run_chain eff (h # hs) e w =
     (case eff h e w of (r, w', es) \<Rightarrow>
        if r = Some CONTINUE then (case run_chain eff hs e w' of (w'', es') \<Rightarrow> (w'', es @ es')) else (w', es))"

fun run_queue :: "('h, 'e, 'w) effect \<Rightarrow> ('e \<Rightarrow> 'h list) \<Rightarrow> 'e list \<Rightarrow> 'w \<Rightarrow> 'w \<times> 'e list" where
  "run_queue eff hs [] w = (w, [])"
| "run_queue eff hs (e # es) w =
     (case run_chain eff (hs e) e w of (w', ps) \<Rightarrow> case run_queue eff hs es w' of (w'', ps') \<Rightarrow> (w'', ps @ ps'))"

definition post_all :: "'e list \<Rightarrow> ('h, 'e) event_dispatcher \<Rightarrow> ('h, 'e) event_dispatcher" where
  "post_all es d = foldl (\<lambda>d e. post_event e d) d es"

lemma post_all_fields [simp]:
  "ed_queue (post_all es d) = ed_queue d @ es" "ed_table (post_all es d) = ed_table d" "ed_serial (post_all es d) = ed_serial d"
  "chain (post_all es d) = chain d"
  by (induction es arbitrary: d) (simp_all add: post_all_def post_event_def chain_def fun_eq_iff)

lemma post_all_append [simp]: "post_all es' (post_all es d) = post_all (es @ es') d" "post_all [] d = d"
  by (simp_all add: post_all_def)

lemma post_all_inv: "ed_inv d \<Longrightarrow> ed_inv (post_all es d)"
  by (induction es arbitrary: d) (simp_all add: post_all_def post_event_inv)

text \<open>Handlers that do what \<open>eff\<close> says and use the dispatcher only to post events.\<close>

locale posting_handlers =
  fixes run :: "('h, 'e, 'w) runner" and eff :: "('h, 'e, 'w) effect"
  assumes run_law: "run h e (w, d) = (case eff h e w of (r, w', es) \<Rightarrow> (r, w', post_all es d))"
begin

lemma nodes_after_here:
  "distinct (map nd_number (pre @ m # ms)) \<Longrightarrow> nodes_after (nd_number m) (pre @ m # ms) = ms"
  by (induction pre) (auto simp: nodes_after_def)

lemma dispatch_from_ok:
  assumes "chain d name = pre @ ms" and "distinct (map nd_number (chain d name))"
  shows "dispatch_from run name e ms (w, d) =
    (case run_chain eff (map nd_handler ms) e w of (w', ps) \<Rightarrow> Some (w', post_all ps d))"
  using assms
proof (induction ms arbitrary: pre w d)
  case Nil
  then show ?case by (subst dispatch_from.simps) simp
next
  case (Cons m ms)
  obtain r w' es where e: "eff (nd_handler m) e w = (r, w', es)" by (cases "eff (nd_handler m) e w")
  then have run: "run (nd_handler m) e (w, d) = (r, w', post_all es d)" by (simp add: run_law)
  show ?case
  proof (cases "r = Some CONTINUE")
    case True
    have "dispatch_from run name e (m # ms) (w, d) = dispatch_from run name e ms (w', post_all es d)"
      using run True Cons.prems nodes_after_here [of pre m ms] by (subst dispatch_from.simps) simp
    also have "\<dots> = (case run_chain eff (map nd_handler ms) e w' of (w', ps) \<Rightarrow> Some (w', post_all ps (post_all es d)))"
      using Cons.prems by (intro Cons.IH [of _ "pre @ [m]"]) simp_all
    finally show ?thesis using e True by (simp split: prod.splits)
  next
    case False
    then show ?thesis using run e by (subst dispatch_from.simps) simp
  qed
qed

lemma dispatch_ok:
  assumes "ed_inv d"
  shows "dispatch get_name run e (w, d) =
    (case run_chain eff (map snd (handlers d (get_name e))) e w of (w', ps) \<Rightarrow> Some (w', post_all ps d))"
proof (cases "ed_table d (get_name e)")
  case None
  then show ?thesis by (simp add: dispatch_def handlers_def chain_def)
next
  case (Some ms)
  then have c: "chain d (get_name e) = [] @ ms" by (simp add: chain_def)
  have "distinct (map nd_number (chain d (get_name e)))" using assms by (simp add: ed_inv_def)
  from dispatch_from_ok [OF c this] show ?thesis using Some c by (simp add: dispatch_def handlers_def comp_def)
qed

lemma poll_events_ok:
  assumes "ed_inv d" and "ed_queue d = es @ rest" and "ed_serial d = serial"
  shows "\<exists>d'. poll_events get_name run serial (length es) (w, d) =
      Some (fst (run_queue eff (\<lambda>e. map snd (handlers d (get_name e))) es w), d') \<and>
    ed_queue d' = rest @ snd (run_queue eff (\<lambda>e. map snd (handlers d (get_name e))) es w) \<and> ed_table d' = ed_table d"
  using assms
proof (induction es arbitrary: w d rest)
  case (Cons e es)
  let ?h = "\<lambda>e. map snd (handlers d (get_name e))"
  obtain w1 ps where c: "run_chain eff (?h e) e w = (w1, ps)" by (cases "run_chain eff (?h e) e w")
  let ?d = "post_all ps (d\<lparr>ed_queue := es @ rest\<rparr>)"
  have inv: "ed_inv (d\<lparr>ed_queue := es @ rest\<rparr>)" using Cons.prems(1) by (simp add: ed_inv_def)
  have h: "handlers ?d = handlers d" by (simp add: handlers_def fun_eq_iff)
  have "ed_inv ?d" using inv by (rule post_all_inv)
  with Cons.IH [of ?d "rest @ ps" w1] Cons.prems(3) obtain d' where
    "poll_events get_name run serial (length es) (w1, ?d) = Some (fst (run_queue eff ?h es w1), d')"
    "ed_queue d' = rest @ ps @ snd (run_queue eff ?h es w1)" "ed_table d' = ed_table d" by (auto simp: h)
  moreover have "dispatch get_name run e (w, d\<lparr>ed_queue := es @ rest\<rparr>) = Some (w1, ?d)"
    using dispatch_ok [OF inv, of get_name e w] c by (simp add: handlers_def)
  ultimately show ?case using Cons.prems(2,3) c by (auto split: prod.splits)
qed simp

end

section \<open>Filter chains\<close>

text \<open>The place of a component in the chain of an event.\<close>

definition place :: "string list \<Rightarrow> string \<Rightarrow> int" where
  "place filters f = (if f \<in> set filters then int (length (takeWhile (\<lambda>x. x \<noteq> f) filters)) else 0)"

lemma filter_chain_snoc: "filter_chain (fs @ [f]) = (filter_chain fs)(f \<mapsto> int (length fs))"
  by (simp add: filter_chain_def enumerate_append_eq)

lemma filter_chain_place:
  "distinct fs \<Longrightarrow> filter_chain fs f = (if f \<in> set fs then Some (place fs f) else None)"
proof (induction fs rule: rev_induct)
  case Nil
  show ?case by (simp add: filter_chain_def)
next
  case (snoc x fs)
  have "takeWhile (\<lambda>y. y \<noteq> f) (fs @ [x]) = (if f \<in> set fs then takeWhile (\<lambda>y. y \<noteq> f) fs else fs @ takeWhile (\<lambda>y. y \<noteq> f) [x])"
    by (induction fs) auto
  with snoc show ?case by (auto simp: filter_chain_snoc place_def)
qed

lemma foldl_chains:
  "distinct (map fst config) \<Longrightarrow> (name, fs) \<in> set config \<Longrightarrow>
     foldl (\<lambda>m (name, filters). m(name \<mapsto> filter_chain filters)) m0 config name = Some (filter_chain fs)"
proof (induction config rule: rev_induct)
  case (snoc x config)
  then show ?case by (cases x) (auto simp: image_iff)
qed simp

lemma register_events:
  "set (ec_events (foldl (\<lambda>c name. snd (register_event name c)) c names)) = set names \<union> set (ec_events c)"
  "ec_chains (foldl (\<lambda>c name. snd (register_event name c)) c names) = ec_chains c"
  "ec_dispatcher (foldl (\<lambda>c name. snd (register_event name c)) c names) = ec_dispatcher c"
  by (induction names arbitrary: c) (auto simp: register_event_def)

lemma register_handlers:
  assumes "name \<in> set (ec_events c)" and "ec_chains c name = Some (filter_chain fs)" and "distinct fs"
    and "handlers (ec_dispatcher c) name = []"
  shows "handlers (ec_dispatcher (foldl (\<lambda>c (f, h). snd (register_handler f name h c)) c regs)) name =
      sort_key fst (map (\<lambda>(f, h). (place fs f, h)) regs) \<and>
    ec_events (foldl (\<lambda>c (f, h). snd (register_handler f name h c)) c regs) = ec_events c \<and>
    ec_chains (foldl (\<lambda>c (f, h). snd (register_handler f name h c)) c regs) = ec_chains c"
proof (induction regs rule: rev_induct)
  case Nil
  show ?case using assms(4) by simp
next
  case (snoc r regs)
  obtain f h where r: "r = (f, h)" by (cases r)
  have "(case filter_chain fs f of None \<Rightarrow> 0 | Some i \<Rightarrow> i) = place fs f"
    by (simp add: filter_chain_place [OF assms(3)] place_def)
  with snoc assms(1,2) show ?case by (simp add: r register_handler_def handlers_add sort_key_snoc)
qed

section \<open>Properties\<close>

text \<open>
  C21: polling handles exactly the events that were in the queue, in the order in which they were posted, each by its handlers
  in order until one of them stops it or fails; events that the handlers post stay in the queue, in the order of posting.
\<close>

theorem events_in_order:
  assumes "posting_handlers run eff" and "ed_inv d"
  shows "\<exists>d'. event_poll get_name run (w, d) =
      Some (ed_queue d \<noteq> [], fst (run_queue eff (\<lambda>e. map snd (handlers d (get_name e))) (ed_queue d) w), d') \<and>
    ed_queue d' = snd (run_queue eff (\<lambda>e. map snd (handlers d (get_name e))) (ed_queue d) w) \<and> ed_table d' = ed_table d"
proof -
  let ?d = "d\<lparr>ed_serial := ed_serial d + 1\<rparr>"
  have "ed_inv ?d" using assms(2) by (simp add: ed_inv_def)
  moreover have "handlers ?d = handlers d" by (simp add: handlers_def fun_eq_iff)
  ultimately show ?thesis
    using posting_handlers.poll_events_ok [OF assms(1), of ?d "ed_queue d" "[]" "ed_serial d + 1" get_name w]
    by (auto simp: event_poll_def)
qed

text \<open>
  C22: handlers run in the order of the filter chain that the configuration gives for the event, whatever the order in which
  the components register them; components without a place in the chain are treated as its first; and handlers with the same
  place run in the order of registration.
\<close>

theorem filter_chain_order:
  assumes "(name, fs) \<in> set config" and "distinct (map fst config)" and "distinct fs" and "name \<in> set system_events"
  shows "handlers (ec_dispatcher (foldl (\<lambda>c (f, h). snd (register_handler f name h c)) (new_event_component config) regs)) name =
    sort_key fst (map (\<lambda>(f, h). (place fs f, h)) regs)"
  by (rule register_handlers [THEN conjunct1])
    (use assms foldl_chains in \<open>simp_all add: new_event_component_def register_events handlers_def\<close>)

text \<open>Handlers for examples: handler \<open>k\<close> logs the event and posts its successor; handler 9 stops every event.\<close>

definition logging :: "(nat, nat, (nat \<times> nat) list) effect" where
  "logging h e w = (if h = 9 then (Some STOP, w, []) else (Some CONTINUE, w @ [(h, e)], [e + 1]))"

definition run_logging :: "(nat, nat, (nat \<times> nat) list) runner" where
  "run_logging h e s = (case logging h e (fst s) of (r, w, es) \<Rightarrow> (r, w, post_all es (snd s)))"

interpretation logging: posting_handlers run_logging logging
  by unfold_locales (simp add: run_logging_def)

theorem events_in_order_witness:
  "\<exists>d'. event_poll (\<lambda>e. ''x'') run_logging ([], post_all [10, 20] (add_handler ''x'' 8 3 (add_handler ''x'' 9 2
      (add_handler ''x'' 4 2 (add_handler ''x'' 5 1 new_event_dispatcher))))) =
    Some (True, [(5, 10), (4, 10), (5, 20), (4, 20)], d') \<and> ed_queue d' = [11, 11, 21, 21]"
proof -
  let ?d = "add_handler ''x'' 8 3 (add_handler ''x'' 9 2 (add_handler ''x'' 4 2 (add_handler ''x'' 5 1
      (new_event_dispatcher :: (nat, nat) event_dispatcher))))"
  have "ed_inv (post_all [10, 20] ?d)" by (intro post_all_inv add_handler_inv new_event_dispatcher_inv)
  from events_in_order [OF logging.posting_handlers_axioms this, of "\<lambda>e. ''x''" "[]"] show ?thesis
    by (auto simp: handlers_def logging_def new_event_dispatcher_queue)
qed

theorem filter_chain_order_witness:
  "handlers (ec_dispatcher (foldl (\<lambda>c (f, h). snd (register_handler f ''Packet_in_event'' h c))
      (new_event_component [(''Packet_in_event'', [''authenticator'', ''routing''])])
      [(''routing'', 1), (''hub'', 2), (''authenticator'', 3)])) ''Packet_in_event'' = [(0, 2), (0, 3), (1, 1 :: nat)]"
  using filter_chain_order [of "''Packet_in_event''" "[''authenticator'', ''routing'']"
      "[(''Packet_in_event'', [''authenticator'', ''routing''])]" "[(''routing'', 1), (''hub'', 2), (''authenticator'', 3 :: nat)]"]
  by (simp add: system_events_def place_def)

end
