(* ===== verification/Nox_Topology.thy ===== *)
theory Nox_Topology
  imports Nox_Stats_In "HOL-Library.AList" "HOL-Library.Multiset"
begin

text \<open>
  The topology of the network, \<^verbatim>\<open>src/src/nox/netapps/topology/topology.cc\<close>: which datapaths there are, their ports, and the
  links between them as the discovery application reports them.  The hash maps are association lists with distinct keys.
  \<open>None\<close> is the use of an iterator to an element that was erased.
\<close>

section \<open>The state\<close>

record link_ports =
  lp_src :: uint16
  lp_dst :: uint16

type_synonym port_map = "(uint16 \<times> uint16 \<times> uint32) list"
type_synonym link_map = "(datapathid \<times> link_ports list) list"

record dp_info =
  di_ports :: "port list"
  di_internal :: port_map
  di_outlinks :: link_map
  di_active :: bool

type_synonym topology = "(datapathid \<times> dp_info) list"

definition DpInfo :: dp_info where
  "DpInfo = \<lparr>di_ports = [], di_internal = [], di_outlinks = [], di_active = False\<rparr>"

datatype link_action = LINK_ADD | LINK_REMOVE

record link_event =
  le_dpsrc :: datapathid
  le_dpdst :: datapathid
  le_sport :: uint16
  le_dport :: uint16
  le_action :: link_action

section \<open>Queries\<close>

definition get_dpinfo :: "topology \<Rightarrow> datapathid \<Rightarrow> dp_info" where
  "get_dpinfo t dp = (case map_of t dp of None \<Rightarrow> DpInfo | Some i \<Rightarrow> i)"

definition get_outlinks :: "topology \<Rightarrow> datapathid \<Rightarrow> link_map" where
  "get_outlinks t dpsrc = (case map_of t dpsrc of None \<Rightarrow> [] | Some i \<Rightarrow> di_outlinks i)"

definition get_outlinks_to :: "topology \<Rightarrow> datapathid \<Rightarrow> datapathid \<Rightarrow> link_ports list" where
  "get_outlinks_to t dpsrc dpdst =
     (case map_of t dpsrc of
        None \<Rightarrow> []
      | Some i \<Rightarrow> (case map_of (di_outlinks i) dpdst of None \<Rightarrow> [] | Some ls \<Rightarrow> ls))"

definition is_internal :: "topology \<Rightarrow> datapathid \<Rightarrow> uint16 \<Rightarrow> bool" where
  "is_internal t dp p = (case map_of t dp of None \<Rightarrow> False | Some i \<Rightarrow> map_of (di_internal i) p \<noteq> None)"

definition get_datapaths :: "topology \<Rightarrow> datapathid list" where
  "get_datapaths t = map fst t"

section \<open>Datapaths and ports\<close>

definition handle_datapath_join :: "datapathid \<Rightarrow> port list \<Rightarrow> topology \<Rightarrow> topology" where
  "handle_datapath_join dp ports t =
     (let i = (case map_of t dp of None \<Rightarrow> DpInfo | Some i \<Rightarrow> i)
      in AList.update dp (i\<lparr>di_active := True, di_ports := ports\<rparr>) t)"

definition handle_datapath_leave :: "datapathid \<Rightarrow> topology \<Rightarrow> topology" where
  "handle_datapath_leave dp t =
     (case map_of t dp of
        None \<Rightarrow> t
      | Some i \<Rightarrow>
          if \<not> (di_internal i = [] \<and> di_outlinks i = []) then AList.update dp (i\<lparr>di_active := False, di_ports := []\<rparr>) t
          else AList.delete dp t)"

text \<open>The first port with the number is replaced, or the port is added at the end.\<close>

fun put_port :: "port \<Rightarrow> port list \<Rightarrow> port list" where
  "put_port p [] = [p]"
| "put_port p (q # qs) = (if port_no q = port_no p then p # qs else q # put_port p qs)"

fun drop_port :: "port \<Rightarrow> port list \<Rightarrow> port list" where
  "drop_port p [] = []"
| "drop_port p (q # qs) = (if port_no q = port_no p then qs else q # drop_port p qs)"

definition add_port :: "datapathid \<Rightarrow> port \<Rightarrow> topology \<Rightarrow> topology" where
  "add_port dp p t =
     (case map_of t dp of
        None \<Rightarrow> AList.update dp (DpInfo\<lparr>di_active := False, di_ports := [p]\<rparr>) t
      | Some i \<Rightarrow> AList.update dp (i\<lparr>di_ports := put_port p (di_ports i)\<rparr>) t)"

definition delete_port :: "datapathid \<Rightarrow> port \<Rightarrow> topology \<Rightarrow> topology" where
  "delete_port dp p t =
     (case map_of t dp of
        None \<Rightarrow> t
      | Some i \<Rightarrow> AList.update dp (i\<lparr>di_ports := drop_port p (di_ports i)\<rparr>) t)"

abbreviation OFPPR_DELETE :: uint8 where "OFPPR_DELETE \<equiv> 1"

definition topology_port_status :: "datapathid \<Rightarrow> uint8 \<Rightarrow> port \<Rightarrow> topology \<Rightarrow> topology" where
  "topology_port_status dp reason p t = (if reason = OFPPR_DELETE then delete_port dp p t else add_port dp p t)"

section \<open>Links\<close>

definition add_internal :: "datapathid \<Rightarrow> uint16 \<Rightarrow> topology \<Rightarrow> topology" where
  "add_internal dp p t =
     (case map_of t dp of
        None \<Rightarrow> AList.update dp (DpInfo\<lparr>di_active := False, di_internal := [(p, p, 1)]\<rparr>) t
      | Some i \<Rightarrow>
          (case map_of (di_internal i) p of
             None \<Rightarrow> AList.update dp (i\<lparr>di_internal := AList.update p (p, 1) (di_internal i)\<rparr>) t
           | Some (q, n) \<Rightarrow> AList.update dp (i\<lparr>di_internal := AList.update p (q, n + 1) (di_internal i)\<rparr>) t))"

definition unused :: "dp_info \<Rightarrow> bool" where
  "unused i \<longleftrightarrow> \<not> di_active i \<and> di_ports i = [] \<and> di_internal i = [] \<and> di_outlinks i = []"

definition remove_internal :: "datapathid \<Rightarrow> uint16 \<Rightarrow> topology \<Rightarrow> topology" where
  "remove_internal dp p t =
     (case map_of t dp of
        None \<Rightarrow> t
      | Some i \<Rightarrow>
          (case map_of (di_internal i) p of
             None \<Rightarrow> t
           | Some (q, n) \<Rightarrow>
               if n - 1 = 0
               then let i' = i\<lparr>di_internal := AList.delete p (di_internal i)\<rparr>
                 in if unused i' then AList.delete dp t else AList.update dp i' t
               else AList.update dp (i\<lparr>di_internal := AList.update p (q, n - 1) (di_internal i)\<rparr>) t))"

definition add_link :: "link_event \<Rightarrow> topology \<Rightarrow> topology" where
  "add_link le t =
     (let i = (case map_of t (le_dpsrc le) of None \<Rightarrow> DpInfo\<lparr>di_active := False\<rparr> | Some i \<Rightarrow> i);
          ls = (case map_of (di_outlinks i) (le_dpdst le) of None \<Rightarrow> [] | Some ls \<Rightarrow> ls);
          lp = \<lparr>lp_src = le_sport le, lp_dst = le_dport le\<rparr>
      in add_internal (le_dpdst le) (le_dport le)
           (AList.update (le_dpsrc le) (i\<lparr>di_outlinks := AList.update (le_dpdst le) (ls @ [lp]) (di_outlinks i)\<rparr>) t))"

definition remove_link :: "link_event \<Rightarrow> topology \<Rightarrow> topology option" where
  "remove_link le t =
     (case map_of t (le_dpsrc le) of
        None \<Rightarrow> Some t
      | Some i \<Rightarrow>
          (case map_of (di_outlinks i) (le_dpdst le) of
             None \<Rightarrow> Some t
           | Some ls \<Rightarrow>
               let lp = \<lparr>lp_src = le_sport le, lp_dst = le_dport le\<rparr> in
               if lp \<notin> set ls then Some t
               else
                 let ls' = remove1 lp ls;
                     t1 = AList.update (le_dpsrc le) (i\<lparr>di_outlinks := AList.update (le_dpdst le) ls' (di_outlinks i)\<rparr>) t;
                     t2 = remove_internal (le_dpdst le) (le_dport le) t1
                 in if ls' \<noteq> [] then Some t2
                    else (case map_of t2 (le_dpsrc le) of
                       None \<Rightarrow> None
                     | Some i2 \<Rightarrow>
                         let i3 = i2\<lparr>di_outlinks := AList.delete (le_dpdst le) (di_outlinks i2)\<rparr>
                         in Some (if unused i3 then AList.delete (le_dpsrc le) t2 else AList.update (le_dpsrc le) i3 t2))))"

definition handle_link_event :: "link_event \<Rightarrow> topology \<Rightarrow> topology option" where
  "handle_link_event le t = (case le_action le of LINK_ADD \<Rightarrow> Some (add_link le t) | LINK_REMOVE \<Rightarrow> remove_link le t)"

text \<open>The events that the application handles.\<close>

datatype topology_event =
    Datapath_join datapathid "port list"
  | Datapath_leave datapathid
  | Port_status datapathid uint8 port
  | Link link_event

fun handle_topology :: "topology_event \<Rightarrow> topology \<Rightarrow> topology option" where
  "handle_topology (Datapath_join dp ports) t = Some (handle_datapath_join dp ports t)"
| "handle_topology (Datapath_leave dp) t = Some (handle_datapath_leave dp t)"
| "handle_topology (Port_status dp reason p) t = Some (topology_port_status dp reason p t)"
| "handle_topology (Link le) t = handle_link_event le t"

section \<open>The links as a multiset\<close>

text \<open>What the topology promises: a multiset of links, from a port of a datapath to a port of a datapath.\<close>

type_synonym link = "datapathid \<times> uint16 \<times> datapathid \<times> uint16"

definition ports_links :: "datapathid \<Rightarrow> datapathid \<times> link_ports list \<Rightarrow> link multiset" where
  "ports_links s x = image_mset (\<lambda>lp. (s, lp_src lp, fst x, lp_dst lp)) (mset (snd x))"

definition info_links :: "datapathid \<times> dp_info \<Rightarrow> link multiset" where
  "info_links x = sum_list (map (ports_links (fst x)) (di_outlinks (snd x)))"

definition links :: "topology \<Rightarrow> link multiset" where
  "links t = sum_list (map info_links t)"

definition link_of :: "link_event \<Rightarrow> link" where
  "link_of le = (le_dpsrc le, le_sport le, le_dpdst le, le_dport le)"

definition entering :: "datapathid \<Rightarrow> uint16 \<Rightarrow> link multiset \<Rightarrow> nat" where
  "entering dp p ls = size (filter_mset (\<lambda>(s, sp, d, q). d = dp \<and> q = p) ls)"

text \<open>How many links the entry of a port counts.\<close>

definition counted :: "topology \<Rightarrow> datapathid \<Rightarrow> uint16 \<Rightarrow> nat" where
  "counted t dp p =
     (case map_of t dp of None \<Rightarrow> 0 | Some i \<Rightarrow> (case map_of (di_internal i) p of None \<Rightarrow> 0 | Some (q, n) \<Rightarrow> unat n))"

definition info_shape :: "dp_info \<Rightarrow> bool" where
  "info_shape i \<longleftrightarrow> distinct (map fst (di_internal i)) \<and> distinct (map fst (di_outlinks i)) \<and>
     (\<forall>p q n. map_of (di_internal i) p = Some (q, n) \<longrightarrow> n \<noteq> 0)"

definition shape :: "topology \<Rightarrow> bool" where
  "shape t \<longleftrightarrow> distinct (map fst t) \<and> (\<forall>dp i. map_of t dp = Some i \<longrightarrow> info_shape i)"

text \<open>The invariant: every list of links has an element, and every port counts the links that enter it.\<close>

definition topology_ok :: "topology \<Rightarrow> bool" where
  "topology_ok t \<longleftrightarrow> shape t \<and> (\<forall>s d. map_of (get_outlinks t s) d \<noteq> Some []) \<and>
     (\<forall>dp p. counted t dp p = entering dp p (links t))"

lemma sum_list_update:
  fixes f :: "'k \<times> 'v \<Rightarrow> 'm :: comm_monoid_add"
  assumes "distinct (map fst al)"
  shows "sum_list (map f (AList.update k v al)) + (case map_of al k of None \<Rightarrow> 0 | Some w \<Rightarrow> f (k, w)) = sum_list (map f al) + f (k, v)"
  using assms
proof (induction al)
  case (Cons x al)
  obtain k' v' where x: "x = (k', v')" by (cases x)
  show ?case
  proof (cases "k' = k")
    case False
    with Cons show ?thesis by (simp add: x ac_simps)
  qed (simp add: x ac_simps)
qed simp

lemma sum_list_delete:
  fixes f :: "'k \<times> 'v \<Rightarrow> 'm :: comm_monoid_add"
  assumes "distinct (map fst al)"
  shows "sum_list (map f (AList.delete k al)) + (case map_of al k of None \<Rightarrow> 0 | Some w \<Rightarrow> f (k, w)) = sum_list (map f al)"
  using assms
proof (induction al)
  case (Cons x al)
  obtain k' v' where x: "x = (k', v')" by (cases x)
  show ?case
  proof (cases "k' = k")
    case True
    then have "AList.delete k al = al" using Cons.prems x by (simp add: delete_idem)
    with True show ?thesis by (simp add: x ac_simps AList.delete_eq)
  next
    case False
    with Cons show ?thesis by (simp add: x ac_simps AList.delete_eq)
  qed
qed simp

lemmas map_of_alist [simp] = update_conv' delete_conv'

lemma info_shape_DpInfo: "info_shape (DpInfo\<lparr>di_active := b, di_ports := ps\<rparr>)" "info_shape (DpInfo\<lparr>di_active := b\<rparr>)" "info_shape DpInfo"
  by (simp_all add: info_shape_def DpInfo_def)

lemma shape_update: "shape t \<Longrightarrow> info_shape i \<Longrightarrow> shape (AList.update dp i t)"
  by (auto simp: shape_def distinct_update)

lemma shape_delete: "shape t \<Longrightarrow> shape (AList.delete dp t)"
  by (auto simp: shape_def distinct_delete)

lemma get_outlinks_update: "get_outlinks (AList.update dp i t) s = (if s = dp then di_outlinks i else get_outlinks t s)"
  by (simp add: get_outlinks_def)

lemma get_outlinks_delete: "get_outlinks (AList.delete dp t) s = (if s = dp then [] else get_outlinks t s)"
  by (simp add: get_outlinks_def)

lemma counted_update: "counted (AList.update dp i t) d p =
    (if d = dp then case map_of (di_internal i) p of None \<Rightarrow> 0 | Some (q, n) \<Rightarrow> unat n else counted t d p)"
  by (simp add: counted_def)

lemma counted_delete: "counted (AList.delete dp t) d p = (if d = dp then 0 else counted t d p)"
  by (simp add: counted_def)

lemmas topology_view = get_outlinks_update get_outlinks_delete counted_update counted_delete

lemma links_update:
  assumes "shape t"
  shows "links (AList.update dp i t) + info_links (dp, DpInfo\<lparr>di_outlinks := get_outlinks t dp\<rparr>) = links t + info_links (dp, i)"
  using sum_list_update [of t info_links dp i] assms
  by (cases "map_of t dp") (simp_all add: links_def shape_def get_outlinks_def info_links_def [of "(dp, _\<lparr>di_outlinks := _\<rparr>)"], simp_all add: info_links_def)

lemma links_update_same:
  assumes "shape t" and "di_outlinks i = get_outlinks t dp"
  shows "links (AList.update dp i t) = links t"
proof -
  have "info_links (dp, DpInfo\<lparr>di_outlinks := get_outlinks t dp\<rparr>) = info_links (dp, i)" using assms(2) by (simp add: info_links_def)
  with links_update [OF assms(1), of dp i] show ?thesis by simp
qed

lemma links_delete_same:
  assumes "shape t" and "get_outlinks t dp = []"
  shows "links (AList.delete dp t) = links t"
  using sum_list_delete [of t info_links dp] assms
  by (cases "map_of t dp") (simp_all add: links_def shape_def get_outlinks_def info_links_def [of "(dp, _)"])

text \<open>Changes that keep the links and the counters of every port.\<close>

lemma topology_ok_update:
  assumes "topology_ok t" and "info_shape i" and "di_outlinks i = get_outlinks t dp"
    and "\<And>p. (case map_of (di_internal i) p of None \<Rightarrow> 0 | Some (q, n) \<Rightarrow> unat n) = counted t dp p"
  shows "topology_ok (AList.update dp i t) \<and> links (AList.update dp i t) = links t"
proof -
  have t: "shape t" using assms(1) by (simp add: topology_ok_def)
  have c: "counted (AList.update dp i t) d p = counted t d p" for d p using assms(4) by (simp add: counted_update)
  have "get_outlinks (AList.update dp i t) = get_outlinks t" using assms(3) by (auto simp: get_outlinks_update)
  with assms(1) links_update_same [OF t assms(3)] shape_update [OF t assms(2)] show ?thesis by (simp add: topology_ok_def c)
qed

lemma topology_ok_delete:
  assumes "topology_ok t" and "get_outlinks t dp = []" and "\<And>p. counted t dp p = 0"
  shows "topology_ok (AList.delete dp t) \<and> links (AList.delete dp t) = links t"
proof -
  have t: "shape t" using assms(1) by (simp add: topology_ok_def)
  have c: "counted (AList.delete dp t) d p = counted t d p" for d p using assms(3) by (simp add: counted_delete)
  have "get_outlinks (AList.delete dp t) = get_outlinks t" using assms(2) by (auto simp: get_outlinks_delete)
  with assms(1) links_delete_same [OF t assms(2)] shape_delete [OF t] show ?thesis by (simp add: topology_ok_def c)
qed

lemma info_at:
  assumes "topology_ok t" and "map_of t dp = Some i"
  shows "info_shape i" and "di_outlinks i = get_outlinks t dp"
    and "(case map_of (di_internal i) p of None \<Rightarrow> 0 | Some (q, n) \<Rightarrow> unat n) = counted t dp p"
  using assms by (auto simp: topology_ok_def shape_def get_outlinks_def counted_def)

lemma no_info_at:
  assumes "map_of t dp = None"
  shows "get_outlinks t dp = []" and "counted t dp p = 0"
  using assms by (simp_all add: get_outlinks_def counted_def)

lemma port_changes_ok:
  assumes "topology_ok t"
  shows "topology_ok (handle_datapath_join dp ports t) \<and> links (handle_datapath_join dp ports t) = links t"
    and "topology_ok (handle_datapath_leave dp t) \<and> links (handle_datapath_leave dp t) = links t"
    and "topology_ok (topology_port_status dp reason p t) \<and> links (topology_port_status dp reason p t) = links t"
proof -
  have new: "topology_ok (AList.update dp (DpInfo\<lparr>di_active := b, di_ports := ps\<rparr>) t) \<and>
      links (AList.update dp (DpInfo\<lparr>di_active := b, di_ports := ps\<rparr>) t) = links t" if "map_of t dp = None" for b ps
    using no_info_at [OF that] by (intro topology_ok_update [OF assms]) (simp_all add: info_shape_DpInfo, simp_all add: DpInfo_def)
  have old: "topology_ok (AList.update dp i' t) \<and> links (AList.update dp i' t) = links t"
    if "map_of t dp = Some i" "di_internal i' = di_internal i" "di_outlinks i' = di_outlinks i" for i i'
    using info_at [OF assms that(1)] that by (intro topology_ok_update [OF assms]) (simp_all add: info_shape_def)
  show "topology_ok (handle_datapath_join dp ports t) \<and> links (handle_datapath_join dp ports t) = links t"
    using new [where b = True and ps = ports] old by (cases "map_of t dp") (simp_all add: handle_datapath_join_def)
  show "topology_ok (topology_port_status dp reason p t) \<and> links (topology_port_status dp reason p t) = links t"
    using assms new [where b = False and ps = "[p]"] old
    by (cases "map_of t dp") (simp_all add: topology_port_status_def add_port_def delete_port_def)
  show "topology_ok (handle_datapath_leave dp t) \<and> links (handle_datapath_leave dp t) = links t"
  proof (cases "map_of t dp")
    case (Some i)
    from info_at [OF assms Some] have "topology_ok (AList.delete dp t) \<and> links (AList.delete dp t) = links t"
      if "di_internal i = []" "di_outlinks i = []" using that by (intro topology_ok_delete [OF assms]) simp_all
    with Some old [OF Some] show ?thesis by (auto simp: handle_datapath_leave_def)
  qed (simp add: handle_datapath_leave_def assms)
qed

text \<open>A change of the counters of a datapath.\<close>

lemma internal_update:
  assumes "shape t" and "map_of t dp = Some i" and "distinct (map fst m)" and "\<And>p q n. map_of m p = Some (q, n) \<Longrightarrow> n \<noteq> 0"
  shows "shape (AList.update dp (i\<lparr>di_internal := m\<rparr>) t) \<and> links (AList.update dp (i\<lparr>di_internal := m\<rparr>) t) = links t \<and>
    get_outlinks (AList.update dp (i\<lparr>di_internal := m\<rparr>) t) = get_outlinks t \<and>
    counted (AList.update dp (i\<lparr>di_internal := m\<rparr>) t) d p =
      (if d = dp then case map_of m p of None \<Rightarrow> 0 | Some (q, n) \<Rightarrow> unat n else counted t d p)"
proof -
  let ?i = "i\<lparr>di_internal := m\<rparr>"
  have "info_shape i" using assms(1,2) by (simp add: shape_def)
  then have "info_shape ?i" using assms(3,4) by (auto simp: info_shape_def)
  moreover have o: "di_outlinks ?i = get_outlinks t dp" using assms(2) by (simp add: get_outlinks_def)
  ultimately have "shape (AList.update dp ?i t) \<and> links (AList.update dp ?i t) = links t"
    using shape_update [OF assms(1)] links_update_same [OF assms(1)] by blast
  with o show ?thesis by (auto simp: topology_view)
qed

lemma add_internal_ok:
  assumes "shape t" and "counted t dp p < 2 ^ 32 - 1"
  shows "shape (add_internal dp p t) \<and> links (add_internal dp p t) = links t \<and> get_outlinks (add_internal dp p t) = get_outlinks t \<and>
    counted (add_internal dp p t) d q = (if d = dp \<and> q = p then counted t d q + 1 else counted t d q)"
proof (cases "map_of t dp")
  case None
  let ?i = "DpInfo\<lparr>di_active := False, di_internal := [(p, p, 1)]\<rparr>"
  have "info_shape ?i" by (simp add: info_shape_def DpInfo_def)
  moreover have "di_outlinks ?i = get_outlinks t dp" using no_info_at(1) [OF None] by (simp add: DpInfo_def)
  ultimately show ?thesis
    using None no_info_at(2) [OF None] shape_update [OF assms(1)] links_update_same [OF assms(1), of ?i dp]
    by (auto simp: add_internal_def topology_view)
next
  case (Some i)
  then have i: "info_shape i" using assms(1) by (simp add: shape_def)
  show ?thesis
  proof (cases "map_of (di_internal i) p")
    case None
    have "n \<noteq> 0" if "((map_of (di_internal i))(p \<mapsto> (p, 1))) p' = Some (q, n)" for p' q n
      using i that by (auto simp: info_shape_def split: if_splits)
    then show ?thesis
      using Some None i internal_update [OF assms(1) Some, of "AList.update p (p, 1) (di_internal i)" d q]
      by (auto simp: add_internal_def counted_def info_shape_def distinct_update)
  next
    case (Some rn)
    then obtain r n where rn: "map_of (di_internal i) p = Some (r, n)" by (cases rn) auto
    then have c: "counted t dp p = unat n" using \<open>map_of t dp = Some i\<close> by (simp add: counted_def)
    then have "n \<noteq> - 1" using assms(2) by (auto simp: unsigned_minus_1_eq_mask mask_eq_exp_minus_1)
    then have u: "unat (n + 1) = unat n + 1" by (simp add: unat_plus_one)
    then have "n + 1 \<noteq> 0" by (metis add_is_0 unat_0 zero_neq_one)
    then have "n' \<noteq> 0" if "((map_of (di_internal i))(p \<mapsto> (r, n + 1))) p' = Some (q, n')" for p' q n'
      using i that by (auto simp: info_shape_def split: if_splits)
    then show ?thesis
      using \<open>map_of t dp = Some i\<close> rn c u i
        internal_update [OF assms(1) \<open>map_of t dp = Some i\<close>, of "AList.update p (r, n + 1) (di_internal i)" d q]
      by (auto simp: add_internal_def counted_def info_shape_def distinct_update)
  qed
qed

lemma remove_internal_ok:
  assumes "shape t" and "0 < counted t dp p"
  shows "shape (remove_internal dp p t) \<and> links (remove_internal dp p t) = links t \<and>
    get_outlinks (remove_internal dp p t) = get_outlinks t \<and>
    counted (remove_internal dp p t) d q = (if d = dp \<and> q = p then counted t d q - 1 else counted t d q)"
proof -
  from assms(2) obtain i r n where i: "map_of t dp = Some i" "map_of (di_internal i) p = Some (r, n)"
    by (auto simp: counted_def split: option.splits)
  then have shape: "info_shape i" using assms(1) by (simp add: shape_def)
  have c: "counted t dp p = unat n" using i by (simp add: counted_def)
  then have "n \<noteq> 0" using assms(2) by auto
  then have u: "unat (n - 1) = unat n - 1" by (rule unat_minus_one)
  show ?thesis
  proof (cases "n - 1 = 0")
    case True
    let ?m = "AList.delete p (di_internal i)"
    have "distinct (map fst ?m)" "\<And>p' q n. map_of ?m p' = Some (q, n) \<Longrightarrow> n \<noteq> 0"
      using shape by (auto simp: info_shape_def distinct_delete split: if_splits)
    note up = internal_update [OF assms(1) i(1) this, where d = d and p = q]
    have one: "counted t dp p = 1" using True c by simp
    show ?thesis
    proof (cases "unused (i\<lparr>di_internal := ?m\<rparr>)")
      case unused: True
      then have m: "?m = []" "get_outlinks t dp = []" using i(1) by (simp_all add: unused_def get_outlinks_def)
      then have "map_of (di_internal i) q' = None" if "q' \<noteq> p" for q' using delete_conv' [of p "di_internal i"] that by (metis fun_upd_apply map_of.simps(1))
      then show ?thesis
        using unused True i one m links_delete_same [OF assms(1)] shape_delete [OF assms(1)]
        by (auto simp: remove_internal_def topology_view) (auto simp: counted_def)
    next
      case False
      then show ?thesis using True i one up by (auto simp: remove_internal_def) (auto simp: counted_def)
    qed
  next
    case False
    let ?m = "AList.update p (r, n - 1) (di_internal i)"
    have "distinct (map fst ?m)" "\<And>p' q n. map_of ?m p' = Some (q, n) \<Longrightarrow> n \<noteq> 0"
      using shape False by (auto simp: info_shape_def distinct_update split: if_splits)
    note up = internal_update [OF assms(1) i(1) this, where d = d and p = q]
    with False i u show ?thesis by (auto simp: remove_internal_def) (auto simp: counted_def)
  qed
qed

lemma multiset_exchange:
  fixes i i' p n x l :: "'a multiset"
  assumes "i' + p = i + n" and "x + i = l + i'"
  shows "x + p = l + n"
proof -
  have "x + p + i = x + i + p" by (simp only: add.assoc add.commute [of p])
  also have "\<dots> = l + (i' + p)" by (simp only: assms(2) add.assoc)
  also have "\<dots> = l + n + i" by (simp only: assms(1) add.assoc add.commute [of i])
  finally show ?thesis by simp
qed

text \<open>A change of the links of a datapath.\<close>

lemma outlinks_update:
  assumes "shape t" and "info_shape i" and "di_outlinks i = get_outlinks t s"
    and "\<And>p. (case map_of (di_internal i) p of None \<Rightarrow> 0 | Some (q, n) \<Rightarrow> unat n) = counted t s p"
  shows "shape (AList.update s (i\<lparr>di_outlinks := AList.update d ls (di_outlinks i)\<rparr>) t) \<and>
    links (AList.update s (i\<lparr>di_outlinks := AList.update d ls (di_outlinks i)\<rparr>) t) + ports_links s (d, get_outlinks_to t s d) =
      links t + ports_links s (d, ls) \<and>
    counted (AList.update s (i\<lparr>di_outlinks := AList.update d ls (di_outlinks i)\<rparr>) t) dp p = counted t dp p"
proof -
  let ?i = "i\<lparr>di_outlinks := AList.update d ls (di_outlinks i)\<rparr>"
  have shape: "info_shape ?i" using assms(2) by (auto simp: info_shape_def distinct_update)
  have dist: "distinct (map fst (di_outlinks i))" using assms(2) by (simp add: info_shape_def)
  have none: "ports_links s (d, []) = {#}" by (simp add: ports_links_def)
  have old: "get_outlinks_to t s d = (case map_of (di_outlinks i) d of None \<Rightarrow> [] | Some ls \<Rightarrow> ls)"
    by (simp add: assms(3)) (simp add: get_outlinks_to_def get_outlinks_def split: option.split)
  have "info_links (s, ?i) + ports_links s (d, get_outlinks_to t s d) = info_links (s, i) + ports_links s (d, ls)"
    using sum_list_update [OF dist, of "ports_links s" d ls] by (simp add: info_links_def old none split: option.splits)
  moreover have "links (AList.update s ?i t) + info_links (s, i) = links t + info_links (s, ?i)"
    using links_update [OF assms(1), of s ?i] by (simp add: info_links_def assms(3))
  ultimately have "links (AList.update s ?i t) + ports_links s (d, get_outlinks_to t s d) = links t + ports_links s (d, ls)"
    by (rule multiset_exchange)
  then show ?thesis using shape_update [OF assms(1) shape] assms(4) by (simp add: counted_update)
qed

lemma entering_add: "entering dp p (add_mset l ls) =
    (if fst (snd (snd l)) = dp \<and> snd (snd (snd l)) = p then entering dp p ls + 1 else entering dp p ls)"
  by (auto simp: entering_def split: prod.splits)

lemma add_link_ok:
  assumes "topology_ok t" and "size (links t) < 2 ^ 32 - 1"
  shows "topology_ok (add_link le t) \<and> links (add_link le t) = add_mset (link_of le) (links t)"
proof -
  let ?s = "le_dpsrc le" and ?d = "le_dpdst le" and ?lp = "\<lparr>lp_src = le_sport le, lp_dst = le_dport le\<rparr>"
  define i where "i = (case map_of t ?s of None \<Rightarrow> DpInfo\<lparr>di_active := False\<rparr> | Some i \<Rightarrow> i)"
  define t1 where "t1 = AList.update ?s (i\<lparr>di_outlinks := AList.update ?d (get_outlinks_to t ?s ?d @ [?lp]) (di_outlinks i)\<rparr>) t"
  have t: "shape t" using assms(1) by (simp add: topology_ok_def)
  have "info_shape i \<and> di_outlinks i = get_outlinks t ?s \<and>
      (\<forall>p. (case map_of (di_internal i) p of None \<Rightarrow> 0 | Some (q, n) \<Rightarrow> unat n) = counted t ?s p)"
  proof (cases "map_of t ?s")
    case None
    then show ?thesis using no_info_at [OF None] by (simp add: i_def info_shape_DpInfo) (simp add: DpInfo_def)
  next
    case (Some j)
    with info_at [OF assms(1) Some] show ?thesis by (simp add: i_def)
  qed
  then have i: "info_shape i" "di_outlinks i = get_outlinks t ?s"
      "\<And>p. (case map_of (di_internal i) p of None \<Rightarrow> 0 | Some (q, n) \<Rightarrow> unat n) = counted t ?s p" by simp_all
  have "(case map_of (di_outlinks i) ?d of None \<Rightarrow> [] | Some ls \<Rightarrow> ls) = get_outlinks_to t ?s ?d"
    by (simp add: i(2)) (simp add: get_outlinks_to_def get_outlinks_def split: option.split)
  then have al: "add_link le t = add_internal ?d (le_dport le) t1"
    by (simp add: add_link_def t1_def i_def Let_def)
  note t1 = outlinks_update [OF t i, of ?d "get_outlinks_to t ?s ?d @ [?lp]", folded t1_def]
  have l1: "links t1 = add_mset (link_of le) (links t)"
  proof -
    have "links t1 + ports_links ?s (?d, get_outlinks_to t ?s ?d) =
        links t + (ports_links ?s (?d, get_outlinks_to t ?s ?d) + {#link_of le#})"
      using conjunct1 [OF conjunct2 [OF t1]] by (simp add: ports_links_def link_of_def)
    then show ?thesis by simp
  qed
  have "counted t1 ?d (le_dport le) = entering ?d (le_dport le) (links t)" using t1 assms(1) by (simp add: topology_ok_def)
  also have "\<dots> \<le> size (links t)" by (simp add: entering_def size_filter_mset_lesseq)
  finally have "counted t1 ?d (le_dport le) < 2 ^ 32 - 1" using assms(2) by simp
  note t2 = add_internal_ok [OF conjunct1 [OF t1] this, folded al]
  have "counted (add_link le t) dp p = entering dp p (links (add_link le t))" for dp p
    using t1 t2 assms(1) by (simp add: l1 topology_ok_def entering_add link_of_def)
  moreover have "map_of (get_outlinks (add_link le t) s) d \<noteq> Some []" for s d
    using t2 assms(1) i(2) by (auto simp: t1_def topology_view topology_ok_def)
  ultimately show ?thesis using t2 l1 by (auto simp: topology_ok_def)
qed

lemma in_sum_list: "x \<in># sum_list (map f xs) \<longleftrightarrow> (\<exists>y\<in>set xs. x \<in># f y)"
  by (induction xs) auto

lemma in_links:
  assumes "shape t"
  shows "(s, sp, d, dp) \<in># links t \<longleftrightarrow> \<lparr>lp_src = sp, lp_dst = dp\<rparr> \<in> set (get_outlinks_to t s d)"
proof -
  have "(s, sp, d, dp) \<in># ports_links s' x \<longleftrightarrow> s = s' \<and> d = fst x \<and> \<lparr>lp_src = sp, lp_dst = dp\<rparr> \<in> set (snd x)" for s' x
  proof -
    have "\<lparr>lp_src = sp, lp_dst = dp\<rparr> \<in> S \<longleftrightarrow> (\<exists>lp\<in>S. lp_src lp = sp \<and> lp_dst lp = dp)" for S
      by (metis (full_types) link_ports.select_convs(1,2) link_ports.surjective unit.exhaust)
    then show ?thesis by (auto simp: ports_links_def)
  qed
  then have "(s, sp, d, dp) \<in># links t \<longleftrightarrow>
      (\<exists>i ls. (s, i) \<in> set t \<and> (d, ls) \<in> set (di_outlinks i) \<and> \<lparr>lp_src = sp, lp_dst = dp\<rparr> \<in> set ls)"
    by (force simp: links_def info_links_def in_sum_list)
  also have "\<dots> \<longleftrightarrow> (\<exists>i ls. map_of t s = Some i \<and> map_of (di_outlinks i) d = Some ls \<and> \<lparr>lp_src = sp, lp_dst = dp\<rparr> \<in> set ls)"
    using assms by (metis (no_types, lifting) info_shape_def map_of_eq_Some_iff shape_def)
  also have "\<dots> \<longleftrightarrow> \<lparr>lp_src = sp, lp_dst = dp\<rparr> \<in> set (get_outlinks_to t s d)"
    by (cases "map_of t s"; cases "map_of (di_outlinks (the (map_of t s))) d") (simp_all add: get_outlinks_to_def)
  finally show ?thesis .
qed

lemma entering_pos: "(s, sp, d, p) \<in># ls \<Longrightarrow> 0 < entering d p ls"
proof -
  assume "(s, sp, d, p) \<in># ls"
  then have "(s, sp, d, p) \<in># filter_mset (\<lambda>(s, sp, d', q). d' = d \<and> q = p) ls" by simp
  then have "filter_mset (\<lambda>(s, sp, d', q). d' = d \<and> q = p) ls \<noteq> {#}" by (metis empty_iff set_mset_empty)
  then show ?thesis by (simp only: entering_def nonempty_has_size)
qed

text \<open>Dropping an empty list of links, and the datapath with it when nothing is left of it.\<close>

lemma drop_empty_links:
  assumes "shape t" and "map_of t s = Some i" and "map_of (di_outlinks i) d = Some []"
    and "t' = (let j = i\<lparr>di_outlinks := AList.delete d (di_outlinks i)\<rparr> in if unused j then AList.delete s t else AList.update s j t)"
  shows "shape t' \<and> links t' = links t \<and> counted t' dp p = counted t dp p \<and>
    get_outlinks t' s' = (if s' = s then AList.delete d (di_outlinks i) else get_outlinks t s')"
proof -
  let ?j = "i\<lparr>di_outlinks := AList.delete d (di_outlinks i)\<rparr>"
  have i: "info_shape i" "di_outlinks i = get_outlinks t s" using assms(1,2) by (simp_all add: shape_def get_outlinks_def)
  then have "info_links (s, ?j) = info_links (s, i)"
    using sum_list_delete [of "di_outlinks i" "ports_links s" d] assms(3) by (simp add: info_links_def info_shape_def ports_links_def)
  then have up: "links (AList.update s ?j t) = links t"
    using links_update [OF assms(1), of s ?j] i(2) by (simp add: info_links_def)
  have shape: "info_shape ?j" using i(1) by (simp add: info_shape_def distinct_delete)
  have c: "counted (AList.update s ?j t) dp p = counted t dp p" using assms(2) by (simp add: counted_update) (simp add: counted_def)
  show ?thesis
  proof (cases "unused ?j")
    case True
    have "AList.delete s (AList.update s ?j t) = AList.delete s t" by (rule delete_update_same)
    moreover have "links (AList.delete s (AList.update s ?j t)) = links (AList.update s ?j t)"
      using True by (intro links_delete_same shape_update [OF assms(1) shape]) (simp add: unused_def get_outlinks_update)
    ultimately show ?thesis
      using True up c shape_delete [OF assms(1)] by (auto simp: assms(4) Let_def topology_view unused_def split: if_splits)
  next
    case False
    then show ?thesis using up c shape_update [OF assms(1) shape] by (simp add: assms(4) Let_def topology_view)
  qed
qed

lemma get_outlinks_to_Some:
  assumes "x \<in> set (get_outlinks_to t s d)"
  shows "\<exists>i ls. map_of t s = Some i \<and> map_of (di_outlinks i) d = Some ls \<and> x \<in> set ls \<and> get_outlinks_to t s d = ls"
  using assms by (cases "map_of t s"; cases "map_of (di_outlinks (the (map_of t s))) d") (simp_all add: get_outlinks_to_def)

lemma remove_link_ok:
  assumes "topology_ok t"
  shows "\<exists>t'. remove_link le t = Some t' \<and> topology_ok t' \<and> links t' = links t - {#link_of le#}"
proof -
  let ?s = "le_dpsrc le" and ?d = "le_dpdst le" and ?lp = "\<lparr>lp_src = le_sport le, lp_dst = le_dport le\<rparr>"
  have t: "shape t" using assms by (simp add: topology_ok_def)
  have mem: "link_of le \<in># links t \<longleftrightarrow> ?lp \<in> set (get_outlinks_to t ?s ?d)" using in_links [OF t] by (simp add: link_of_def)
  show ?thesis
  proof (cases "?lp \<in> set (get_outlinks_to t ?s ?d)")
    case False
    then have "remove_link le t = Some t" by (auto simp: remove_link_def get_outlinks_to_def split: option.splits)
    then show ?thesis using False mem assms by simp
  next
    case True
    then obtain i ls where i: "map_of t ?s = Some i" "map_of (di_outlinks i) ?d = Some ls" "?lp \<in> set ls" "get_outlinks_to t ?s ?d = ls"
      using get_outlinks_to_Some [OF True] by blast
    define ls' where "ls' = remove1 ?lp ls"
    define t1 where "t1 = AList.update ?s (i\<lparr>di_outlinks := AList.update ?d ls' (di_outlinks i)\<rparr>) t"
    define t2 where "t2 = remove_internal ?d (le_dport le) t1"
    note t1 = outlinks_update [OF t info_at [OF assms i(1)], of ?d ls', folded t1_def, unfolded i(4)]
    have "mset ls = add_mset ?lp (mset ls')" using i(3) by (simp add: ls'_def)
    then have "ports_links ?s (?d, ls) = add_mset (link_of le) (ports_links ?s (?d, ls'))" by (simp add: ports_links_def link_of_def)
    then have l1: "add_mset (link_of le) (links t1) = links t" using conjunct1 [OF conjunct2 [OF t1]] by simp
    have "0 < counted t1 ?d (le_dport le)"
      using t1 assms entering_pos [of ?s "le_sport le" ?d "le_dport le" "links t"] l1
      by (metis link_of_def topology_ok_def union_single_eq_member)
    note t2 = remove_internal_ok [OF conjunct1 [OF t1] this, folded t2_def]
    have cnt: "counted t2 dp p = entering dp p (links t2)" for dp p
    proof -
      have "entering dp p (links t) = entering dp p (links t1) + (if dp = ?d \<and> p = le_dport le then 1 else 0)"
        using entering_add [of dp p "link_of le" "links t1", unfolded l1] by (auto simp: link_of_def)
      moreover have "counted t1 dp p = entering dp p (links t)" using t1 assms by (simp add: topology_ok_def)
      ultimately show ?thesis using t2 [of dp p] by (cases "dp = ?d \<and> p = le_dport le") auto
    qed
    have sh2: "shape t2" using t2 by simp
    have left: "links t2 = links t - {#link_of le#}" using t2 l1 by (metis add_mset_remove_trivial)
    have out1: "get_outlinks t2 s = (if s = ?s then AList.update ?d ls' (get_outlinks t ?s) else get_outlinks t s)" for s
      using t2 i(1) by (simp add: t1_def get_outlinks_update) (simp add: get_outlinks_def)
    have no: "map_of (get_outlinks t s) d \<noteq> Some []" for s d using assms by (simp add: topology_ok_def)
    show ?thesis
    proof (cases "ls' = []")
      case False
      then have "remove_link le t = Some t2" using i by (simp add: remove_link_def Let_def ls'_def t1_def t2_def)
      moreover have "topology_ok t2" using sh2 cnt no False by (simp add: topology_ok_def out1)
      ultimately show ?thesis using left by blast
    next
      case True
      have "get_outlinks t2 ?s \<noteq> []" using out1 [of ?s] by (simp add: update_nonempty)
      then obtain i2 where i2: "map_of t2 ?s = Some i2" "di_outlinks i2 = AList.update ?d [] (get_outlinks t ?s)"
        using out1 [of ?s] True by (cases "map_of t2 ?s") (simp_all add: get_outlinks_def)
      let ?j = "i2\<lparr>di_outlinks := AList.delete ?d (di_outlinks i2)\<rparr>"
      define t3 where "t3 = (let j = ?j in if unused j then AList.delete ?s t2 else AList.update ?s j t2)"
      have "remove_link le t = Some t3" using i i2(1) True by (simp add: remove_link_def Let_def ls'_def t1_def t2_def t3_def)
      moreover have e: "map_of (di_outlinks i2) ?d = Some []" by (simp add: i2(2))
      note t3 = drop_empty_links [OF sh2 i2(1) e t3_def]
      have "topology_ok t3" using t3 cnt no by (simp add: topology_ok_def i2(2) out1)
      moreover have "links t3 = links t - {#link_of le#}" using t3 left by simp
      ultimately show ?thesis by blast
    qed
  qed
qed

lemma entering_iff: "0 < entering d p ls \<longleftrightarrow> (\<exists>s sp. (s, sp, d, p) \<in># ls)"
proof
  assume "0 < entering d p ls"
  then have "filter_mset (\<lambda>(s, sp, d', q). d' = d \<and> q = p) ls \<noteq> {#}" by (simp only: entering_def nonempty_has_size)
  then obtain x where "x \<in># filter_mset (\<lambda>(s, sp, d', q). d' = d \<and> q = p) ls" by blast
  then show "\<exists>s sp. (s, sp, d, p) \<in># ls" by (cases x) auto
qed (auto intro: entering_pos)

lemma is_internal_counted: "shape t \<Longrightarrow> is_internal t dp p \<longleftrightarrow> 0 < counted t dp p"
  by (cases "map_of t dp") (auto simp: shape_def info_shape_def is_internal_def counted_def unat_gt_0 split: option.split)

fun handle_links :: "topology_event \<Rightarrow> link multiset \<Rightarrow> link multiset" where
  "handle_links (Link le) ls = (case le_action le of LINK_ADD \<Rightarrow> add_mset (link_of le) ls | LINK_REMOVE \<Rightarrow> ls - {#link_of le#})"
| "handle_links _ ls = ls"

lemma handle_topology_ok:
  assumes "topology_ok t" and "size (links t) < 2 ^ 32 - 1"
  shows "\<exists>t'. handle_topology e t = Some t' \<and> topology_ok t' \<and> links t' = handle_links e (links t)"
proof (cases e)
  case (Link le)
  then show ?thesis
    using add_link_ok [OF assms, of le] remove_link_ok [OF assms(1), of le]
    by (cases "le_action le") (simp_all add: handle_link_event_def)
qed (use port_changes_ok [OF assms(1)] in simp_all)

definition topology_after :: "topology_event list \<Rightarrow> topology option" where
  "topology_after es = foldl (\<lambda>t e. Option.bind t (handle_topology e)) (Some []) es"

lemma topology_after_ok:
  assumes "length es < 2 ^ 32 - 1"
  shows "\<exists>t. topology_after es = Some t \<and> topology_ok t \<and> links t = foldl (\<lambda>ls e. handle_links e ls) {#} es \<and> size (links t) \<le> length es"
  using assms
proof (induction es rule: rev_induct)
  case Nil
  show ?case by (simp add: topology_after_def topology_ok_def shape_def get_outlinks_def counted_def entering_def links_def)
next
  case (snoc e es)
  then obtain t where t: "topology_after es = Some t" "topology_ok t" "links t = foldl (\<lambda>ls e. handle_links e ls) {#} es"
    "size (links t) \<le> length es" by auto
  then have "size (links t) < 2 ^ 32 - 1" using snoc.prems by simp
  from handle_topology_ok [OF t(2) this, of e] obtain t' where t': "handle_topology e t = Some t'" "topology_ok t'"
    "links t' = handle_links e (links t)" by blast
  have "size (handle_links e ls) \<le> Suc (size ls)" for ls
  proof (cases e)
    case (Link le)
    then show ?thesis using size_mset_mono [of "ls - {#link_of le#}" ls] by (cases "le_action le") auto
  qed simp_all
  from this [of "links t"] have "size (links t') \<le> length (es @ [e])" using t(4) unfolding t'(3) by simp
  with t t' show ?case by (simp add: topology_after_def)
qed

section \<open>Properties\<close>

text \<open>
  C24: whatever events arrive and in whatever order, the topology application does not use an erased entry, and its tables
  implement the multiset of the links that were added and not yet removed: the links between two datapaths are exactly those
  reported, and a port is internal exactly when a link enters it.
\<close>

theorem topology_refines_links:
  assumes "length es < 2 ^ 32 - 1"
  shows "\<exists>t. topology_after es = Some t \<and> links t = foldl (\<lambda>ls e. handle_links e ls) {#} es \<and>
    (\<forall>s sp d dp. \<lparr>lp_src = sp, lp_dst = dp\<rparr> \<in> set (get_outlinks_to t s d) \<longleftrightarrow> (s, sp, d, dp) \<in># links t) \<and>
    (\<forall>d p. is_internal t d p \<longleftrightarrow> (\<exists>s sp. (s, sp, d, p) \<in># links t))"
proof -
  from topology_after_ok [OF assms] obtain t where t: "topology_after es = Some t" "topology_ok t"
    "links t = foldl (\<lambda>ls e. handle_links e ls) {#} es" by blast
  have s: "shape t" using t(2) by (simp add: topology_ok_def)
  have "is_internal t d p \<longleftrightarrow> (\<exists>s sp. (s, sp, d, p) \<in># links t)" for d p
    using t(2) by (simp add: is_internal_counted [OF s] topology_ok_def entering_iff)
  with t in_links [OF s] show ?thesis by blast
qed

theorem topology_refines_links_witness:
  "\<exists>t. topology_after [Link \<lparr>le_dpsrc = 1, le_dpdst = 2, le_sport = 3, le_dport = 4, le_action = LINK_ADD\<rparr>] = Some t \<and>
     is_internal t 2 4 \<and> \<not> is_internal t 1 3"
  using topology_refines_links [of "[Link \<lparr>le_dpsrc = 1, le_dpdst = 2, le_sport = 3, le_dport = 4, le_action = LINK_ADD\<rparr>]"]
  by (auto simp: link_of_def)

text \<open>
  When the last port of a datapath without links that has left, or has not joined, is deleted, its entry stays, and it is
  still listed as a datapath.
\<close>

lemma delete_port_leaves_entry: "get_datapaths (delete_port dp p (add_port dp p [])) = [dp] \<and>
    unused (get_dpinfo (delete_port dp p (add_port dp p [])) dp)"
  by (simp add: get_datapaths_def delete_port_def add_port_def DpInfo_def unused_def get_dpinfo_def)

end
