(* ===== verification/Nox_Routing.thy ===== *)
theory Nox_Routing
  imports Nox_Topology
begin

text \<open>
  Shortest routes between datapaths, \<^verbatim>\<open>src/src/nox/netapps/routing/routing.cc\<close>: the incremental algorithm for all pairs that
  follows the link events.  Routes are shared by pointer in the code but are not changed once they are stored, so they are
  values here; the hash maps are association lists.  Where the code depends on the order of a hash set or of equal elements
  of a heap, the choice is a parameter: any function of what there is to choose from.
\<close>

section \<open>Routes\<close>

record ('d, 'p) hop =
  h_dst :: 'd
  h_outport :: 'p
  h_inport :: 'p

record ('d, 'p) route =
  r_src :: 'd
  r_dst :: 'd
  r_path :: "('d, 'p) hop list"

abbreviation route_id :: "('d, 'p) route \<Rightarrow> 'd \<times> 'd" where
  "route_id r \<equiv> (r_src r, r_dst r)"

abbreviation hops :: "('d, 'p) route \<Rightarrow> nat" where
  "hops r \<equiv> length (r_path r)"

definition routeq :: "('d, 'p) route \<Rightarrow> ('d, 'p) route \<Rightarrow> bool" where
  "routeq a b \<longleftrightarrow> r_src a = r_src b \<and> r_dst a = r_dst b \<and> r_path a = r_path b"

lemma routeq_iff [simp]: "routeq a b \<longleftrightarrow> a = b"
  by (auto simp: routeq_def)

text \<open>Comparison that stops at the first difference, for evaluation.\<close>

lemma equal_hop_code [code]:
  "HOL.equal h h' \<longleftrightarrow> (if h_dst h = h_dst h' then if h_outport h = h_outport h' then
     if h_inport h = h_inport h' then hop.more h = hop.more h' else False else False else False)"
  by (auto simp: equal)

lemma equal_route_code [code]:
  "HOL.equal r r' \<longleftrightarrow> (if r_src r = r_src r' then if r_dst r = r_dst r' then
     if r_path r = r_path r' then route.more r = route.more r' else False else False else False)"
  by (auto simp: equal)

type_synonym ('d, 'p) route_map = "(('d \<times> 'd) \<times> ('d, 'p) route) list"
type_synonym ('d, 'p) routes_map = "(('d \<times> 'd) \<times> ('d, 'p) route list) list"
type_synonym ('d, 'p) extension_map = "(('d, 'p) route \<times> ('d, 'p) route list) list"

record ('d, 'p) routing =
  shortest :: "('d, 'p) route_map"
  local_routes :: "('d, 'p) routes_map"
  left_local :: "('d, 'p) extension_map"
  left_shortest :: "('d, 'p) extension_map"
  right_local :: "('d, 'p) extension_map"
  right_shortest :: "('d, 'p) extension_map"

definition new_routing :: "('d, 'p) routing" where
  "new_routing = \<lparr>shortest = [], local_routes = [], left_local = [], left_shortest = [], right_local = [], right_shortest = []\<rparr>"

section \<open>Queries\<close>

definition get_route :: "'d \<times> 'd \<Rightarrow> ('d, 'p) routing \<Rightarrow> ('d, 'p) route option" where
  "get_route i st =
     (case map_of (shortest st) i of
        Some r \<Rightarrow> Some r
      | None \<Rightarrow> if fst i = snd i then Some \<lparr>r_src = fst i, r_dst = snd i, r_path = []\<rparr> else None)"

definition check_route :: "('d, 'p) route \<Rightarrow> 'p \<Rightarrow> 'p \<Rightarrow> bool" where
  "check_route r inport outport \<longleftrightarrow>
     (if r_path r = [] then inport \<noteq> outport
      else inport \<noteq> h_outport (hd (r_path r)) \<and> outport \<noteq> h_inport (last (r_path r)))"

definition is_on_path_location :: "'d \<times> 'd \<Rightarrow> 'p \<Rightarrow> 'p \<Rightarrow> ('d, 'p) routing \<Rightarrow> bool" where
  "is_on_path_location i src_port dst_port st \<longleftrightarrow>
     fst i \<noteq> snd i \<and>
     (case get_route i st of
        None \<Rightarrow> False
      | Some r \<Rightarrow> h_outport (hd (r_path r)) \<noteq> src_port \<and> h_inport (last (r_path r)) = dst_port)"

section \<open>The maps\<close>

definition found :: "('k \<times> 'v list) list \<Rightarrow> 'k \<Rightarrow> 'v list" where
  "found m k = (case map_of m k of None \<Rightarrow> [] | Some vs \<Rightarrow> vs)"

definition remove_shortest :: "('d, 'p) route \<Rightarrow> ('d, 'p) route_map \<Rightarrow> bool \<times> ('d, 'p) route_map" where
  "remove_shortest r m =
     (case map_of m (route_id r) of
        None \<Rightarrow> (False, m)
      | Some r' \<Rightarrow> if routeq r r' then (True, AList.delete (route_id r) m) else (False, m))"

fun erase_route :: "('d, 'p) route \<Rightarrow> ('d, 'p) route list \<Rightarrow> ('d, 'p) route list option" where
  "erase_route r [] = None"
| "erase_route r (x # xs) = (if routeq r x then Some xs else map_option ((#) x) (erase_route r xs))"

definition remove_from :: "'k \<Rightarrow> ('d, 'p) route \<Rightarrow> ('k \<times> ('d, 'p) route list) list \<Rightarrow> bool \<times> ('k \<times> ('d, 'p) route list) list" where
  "remove_from k r m =
     (case map_of m k of
        None \<Rightarrow> (False, m)
      | Some rs \<Rightarrow>
          (case erase_route r rs of
             None \<Rightarrow> (False, m)
           | Some rs' \<Rightarrow> (True, if rs' = [] then AList.delete k m else AList.update k rs' m)))"

definition remove_local :: "('d, 'p) route \<Rightarrow> ('d, 'p) routes_map \<Rightarrow> bool \<times> ('d, 'p) routes_map" where
  "remove_local r m = remove_from (route_id r) r m"

definition remove_extension :: "('d, 'p) route \<Rightarrow> ('d, 'p) route \<Rightarrow> ('d, 'p) extension_map \<Rightarrow> ('d, 'p) extension_map" where
  "remove_extension r sub m = snd (remove_from sub r m)"

definition add_shortest :: "('d, 'p) route \<Rightarrow> ('d, 'p) route_map \<Rightarrow> ('d, 'p) route_map" where
  "add_shortest r m = AList.update (route_id r) r m"

fun insert_route :: "('d, 'p) route \<Rightarrow> ('d, 'p) route list \<Rightarrow> ('d, 'p) route list" where
  "insert_route r [] = [r]"
| "insert_route r (x # xs) = (if hops x > hops r then r # x # xs else x # insert_route r xs)"

definition add_local :: "('d, 'p) route \<Rightarrow> ('d, 'p) routes_map \<Rightarrow> ('d, 'p) routes_map" where
  "add_local r m =
     AList.update (route_id r) (case map_of m (route_id r) of None \<Rightarrow> [r] | Some rs \<Rightarrow> insert_route r rs) m"

definition add_extension :: "('d, 'p) route \<Rightarrow> ('d, 'p) route \<Rightarrow> ('d, 'p) extension_map \<Rightarrow> ('d, 'p) extension_map" where
  "add_extension r sub m = AList.update sub (case map_of m sub of None \<Rightarrow> [r] | Some rs \<Rightarrow> rs @ [r]) m"

section \<open>Cleaning\<close>

text \<open>\<open>set_subpath r True\<close> is the route without its last hop, \<open>set_subpath r False\<close> without its first.\<close>

definition set_subpath :: "('d, 'p) route \<Rightarrow> bool \<Rightarrow> ('d, 'p) route" where
  "set_subpath r left =
     (if left
      then r\<lparr>r_dst := (if butlast (r_path r) = [] then r_src r else h_dst (last (butlast (r_path r)))), r_path := butlast (r_path r)\<rparr>
      else r\<lparr>r_src := h_dst (hd (r_path r)), r_path := tl (r_path r)\<rparr>)"

abbreviation left_sub :: "('d, 'p) route \<Rightarrow> ('d, 'p) route" where "left_sub r \<equiv> set_subpath r True"
abbreviation right_sub :: "('d, 'p) route \<Rightarrow> ('d, 'p) route" where "right_sub r \<equiv> set_subpath r False"

text \<open>Taking a route out of the extensions of a subpath, also out of the shortest ones when it is one of them.\<close>

definition forget_left :: "('d, 'p) route \<Rightarrow> ('d, 'p) route \<Rightarrow> bool \<Rightarrow> ('d, 'p) routing \<Rightarrow> ('d, 'p) routing" where
  "forget_left r sub is_short st =
     st\<lparr>left_local := remove_extension r sub (left_local st),
       left_shortest := (if is_short then remove_extension r sub (left_shortest st) else left_shortest st)\<rparr>"

definition forget_right :: "('d, 'p) route \<Rightarrow> ('d, 'p) route \<Rightarrow> bool \<Rightarrow> ('d, 'p) routing \<Rightarrow> ('d, 'p) routing" where
  "forget_right r sub is_short st =
     st\<lparr>right_local := remove_extension r sub (right_local st),
       right_shortest := (if is_short then remove_extension r sub (right_shortest st) else right_shortest st)\<rparr>"

definition clean_route :: "('d, 'p) route \<Rightarrow> ('d, 'p) route \<Rightarrow> bool \<Rightarrow> ('d, 'p) routing \<Rightarrow> ('d, 'p) routing" where
  "clean_route r sub cleaned_left st =
     (case remove_local r (local_routes st) of (removed, loc) \<Rightarrow>
        if removed
        then
          (case remove_shortest r (shortest st) of (is_short, sh) \<Rightarrow>
             if cleaned_left
             then forget_right r (sub\<lparr>r_src := r_src r, r_path := hd (r_path r) # r_path sub\<rparr>) is_short
               (st\<lparr>local_routes := loc, shortest := sh\<rparr>)
             else forget_left r (sub\<lparr>r_dst := h_dst (last (r_path r)), r_path := r_path sub @ [last (r_path r)]\<rparr>) is_short
               (st\<lparr>local_routes := loc, shortest := sh\<rparr>))
        else st)"

definition insert_clean :: "('d, 'p) route \<Rightarrow> ('d, 'p) route list \<Rightarrow> ('d, 'p) route list" where
  "insert_clean r to_clean = (if r \<in> set to_clean then to_clean else to_clean @ [r])"

fun clean_subpath :: "('d, 'p) route \<Rightarrow> ('d, 'p) route list \<Rightarrow> bool \<Rightarrow> ('d, 'p) route list \<times> ('d, 'p) routing \<Rightarrow>
    ('d, 'p) route list \<times> ('d, 'p) routing" where
  "clean_subpath sub [] is_left s = s"
| "clean_subpath sub (r # extensions) is_left (to_clean, st) =
     clean_subpath sub extensions is_left (insert_clean r to_clean, clean_route r (set_subpath sub is_left) is_left st)"

text \<open>\<open>pick\<close> makes the choice: the elements are there in some order, and any of them may be the one.\<close>

definition pick :: "('a list \<Rightarrow> nat) \<Rightarrow> 'a list \<Rightarrow> 'a" where
  "pick ch xs = xs ! (ch xs mod length xs)"

definition take_left :: "('d, 'p) route \<Rightarrow> ('d, 'p) routing \<Rightarrow> ('d, 'p) route list \<times> ('d, 'p) routing" where
  "take_left sub st =
     (case map_of (left_local st) sub of
        None \<Rightarrow> ([], st)
      | Some rs \<Rightarrow> (rs, st\<lparr>left_shortest := AList.delete sub (left_shortest st), left_local := AList.delete sub (left_local st)\<rparr>))"

definition take_right :: "('d, 'p) route \<Rightarrow> ('d, 'p) routing \<Rightarrow> ('d, 'p) route list \<times> ('d, 'p) routing" where
  "take_right sub st =
     (case map_of (right_local st) sub of
        None \<Rightarrow> ([], st)
      | Some rs \<Rightarrow> (rs, st\<lparr>right_shortest := AList.delete sub (right_shortest st), right_local := AList.delete sub (right_local st)\<rparr>))"

definition clean_step :: "('d, 'p) route \<Rightarrow> ('d, 'p) route list \<Rightarrow> ('d, 'p) routing \<Rightarrow>
    ('d, 'p) route list \<times> ('d, 'p) routing" where
  "clean_step sub to_clean st =
     (case take_left sub st of (left, st1) \<Rightarrow>
        case take_right sub st1 of (right, st2) \<Rightarrow>
          clean_subpath sub right False (clean_subpath sub left True (to_clean, st2)))"

definition entries :: "('k \<times> 'v list) list \<Rightarrow> nat" where
  "entries m = sum_list (map (\<lambda>(k, vs). length vs) m)"

lemma entries_simps [simp]: "entries [] = 0" "entries ((k, vs) # m) = length vs + entries m"
  by (simp_all add: entries_def)

lemma entries_delete: "entries (AList.delete k m) + length (found m k) \<le> entries m"
proof (induction m)
  case (Cons p m)
  have "entries (AList.delete k m) \<le> entries m" using Cons by simp
  with Cons show ?case by (cases p) (auto simp: found_def)
qed (simp add: found_def)

lemma entries_update: "entries (AList.update k vs m) + length (found m k) = entries m + length vs"
  by (induction m) (auto simp: found_def split: option.splits)

lemma erase_route_length: "erase_route r xs = Some ys \<Longrightarrow> length xs = Suc (length ys)"
  by (induction xs arbitrary: ys) (auto split: if_splits)

lemma entries_remove_extension: "entries (remove_extension r sub m) \<le> entries m"
proof (cases "map_of m sub")
  case (Some rs)
  then have f: "found m sub = rs" by (simp add: found_def)
  show ?thesis
  proof (cases "erase_route r rs")
    case e: (Some rs')
    from entries_update [of sub rs' m] entries_delete [of sub m] erase_route_length [OF e]
    show ?thesis using Some e f by (simp add: remove_extension_def remove_from_def)
  qed (use Some in \<open>simp add: remove_extension_def remove_from_def\<close>)
qed (simp add: remove_extension_def remove_from_def)

lemma entries_clean_route:
  "entries (left_local (clean_route r sub b st)) \<le> entries (left_local st)"
  "entries (right_local (clean_route r sub b st)) \<le> entries (right_local st)"
  using entries_remove_extension by (auto simp: clean_route_def forget_left_def forget_right_def split: prod.splits)

lemma clean_subpath_measure:
  assumes "clean_subpath sub exts b (tc, st) = (tc', st')"
  shows "entries (left_local st') \<le> entries (left_local st)" and "entries (right_local st') \<le> entries (right_local st)"
    and "length tc' \<le> length tc + length exts"
proof -
  have "entries (left_local st') \<le> entries (left_local st) \<and> entries (right_local st') \<le> entries (right_local st) \<and>
      length tc' \<le> length tc + length exts"
    using assms
  proof (induction exts arbitrary: tc st)
    case (Cons r exts)
    then have "clean_subpath sub exts b (insert_clean r tc, clean_route r (set_subpath sub b) b st) = (tc', st')" by simp
    from Cons.IH [OF this] entries_clean_route [of r "set_subpath sub b" b st] show ?case
      by (auto simp: insert_clean_def split: if_splits)
  qed simp
  then show "entries (left_local st') \<le> entries (left_local st)" "entries (right_local st') \<le> entries (right_local st)"
    "length tc' \<le> length tc + length exts" by auto
qed

lemma clean_step_measure:
  assumes "clean_step sub tc st = (tc', st')"
  shows "entries (left_local st') + entries (right_local st') + length tc' \<le> entries (left_local st) + entries (right_local st) + length tc"
proof -
  obtain l st1 where t: "take_left sub st = (l, st1)" by (cases "take_left sub st")
  obtain r st2 where u: "take_right sub st1 = (r, st2)" by (cases "take_right sub st1")
  obtain tc1 st3 where 1: "clean_subpath sub l True (tc, st2) = (tc1, st3)" by (cases "clean_subpath sub l True (tc, st2)")
  then have 2: "clean_subpath sub r False (tc1, st3) = (tc', st')" using assms t u by (simp add: clean_step_def)
  have "entries (left_local st2) + length l \<le> entries (left_local st)"
    using t u entries_delete [of sub "left_local st"] by (auto simp: take_left_def take_right_def found_def split: option.splits)
  moreover have "entries (right_local st2) + length r \<le> entries (right_local st)"
    using t u entries_delete [of sub "right_local st"] by (auto simp: take_left_def take_right_def found_def split: option.splits)
  ultimately show ?thesis using clean_subpath_measure [OF 1] clean_subpath_measure [OF 2] by simp
qed

lemma pick_in: "xs \<noteq> [] \<Longrightarrow> pick ch xs \<in> set xs"
  by (simp add: pick_def)

function clean_loop :: "(('d, 'p) route list \<Rightarrow> nat) \<Rightarrow> ('d, 'p) route \<Rightarrow> ('d, 'p) route list \<Rightarrow> ('d, 'p) routing \<Rightarrow>
    ('d, 'p) routing" where
  "clean_loop first sub to_clean st =
     (case clean_step sub to_clean st of (tc, st1) \<Rightarrow>
        if tc = [] then st1 else clean_loop first (pick first tc) (remove1 (pick first tc) tc) st1)"
  by pat_completeness auto
termination
proof (relation "measure (\<lambda>(first, sub, tc, st). entries (left_local st) + entries (right_local st) + length tc)", goal_cases)
  case (2 first sub tc st tc1 st1)
  then have "length (remove1 (pick first tc1) tc1) < length tc1"
    using pick_in [of tc1 first] by (simp add: length_remove1)
  with 2 clean_step_measure [of sub tc st tc1 st1] show ?case by simp
qed simp

declare clean_loop.simps [simp del]

definition cleanup :: "(('d, 'p) route list \<Rightarrow> nat) \<Rightarrow> ('d, 'p) route \<Rightarrow> bool \<Rightarrow> ('d, 'p) routing \<Rightarrow> ('d, 'p) routing" where
  "cleanup first r delete_route st =
     (case remove_shortest r (shortest st) of (is_short, sh) \<Rightarrow>
        clean_loop first r []
          (st\<lparr>shortest := sh,
            local_routes := (if delete_route then snd (remove_local r (local_routes st)) else local_routes st),
            right_local := (if delete_route then remove_extension r (left_sub r) (right_local st) else right_local st),
            right_shortest := (if is_short then remove_extension r (left_sub r) (right_shortest st) else right_shortest st),
            left_local := (if delete_route then remove_extension r (right_sub r) (left_local st) else left_local st),
            left_shortest := (if is_short then remove_extension r (right_sub r) (left_shortest st) else left_shortest st)\<rparr>))"

section \<open>New routes\<close>

text \<open>The queue of candidates is the list of what was pushed; its top is one of the shortest.\<close>

definition queue_top :: "(('d, 'p) route list \<Rightarrow> nat) \<Rightarrow> ('d, 'p) route list \<Rightarrow> ('d, 'p) route" where
  "queue_top ch q = (let n = min_list (map hops q) in pick ch (filter (\<lambda>r. hops r = n) q))"

definition add_new_local :: "('d, 'p) route \<Rightarrow> ('d, 'p) route \<Rightarrow> ('d, 'p) route \<Rightarrow> ('d, 'p) route list \<times> ('d, 'p) routing \<Rightarrow>
    ('d, 'p) route list \<times> ('d, 'p) routing" where
  "add_new_local new_local right left s =
     (case s of (q, st) \<Rightarrow>
        (q @ [new_local], st\<lparr>local_routes := add_local new_local (local_routes st),
          left_local := add_extension new_local right (left_local st), right_local := add_extension new_local left (right_local st)\<rparr>))"

definition extend_left :: "('d, 'p) route \<Rightarrow> ('d, 'p) route \<Rightarrow> ('d, 'p) route" where
  "extend_left x r = r\<lparr>r_src := r_src x, r_path := hd (r_path x) # r_path r\<rparr>"

definition extend_right :: "('d, 'p) route \<Rightarrow> ('d, 'p) route \<Rightarrow> ('d, 'p) route" where
  "extend_right r x = r\<lparr>r_dst := r_dst x, r_path := r_path r @ [last (r_path x)]\<rparr>"

fun add_left_extensions :: "('d, 'p) route \<Rightarrow> ('d, 'p) route list \<Rightarrow> ('d, 'p) route list \<times> ('d, 'p) routing \<Rightarrow>
    ('d, 'p) route list \<times> ('d, 'p) routing" where
  "add_left_extensions r [] s = s"
| "add_left_extensions r (x # xs) s = add_left_extensions r xs (add_new_local (extend_left x r) r x s)"

fun add_right_extensions :: "('d, 'p) route \<Rightarrow> ('d, 'p) route list \<Rightarrow> ('d, 'p) route list \<times> ('d, 'p) routing \<Rightarrow>
    ('d, 'p) route list \<times> ('d, 'p) routing" where
  "add_right_extensions r [] s = s"
| "add_right_extensions r (x # xs) s = add_right_extensions r xs (add_new_local (extend_right r x) x r s)"

definition add_local_routes :: "('d, 'p) route \<Rightarrow> ('d, 'p) route \<Rightarrow> ('d, 'p) route \<Rightarrow> ('d, 'p) route list \<times> ('d, 'p) routing \<Rightarrow>
    ('d, 'p) route list \<times> ('d, 'p) routing" where
  "add_local_routes r left_subpath right_subpath s =
     add_right_extensions r (found (right_shortest (snd s)) right_subpath)
       (add_left_extensions r (found (left_shortest (snd s)) left_subpath) s)"

definition establish :: "('d, 'p) route \<Rightarrow> ('d, 'p) route list \<times> ('d, 'p) routing \<Rightarrow> ('d, 'p) route list \<times> ('d, 'p) routing" where
  "establish r s =
     (case s of (q, st) \<Rightarrow>
        add_local_routes r (left_sub r) (right_sub r)
          (q, st\<lparr>shortest := add_shortest r (shortest st), left_shortest := add_extension r (right_sub r) (left_shortest st),
            right_shortest := add_extension r (left_sub r) (right_shortest st)\<rparr>))"

partial_function (option) fixup_loop :: "(('d, 'p) route list \<Rightarrow> nat) \<Rightarrow> (('d, 'p) route list \<Rightarrow> nat) \<Rightarrow>
    ('d, 'p) route list \<times> ('d, 'p) routing \<Rightarrow> ('d, 'p) routing option" where
  "fixup_loop first ch s =
     (case s of (q, st) \<Rightarrow>
        if q = [] then Some st
        else
          (let r = queue_top ch q; q' = remove1 r q in
           case map_of (shortest st) (route_id r) of
             Some old \<Rightarrow>
               if hops old \<le> hops r then fixup_loop first ch (q', st)
               else fixup_loop first ch (establish r (q', cleanup first old False st))
           | None \<Rightarrow>
               if r_src r = r_dst r then fixup_loop first ch (q', st)
               else fixup_loop first ch (establish r (q', st))))"

declare fixup_loop.simps [code]

definition fixup :: "(('d, 'p) route list \<Rightarrow> nat) \<Rightarrow> (('d, 'p) route list \<Rightarrow> nat) \<Rightarrow> ('d, 'p) route list \<Rightarrow> bool \<Rightarrow>
    ('d, 'p) routing \<Rightarrow> ('d, 'p) routing option" where
  "fixup first ch new_candidates add_least st =
     fixup_loop first ch (new_candidates @ (if add_least then map (\<lambda>(i, rs). hd rs) (local_routes st) else []), st)"

text \<open>A link event: the source and the destination of the link, the ports, and what happened.\<close>

definition link_route :: "'d \<Rightarrow> 'd \<Rightarrow> 'p \<Rightarrow> 'p \<Rightarrow> ('d, 'p) route" where
  "link_route src dst sport dport =
     \<lparr>r_src = src, r_dst = dst, r_path = [\<lparr>h_dst = dst, h_outport = sport, h_inport = dport\<rparr>]\<rparr>"

definition link_change :: "(('d, 'p) route list \<Rightarrow> nat) \<Rightarrow> (('d, 'p) route list \<Rightarrow> nat) \<Rightarrow> link_action \<Rightarrow> ('d, 'p) route \<Rightarrow>
    ('d, 'p) routing \<Rightarrow> ('d, 'p) routing option" where
  "link_change first ch action r st =
     (case action of
        LINK_REMOVE \<Rightarrow> fixup first ch [] True (cleanup first r True st)
      | LINK_ADD \<Rightarrow>
          fixup first ch [r] False
            (st\<lparr>local_routes := add_local r (local_routes st),
               left_local := add_extension r \<lparr>r_src = r_dst r, r_dst = r_dst r, r_path = []\<rparr> (left_local st),
               right_local := add_extension r \<lparr>r_src = r_src r, r_dst = r_src r, r_path = []\<rparr> (right_local st)\<rparr>))"

definition handle_link_change :: "((datapathid, uint16) route list \<Rightarrow> nat) \<Rightarrow> ((datapathid, uint16) route list \<Rightarrow> nat) \<Rightarrow>
    link_event \<Rightarrow> (datapathid, uint16) routing \<Rightarrow> (datapathid, uint16) routing option" where
  "handle_link_change first ch le =
     link_change first ch (le_action le) (link_route (le_dpsrc le) (le_dpdst le) (le_sport le) (le_dport le))"

section \<open>Routes are paths of links\<close>

text \<open>A link is a datapath and a hop from it.  The links of a route, from its source on:\<close>

fun steps :: "'d \<Rightarrow> ('d, 'p) hop list \<Rightarrow> ('d \<times> ('d, 'p) hop) list" where
  "steps u [] = []"
| "steps u (h # hs) = (u, h) # steps (h_dst h) hs"

definition ok_route :: "('d \<times> ('d, 'p) hop) set \<Rightarrow> ('d, 'p) route \<Rightarrow> bool" where
  "ok_route E r \<longleftrightarrow> r_path r \<noteq> [] \<and> r_dst r = h_dst (last (r_path r)) \<and> set (steps (r_src r) (r_path r)) \<subseteq> E"

definition all_entries :: "('k \<Rightarrow> 'v \<Rightarrow> bool) \<Rightarrow> ('k \<times> 'v list) list \<Rightarrow> bool" where
  "all_entries P m \<longleftrightarrow> (\<forall>(k, vs) \<in> set m. \<forall>v \<in> set vs. P k v)"

definition all_nonempty :: "('k \<times> 'v list) list \<Rightarrow> bool" where
  "all_nonempty m \<longleftrightarrow> (\<forall>(k, vs) \<in> set m. vs \<noteq> [])"

text \<open>
  The maps hold paths of links under the right keys: a route by its ends, an extension by the subpath that it extends.
\<close>

definition routing_inv :: "('d \<times> ('d, 'p) hop) set \<Rightarrow> ('d, 'p) routing \<Rightarrow> bool" where
  "routing_inv E st \<longleftrightarrow>
     (\<forall>(i, r) \<in> set (shortest st). ok_route E r \<and> route_id r = i \<and> r_src r \<noteq> r_dst r) \<and>
     all_nonempty (local_routes st) \<and>
     all_entries (\<lambda>i r. ok_route E r \<and> route_id r = i) (local_routes st) \<and>
     all_entries (\<lambda>s r. ok_route E r \<and> right_sub r = s) (left_local st) \<and>
     all_entries (\<lambda>s r. ok_route E r \<and> right_sub r = s) (left_shortest st) \<and>
     all_entries (\<lambda>s r. ok_route E r \<and> left_sub r = s) (right_local st) \<and>
     all_entries (\<lambda>s r. ok_route E r \<and> left_sub r = s) (right_shortest st)"

named_theorems routing_maps \<open>what the operations on the maps keep\<close>

lemma set_delete: "set (AList.delete k m) = {p \<in> set m. fst p \<noteq> k}"
  by (auto simp: AList.delete_eq)

lemma set_update: "set (AList.update k v m) \<subseteq> insert (k, v) (set m)"
  by (induction m) auto

lemma erase_route_set: "erase_route r xs = Some ys \<Longrightarrow> set ys \<subseteq> set xs"
  by (induction xs arbitrary: ys) (auto split: if_splits)

lemma all_entries_delete [routing_maps]: "all_entries P m \<Longrightarrow> all_entries P (AList.delete k m)"
  by (auto simp: all_entries_def set_delete)

lemma all_entries_update:
  assumes "all_entries P m" and "\<And>v. v \<in> set vs \<Longrightarrow> P k v"
  shows "all_entries P (AList.update k vs m)"
  using assms set_update [of k vs m] by (fastforce simp: all_entries_def)

lemma all_entries_found: "all_entries P m \<Longrightarrow> v \<in> set (found m k) \<Longrightarrow> P k v"
  by (cases "map_of m k") (auto simp: all_entries_def found_def dest: map_of_SomeD)

lemma all_entries_remove [routing_maps]:
  assumes "all_entries P m"
  shows "all_entries P (snd (remove_from k r m))"
proof (cases "map_of m k")
  case (Some rs)
  then have P: "v \<in> set rs \<Longrightarrow> P k v" for v using all_entries_found [OF assms, of v k] by (simp add: found_def)
  show ?thesis
  proof (cases "erase_route r rs")
    case e: (Some rs')
    have "all_entries P (AList.update k rs' m)"
      by (rule all_entries_update [OF assms]) (use P erase_route_set [OF e] in blast)
    then show ?thesis using Some e all_entries_delete [OF assms] by (simp add: remove_from_def)
  qed (use Some assms in \<open>simp add: remove_from_def\<close>)
qed (use assms in \<open>simp add: remove_from_def\<close>)

lemma all_entries_remove_extension [routing_maps]: "all_entries P m \<Longrightarrow> all_entries P (remove_extension r sub m)"
  by (simp add: remove_extension_def all_entries_remove)

lemma all_entries_remove_local [routing_maps]: "all_entries P m \<Longrightarrow> all_entries P (snd (remove_local r m))"
  by (simp add: remove_local_def all_entries_remove)

lemma all_entries_add_extension:
  assumes "all_entries P m" and "P sub r"
  shows "all_entries P (add_extension r sub m)"
  unfolding add_extension_def
proof (rule all_entries_update [OF assms(1)])
  fix v assume "v \<in> set (case map_of m sub of None \<Rightarrow> [r] | Some rs \<Rightarrow> rs @ [r])"
  then have "v = r \<or> v \<in> set (found m sub)" by (auto simp: found_def split: option.splits)
  then show "P sub v" using assms all_entries_found [OF assms(1)] by blast
qed

lemma set_insert_route [simp]: "set (insert_route r xs) = insert r (set xs)"
  by (induction xs) auto

lemma insert_route_nonempty [simp]: "insert_route r xs \<noteq> []"
  by (cases xs) auto

lemma all_entries_add_local:
  assumes "all_entries P m" and "P (route_id r) r"
  shows "all_entries P (add_local r m)"
  unfolding add_local_def
proof (rule all_entries_update [OF assms(1)])
  fix v assume "v \<in> set (case map_of m (route_id r) of None \<Rightarrow> [r] | Some rs \<Rightarrow> insert_route r rs)"
  then have "v = r \<or> v \<in> set (found m (route_id r))" by (auto simp: found_def split: option.splits)
  then show "P (route_id r) v" using assms all_entries_found [OF assms(1)] by blast
qed

lemma all_nonempty_update:
  assumes "all_nonempty m" and "vs \<noteq> []"
  shows "all_nonempty (AList.update k vs m)"
  using assms set_update [of k vs m] by (fastforce simp: all_nonempty_def)

lemma nonempty_remove_local [routing_maps]:
  assumes "all_nonempty m"
  shows "all_nonempty (snd (remove_local r m))"
proof -
  have "all_nonempty (AList.delete (route_id r) m)" using assms by (auto simp: all_nonempty_def set_delete)
  with assms show ?thesis
    by (auto simp: remove_local_def remove_from_def all_nonempty_update split: option.splits)
qed

lemma nonempty_add_local: "all_nonempty m \<Longrightarrow> all_nonempty (add_local r m)"
  unfolding add_local_def by (rule all_nonempty_update) (auto split: option.splits)

lemma remove_shortest_set: "set (snd (remove_shortest r m)) \<subseteq> set m"
  by (auto simp: remove_shortest_def set_delete split: option.splits)

text \<open>Cleaning only takes routes out of the maps, so it keeps the invariant.\<close>

lemma inv_clean_route:
  assumes "routing_inv E st"
  shows "routing_inv E (clean_route r sub b st)"
proof -
  obtain removed loc where l: "remove_local r (local_routes st) = (removed, loc)" by (cases "remove_local r (local_routes st)")
  obtain is_short sh where h: "remove_shortest r (shortest st) = (is_short, sh)" by (cases "remove_shortest r (shortest st)")
  have "set sh \<subseteq> set (shortest st)" using remove_shortest_set [of r "shortest st"] h by simp
  moreover have "all_nonempty loc" "all_entries (\<lambda>i r. ok_route E r \<and> route_id r = i) loc"
    using assms nonempty_remove_local [of "local_routes st" r] all_entries_remove_local [of _ "local_routes st" r] l
    by (auto simp: routing_inv_def)
  ultimately show ?thesis
    using assms unfolding routing_inv_def clean_route_def forget_left_def forget_right_def l h
    by (auto intro: routing_maps)
qed

lemma inv_clean_subpath:
  assumes "routing_inv E st" and "clean_subpath sub exts b (tc, st) = (tc', st')"
  shows "routing_inv E st'"
  using assms by (induction exts arbitrary: tc st) (auto dest: inv_clean_route)

lemma inv_take:
  assumes "routing_inv E st"
  shows "routing_inv E (snd (take_left sub st))" and "routing_inv E (snd (take_right sub st))"
  using assms by (auto simp: routing_inv_def take_left_def take_right_def intro: routing_maps split: option.splits)

lemma inv_clean_step:
  assumes "routing_inv E st" and "clean_step sub tc st = (tc', st')"
  shows "routing_inv E st'"
proof -
  obtain l st1 where t: "take_left sub st = (l, st1)" by (cases "take_left sub st")
  obtain r st2 where u: "take_right sub st1 = (r, st2)" by (cases "take_right sub st1")
  obtain tc1 st3 where 1: "clean_subpath sub l True (tc, st2) = (tc1, st3)" by (cases "clean_subpath sub l True (tc, st2)")
  then have 2: "clean_subpath sub r False (tc1, st3) = (tc', st')" using assms t u by (simp add: clean_step_def)
  have "routing_inv E st1" using inv_take(1) [OF assms(1), of sub] t by simp
  then have "routing_inv E st2" using inv_take(2) [of E st1 sub] u by simp
  from inv_clean_subpath [OF inv_clean_subpath [OF this 1] 2] show ?thesis .
qed

lemma inv_clean_loop: "routing_inv E st \<Longrightarrow> routing_inv E (clean_loop first sub tc st)"
proof (induction first sub tc st rule: clean_loop.induct)
  case (1 first sub tc st)
  obtain tc1 st1 where s: "clean_step sub tc st = (tc1, st1)" by (cases "clean_step sub tc st")
  have "routing_inv E st1" by (rule inv_clean_step [OF 1(2) s])
  then show ?case using 1(1) [OF s [symmetric]] s by (subst clean_loop.simps) simp
qed

lemma inv_cleanup:
  assumes "routing_inv E st"
  shows "routing_inv E (cleanup first r d st)"
proof -
  obtain is_short sh where h: "remove_shortest r (shortest st) = (is_short, sh)" by (cases "remove_shortest r (shortest st)")
  have "set sh \<subseteq> set (shortest st)" using remove_shortest_set [of r "shortest st"] h by simp
  then show ?thesis
    using assms unfolding cleanup_def h prod.case by (intro inv_clean_loop) (auto simp: routing_inv_def intro: routing_maps)
qed

text \<open>A new route is made of two routes that overlap in all but their outer hops; they are its subpaths.\<close>

lemma extend_left_sub:
  assumes "ok_route E r" and "ok_route E x" and "right_sub x = left_sub r"
  shows "ok_route E (extend_left x r)" and "right_sub (extend_left x r) = r" and "left_sub (extend_left x r) = x"
proof -
  obtain h hs where x: "r_path x = h # hs" using assms(2) by (cases "r_path x") (auto simp: ok_route_def)
  have r: "r_path r \<noteq> []" "r_dst r = h_dst (last (r_path r))" using assms(1) by (auto simp: ok_route_def)
  have e: "h_dst h = r_src r" "hs = butlast (r_path r)"
    "r_dst x = (if butlast (r_path r) = [] then r_src r else h_dst (last (butlast (r_path r))))"
    using arg_cong [OF assms(3), of r_src] arg_cong [OF assms(3), of r_path] arg_cong [OF assms(3), of r_dst] x
    by (simp_all add: set_subpath_def)
  show "ok_route E (extend_left x r)"
    using assms(1,2) x r e(1) by (simp add: ok_route_def extend_left_def)
  show "right_sub (extend_left x r) = r" using x e(1) by (simp add: set_subpath_def extend_left_def)
  have "r_dst x = h_dst (last (h # butlast (r_path r)))" using e by (simp split: if_splits)
  then show "left_sub (extend_left x r) = x" using x r(1) e by (simp add: set_subpath_def extend_left_def)
qed

lemma steps_append: "steps u (hs @ [h]) = steps u hs @ [(if hs = [] then u else h_dst (last hs), h)]"
  by (induction hs arbitrary: u) auto

lemma extend_right_sub:
  assumes "ok_route E r" and "ok_route E x" and "left_sub x = right_sub r"
  shows "ok_route E (extend_right r x)" and "left_sub (extend_right r x) = r" and "right_sub (extend_right r x) = x"
proof -
  obtain hs h where x: "r_path x = hs @ [h]" using assms(2) by (cases "r_path x" rule: rev_cases) (auto simp: ok_route_def)
  obtain g gs where r: "r_path r = g # gs" using assms(1) by (cases "r_path r") (auto simp: ok_route_def)
  have d: "r_dst r = h_dst (last (r_path r))" "r_dst x = h_dst h" using assms(1,2) x by (auto simp: ok_route_def)
  have e: "r_src x = h_dst g" "hs = gs" "(if hs = [] then r_src x else h_dst (last hs)) = r_dst r"
    using arg_cong [OF assms(3), of r_src] arg_cong [OF assms(3), of r_path] arg_cong [OF assms(3), of r_dst] x r
    by (simp_all add: set_subpath_def split: if_splits)
  have "(r_dst r, h) \<in> E" using assms(2) x e(3) by (simp add: ok_route_def steps_append)
  then show "ok_route E (extend_right r x)"
    using assms(1) x d r by (simp add: ok_route_def extend_right_def) (use steps_append [of "h_dst g" gs h] in auto)
  show "left_sub (extend_right r x) = r"
    using x r d(1) by (simp add: set_subpath_def extend_right_def butlast_append)
  show "right_sub (extend_right r x) = x" using x r e by (simp add: set_subpath_def extend_right_def)
qed

text \<open>What a step of the search adds: routes of one more hop at the end of the queue, and nothing to the shortest routes.\<close>

definition adds :: "('d \<times> ('d, 'p) hop) set \<Rightarrow> nat \<Rightarrow> ('d, 'p) route list \<times> ('d, 'p) routing \<Rightarrow>
    ('d, 'p) route list \<times> ('d, 'p) routing \<Rightarrow> bool" where
  "adds E n s s' \<longleftrightarrow>
     (routing_inv E (snd s) \<longrightarrow> routing_inv E (snd s')) \<and> shortest (snd s') = shortest (snd s) \<and>
     left_shortest (snd s') = left_shortest (snd s) \<and> right_shortest (snd s') = right_shortest (snd s) \<and>
     (\<exists>new. fst s' = fst s @ new \<and> (\<forall>r \<in> set new. ok_route E r \<and> hops r = n))"

lemma adds_refl: "adds E n s s"
  by (simp add: adds_def)

lemma adds_trans: "adds E n s1 s2 \<Longrightarrow> adds E n s2 s3 \<Longrightarrow> adds E n s1 s3"
  unfolding adds_def by (intro conjI) (auto simp: ball_Un)

lemma adds_new_local:
  assumes "ok_route E n" and "right_sub n = a" and "left_sub n = b"
  shows "adds E (hops n) s (add_new_local n a b s)"
proof -
  obtain q st where s: "s = (q, st)" by (cases s)
  have "routing_inv E (snd (add_new_local n a b s))" if "routing_inv E st"
    using that assms unfolding routing_inv_def add_new_local_def s
    by (auto intro!: all_entries_add_local all_entries_add_extension nonempty_add_local)
  then show ?thesis using assms(1) by (simp add: adds_def s add_new_local_def)
qed

lemma adds_left_extensions:
  assumes "ok_route E r" and "\<And>x. x \<in> set xs \<Longrightarrow> ok_route E x \<and> right_sub x = left_sub r"
  shows "adds E (Suc (hops r)) s (add_left_extensions r xs s)"
  using assms(2)
proof (induction xs arbitrary: s)
  case (Cons x xs)
  then have x: "ok_route E x" "right_sub x = left_sub r" by auto
  from extend_left_sub [OF assms(1) x] have "adds E (hops (extend_left x r)) s (add_new_local (extend_left x r) r x s)"
    by (intro adds_new_local)
  then have "adds E (Suc (hops r)) s (add_new_local (extend_left x r) r x s)" by (simp add: extend_left_def)
  from adds_trans [OF this Cons.IH] Cons.prems show ?case by simp
qed (simp add: adds_refl)

lemma adds_right_extensions:
  assumes "ok_route E r" and "\<And>x. x \<in> set xs \<Longrightarrow> ok_route E x \<and> left_sub x = right_sub r"
  shows "adds E (Suc (hops r)) s (add_right_extensions r xs s)"
  using assms(2)
proof (induction xs arbitrary: s)
  case (Cons x xs)
  then have x: "ok_route E x" "left_sub x = right_sub r" by auto
  from extend_right_sub [OF assms(1) x] have "adds E (hops (extend_right r x)) s (add_new_local (extend_right r x) x r s)"
    by (intro adds_new_local)
  then have "adds E (Suc (hops r)) s (add_new_local (extend_right r x) x r s)" by (simp add: extend_right_def)
  from adds_trans [OF this Cons.IH] Cons.prems show ?case by simp
qed (simp add: adds_refl)

lemma inv_establish:
  assumes "routing_inv E st" and "ok_route E r" and "r_src r \<noteq> r_dst r" and "establish r (q, st) = (q', st')"
  shows "routing_inv E st'" and "shortest st' = add_shortest r (shortest st)"
    and "\<exists>new. q' = q @ new \<and> (\<forall>x \<in> set new. ok_route E x \<and> hops x = Suc (hops r))"
proof -
  let ?st = "st\<lparr>shortest := add_shortest r (shortest st), left_shortest := add_extension r (right_sub r) (left_shortest st),
    right_shortest := add_extension r (left_sub r) (right_shortest st)\<rparr>"
  let ?ls = "found (left_shortest ?st) (left_sub r)" and ?rs = "found (right_shortest ?st) (right_sub r)"
  have inv: "routing_inv E ?st"
    using assms(1-3) set_update [of "route_id r" r "shortest st"] unfolding routing_inv_def add_shortest_def
    by (auto intro!: all_entries_add_extension)
  have L: "all_entries (\<lambda>s r. ok_route E r \<and> right_sub r = s) (left_shortest ?st)"
    and R: "all_entries (\<lambda>s r. ok_route E r \<and> left_sub r = s) (right_shortest ?st)"
    using inv unfolding routing_inv_def by blast+
  have l: "ok_route E x \<and> right_sub x = left_sub r" if "x \<in> set ?ls" for x by (rule all_entries_found [OF L that])
  have rr: "ok_route E x \<and> left_sub x = right_sub r" if "x \<in> set ?rs" for x by (rule all_entries_found [OF R that])
  let ?s1 = "add_left_extensions r ?ls (q, ?st)"
  have "adds E (Suc (hops r)) (q, ?st) (add_right_extensions r ?rs ?s1)"
    by (rule adds_trans [OF adds_left_extensions [OF assms(2) l] adds_right_extensions [OF assms(2) rr]])
  moreover have "establish r (q, st) = add_right_extensions r ?rs ?s1"
    by (simp add: establish_def add_local_routes_def)
  ultimately have a: "adds E (Suc (hops r)) (q, ?st) (q', st')" using assms(4) by simp
  then show "routing_inv E st'" "shortest st' = add_shortest r (shortest st)"
    "\<exists>new. q' = q @ new \<and> (\<forall>x \<in> set new. ok_route E x \<and> hops x = Suc (hops r))"
    using inv by (auto simp: adds_def)
qed

text \<open>Cleaning up a route keeps the shortest routes that have fewer hops.\<close>

lemma clean_route_keeps:
  assumes "map_of (shortest st) p = Some x" and "x \<noteq> r"
  shows "map_of (shortest (clean_route r sub b st)) p = Some x"
proof -
  have "map_of (snd (remove_shortest r (shortest st))) p = Some x"
    using assms by (auto simp: remove_shortest_def AList.delete_conv' split: option.splits)
  then show ?thesis using assms(1)
    by (auto simp: clean_route_def forget_left_def forget_right_def split: prod.splits)
qed

lemma clean_subpath_keeps:
  assumes "map_of (shortest st) p = Some x" and "\<And>r. r \<in> set exts \<Longrightarrow> x \<noteq> r" and "clean_subpath sub exts b (tc, st) = (tc', st')"
  shows "map_of (shortest st') p = Some x \<and> set tc' = set tc \<union> set exts"
  using assms
proof (induction exts arbitrary: tc st)
  case (Cons r exts)
  let ?st = "clean_route r (set_subpath sub b) b st"
  have "map_of (shortest ?st) p = Some x" using Cons.prems(1,2) by (intro clean_route_keeps) auto
  moreover have "clean_subpath sub exts b (insert_clean r tc, ?st) = (tc', st')" using Cons.prems(3) by simp
  ultimately have "map_of (shortest st') p = Some x \<and> set tc' = set (insert_clean r tc) \<union> set exts"
    using Cons.prems(2) by (intro Cons.IH) auto
  then show ?case by (auto simp: insert_clean_def)
qed simp

lemma hops_sub: "ok_route E r \<Longrightarrow> hops r = Suc (hops (set_subpath r b))"
  by (cases "r_path r") (auto simp: ok_route_def set_subpath_def)

lemma clean_step_keeps:
  assumes "routing_inv E st" and "map_of (shortest st) p = Some x" and "hops x \<le> hops sub" and "clean_step sub tc st = (tc', st')"
  shows "map_of (shortest st') p = Some x \<and> (\<forall>r \<in> set tc'. r \<in> set tc \<or> hops sub < hops r)"
proof -
  obtain l st1 where t: "take_left sub st = (l, st1)" by (cases "take_left sub st")
  obtain r st2 where u: "take_right sub st1 = (r, st2)" by (cases "take_right sub st1")
  obtain tc1 st3 where 1: "clean_subpath sub l True (tc, st2) = (tc1, st3)" by (cases "clean_subpath sub l True (tc, st2)")
  then have 2: "clean_subpath sub r False (tc1, st3) = (tc', st')" using assms t u by (simp add: clean_step_def)
  have "set l = set (found (left_local st) sub)" "set r = set (found (right_local st) sub)" and sh: "shortest st2 = shortest st"
    using t u by (auto simp: take_left_def take_right_def found_def split: option.splits)
  moreover have L: "all_entries (\<lambda>s r. ok_route E r \<and> right_sub r = s) (left_local st)"
    and R: "all_entries (\<lambda>s r. ok_route E r \<and> left_sub r = s) (right_local st)"
    using assms(1) unfolding routing_inv_def by blast+
  ultimately have l: "hops sub < hops y" if "y \<in> set l" for y
    using all_entries_found [OF L, of y sub] hops_sub [of E y False] that by auto
  have rr: "hops sub < hops y" if "y \<in> set r" for y
    using all_entries_found [OF R, of y sub] hops_sub [of E y True] that \<open>set r = set (found (right_local st) sub)\<close> by auto
  have "map_of (shortest st3) p = Some x \<and> set tc1 = set tc \<union> set l"
    by (rule clean_subpath_keeps [OF _ _ 1]) (use assms(2,3) sh l in fastforce)+
  moreover from this have "map_of (shortest st') p = Some x \<and> set tc' = set tc1 \<union> set r"
    by (intro clean_subpath_keeps [OF _ _ 2]) (use assms(3) rr in fastforce)+
  ultimately show ?thesis using l rr by blast
qed

lemma clean_loop_keeps:
  assumes "routing_inv E st" and "map_of (shortest st) p = Some x" and "hops x \<le> hops sub" and "\<forall>r \<in> set tc. hops x \<le> hops r"
  shows "map_of (shortest (clean_loop first sub tc st)) p = Some x"
  using assms
proof (induction first sub tc st rule: clean_loop.induct)
  case (1 first sub tc st)
  obtain tc1 st1 where s: "clean_step sub tc st = (tc1, st1)" by (cases "clean_step sub tc st")
  have k: "map_of (shortest st1) p = Some x" "\<forall>r \<in> set tc1. r \<in> set tc \<or> hops sub < hops r"
    using clean_step_keeps [OF 1(2-4) s] by blast+
  then have tc1: "\<forall>r \<in> set tc1. hops x \<le> hops r" using 1(4,5) by fastforce
  show ?case
  proof (cases "tc1 = []")
    case False
    have "map_of (shortest (clean_loop first (pick first tc1) (remove1 (pick first tc1) tc1) st1)) p = Some x"
      using False k(1) tc1 pick_in [OF False, of first] set_remove1_subset [of "pick first tc1" tc1] inv_clean_step [OF 1(2) s]
      by (intro 1(1) [OF s [symmetric] False]) auto
    then show ?thesis using False s by (subst clean_loop.simps) simp
  qed (use k(1) s in \<open>subst clean_loop.simps, simp\<close>)
qed

lemma cleanup_keeps:
  assumes "routing_inv E st" and "map_of (shortest st) p = Some x" and "hops x < hops old"
  shows "map_of (shortest (cleanup first old False st)) p = Some x"
proof -
  obtain is_short sh where h: "remove_shortest old (shortest st) = (is_short, sh)" by (cases "remove_shortest old (shortest st)")
  have "map_of sh p = Some x" using h assms(2,3) by (auto simp: remove_shortest_def AList.delete_conv' split: option.splits if_splits)
  moreover have "set sh \<subseteq> set (shortest st)" using remove_shortest_set [of old "shortest st"] h by simp
  ultimately show ?thesis
    using assms(1,3) unfolding cleanup_def h prod.case
    by (intro clean_loop_keeps [where E = E]) (auto simp: routing_inv_def intro: routing_maps)
qed

section \<open>The search returns\<close>

lemma queue_top_least:
  assumes "q \<noteq> []"
  shows "queue_top ch q \<in> set q" and "\<And>x. x \<in> set q \<Longrightarrow> hops (queue_top ch q) \<le> hops x"
proof -
  let ?n = "min_list (map hops q)"
  have n: "?n = Min (hops ` set q)" using assms by (simp add: min_list_Min)
  have "Min (hops ` set q) \<in> hops ` set q" using assms by (intro Min_in) auto
  then have "filter (\<lambda>r. hops r = ?n) q \<noteq> []" using n by (auto simp: filter_empty_conv)
  from pick_in [OF this, of ch] have t: "queue_top ch q \<in> set q" "hops (queue_top ch q) = ?n"
    by (simp_all add: queue_top_def)
  show "queue_top ch q \<in> set q" by (rule t)
  show "hops (queue_top ch q) \<le> hops x" if "x \<in> set q" for x using t(2) n that by (simp add: Min_le)
qed

text \<open>
  While the search runs, the routes that are popped have more and more hops.  A pair of datapaths that has a shortest route of
  at most that many hops keeps it, so each pair gets a new shortest route at most once.
\<close>

definition nodes :: "('d \<times> ('d, 'p) hop) set \<Rightarrow> 'd set" where
  "nodes E = fst ` E \<union> h_dst ` snd ` E"

definition unsettled :: "('d \<times> ('d, 'p) hop) set \<Rightarrow> ('d, 'p) routing \<Rightarrow> nat \<Rightarrow> ('d \<times> 'd) set" where
  "unsettled E st n = {p \<in> nodes E \<times> nodes E. \<forall>x. map_of (shortest st) p = Some x \<longrightarrow> n < hops x}"

lemma last_step: "hs \<noteq> [] \<Longrightarrow> \<exists>u'. (u', last hs) \<in> set (steps u hs)"
  by (induction hs arbitrary: u) auto

lemma ok_route_nodes:
  assumes "ok_route E r"
  shows "route_id r \<in> nodes E \<times> nodes E"
proof -
  obtain h hs where p: "r_path r = h # hs" using assms by (cases "r_path r") (auto simp: ok_route_def)
  then have "(r_src r, h) \<in> E" using assms by (auto simp: ok_route_def)
  moreover obtain u where "(u, last (r_path r)) \<in> E" using last_step [of "r_path r" "r_src r"] assms by (auto simp: ok_route_def)
  ultimately show ?thesis using assms by (force simp: nodes_def ok_route_def)
qed

lemma unsettled_establish:
  assumes "finite E" and "ok_route E r" and "n \<le> hops r"
    and "\<And>old. map_of (shortest st) (route_id r) = Some old \<Longrightarrow> hops r < hops old"
    and "\<And>p x. map_of (shortest st) p = Some x \<Longrightarrow> hops x \<le> hops r \<Longrightarrow> map_of (shortest st1) p = Some x"
    and "shortest st' = add_shortest r (shortest st1)"
  shows "card (unsettled E st' (hops r)) < card (unsettled E st n)"
proof (rule psubset_card_mono)
  have "finite (nodes E)" using assms(1) by (simp add: nodes_def)
  then show "finite (unsettled E st n)" by (auto simp: unsettled_def intro: finite_subset [of _ "nodes E \<times> nodes E"])
  have st': "map_of (shortest st') p = (if p = route_id r then Some r else map_of (shortest st1) p)" for p
    using assms(6) by (simp add: add_shortest_def update_conv')
  have "p \<in> unsettled E st n" if p: "p \<in> unsettled E st' (hops r)" for p
  proof -
    have "n < hops x" if x: "map_of (shortest st) p = Some x" for x
    proof (rule ccontr)
      assume "\<not> n < hops x"
      then have le: "hops x \<le> hops r" using assms(3) by simp
      then have "p \<noteq> route_id r" using assms(4) x by fastforce
      then have "map_of (shortest st') p = Some x" using assms(5) [OF x le] st' by simp
      with p le show False by (auto simp: unsettled_def)
    qed
    with p show ?thesis by (simp add: unsettled_def)
  qed
  moreover have "route_id r \<in> unsettled E st n"
  proof -
    have "\<forall>x. map_of (shortest st) (route_id r) = Some x \<longrightarrow> n < hops x"
      using assms(3,4) by (meson order_le_less_trans)
    then show ?thesis using ok_route_nodes [OF assms(2)] by (simp add: unsettled_def)
  qed
  moreover have "route_id r \<notin> unsettled E st' (hops r)" using st' by (auto simp: unsettled_def)
  ultimately show "unsettled E st' (hops r) \<subset> unsettled E st n" by blast
qed

lemma fixup_loop_returns:
  assumes "finite E" and "routing_inv E st" and "\<forall>r \<in> set q. ok_route E r \<and> n \<le> hops r"
  shows "\<exists>st'. fixup_loop first ch (q, st) = Some st' \<and> routing_inv E st'"
  using assms(2,3)
proof (induction "(card (unsettled E st n), length q)" arbitrary: q st n
    rule: wf_induct_rule [OF wf_lex_prod [OF wf_less_than wf_less_than]])
  case (1 q st n)
  show ?case
  proof (cases "q = []")
    case True
    then show ?thesis using 1(2) by (subst fixup_loop.simps) simp
  next
    case False
    define r q' where "r = queue_top ch q" and "q' = remove1 r q"
    have r: "r \<in> set q" "ok_route E r" "n \<le> hops r" and least: "\<And>x. x \<in> set q \<Longrightarrow> hops r \<le> hops x"
      using queue_top_least [OF False, where ch = ch] 1(3) unfolding r_def by auto
    have q': "\<forall>x \<in> set q'. x \<in> set q" "length q' < length q"
      using r(1) False set_remove1_subset [of r q] by (auto simp: q'_def length_remove1 length_pos_if_in_set)
    have unfold: "fixup_loop first ch (q, st) =
        (case map_of (shortest st) (route_id r) of
           Some old \<Rightarrow> if hops old \<le> hops r then fixup_loop first ch (q', st)
             else fixup_loop first ch (establish r (q', cleanup first old False st))
         | None \<Rightarrow> if r_src r = r_dst r then fixup_loop first ch (q', st) else fixup_loop first ch (establish r (q', st)))"
      unfolding q'_def r_def by (subst fixup_loop.simps) (use False in \<open>simp add: Let_def\<close>)
    have skip: "\<exists>st'. fixup_loop first ch (q', st) = Some st' \<and> routing_inv E st'"
      using q' 1(2,3) by (intro 1(1) [of st n q']) auto
    have go: "\<exists>st'. fixup_loop first ch (establish r (q', st1)) = Some st' \<and> routing_inv E st'"
      if "routing_inv E st1" "r_src r \<noteq> r_dst r" "\<And>old. map_of (shortest st) (route_id r) = Some old \<Longrightarrow> hops r < hops old"
        "\<And>p x. map_of (shortest st) p = Some x \<Longrightarrow> hops x \<le> hops r \<Longrightarrow> map_of (shortest st1) p = Some x" for st1
    proof -
      obtain q2 st2 where e: "establish r (q', st1) = (q2, st2)" by (cases "establish r (q', st1)")
      note i = inv_establish [OF that(1) r(2) that(2) e]
      have "card (unsettled E st2 (hops r)) < card (unsettled E st n)"
        by (rule unsettled_establish [OF assms(1) r(2,3) that(3,4) i(2)])
      moreover have "\<forall>x \<in> set q2. ok_route E x \<and> hops r \<le> hops x" using i(3) q'(1) 1(3) least by fastforce
      ultimately show ?thesis unfolding e using i(1) by (intro 1(1) [of st2 "hops r" q2]) auto
    qed
    show ?thesis
    proof (cases "map_of (shortest st) (route_id r)")
      case None
      then show ?thesis using unfold skip go [of st] 1(2) by simp
    next
      case (Some old)
      have "r_src r \<noteq> r_dst r" using 1(2) map_of_SomeD [OF Some] by (auto simp: routing_inv_def)
      moreover have "map_of (shortest (cleanup first old False st)) p = Some x"
        if "hops r < hops old" "map_of (shortest st) p = Some x" "hops x \<le> hops r" for p x
        using cleanup_keeps [OF 1(2) that(2)] that(1,3) by simp
      ultimately show ?thesis
        using unfold skip Some go [of "cleanup first old False st"] inv_cleanup [OF 1(2)] by (cases "hops old \<le> hops r") simp_all
    qed
  qed
qed

section \<open>Sequences of link events\<close>

type_synonym ('d, 'p) link_update = "link_action \<times> 'd \<times> 'd \<times> 'p \<times> 'p"

fun run_links :: "(('d, 'p) route list \<Rightarrow> nat) \<Rightarrow> (('d, 'p) route list \<Rightarrow> nat) \<Rightarrow> ('d, 'p) link_update list \<Rightarrow>
    ('d, 'p) routing \<Rightarrow> ('d, 'p) routing option" where
  "run_links first ch [] st = Some st"
| "run_links first ch ((action, src, dst, sport, dport) # us) st =
     Option.bind (link_change first ch action (link_route src dst sport dport) st) (run_links first ch us)"

definition link_of_update :: "('d, 'p) link_update \<Rightarrow> 'd \<times> ('d, 'p) hop" where
  "link_of_update u = (case u of (action, src, dst, sport, dport) \<Rightarrow> (src, \<lparr>h_dst = dst, h_outport = sport, h_inport = dport\<rparr>))"

text \<open>The links that were added at some time, and the links that are there in the end.\<close>

definition added :: "('d, 'p) link_update list \<Rightarrow> ('d \<times> ('d, 'p) hop) set" where
  "added us = link_of_update ` {u \<in> set us. fst u = LINK_ADD}"

fun present :: "('d, 'p) link_update list \<Rightarrow> ('d \<times> ('d, 'p) hop) set \<Rightarrow> ('d \<times> ('d, 'p) hop) set" where
  "present [] E = E"
| "present (u # us) E = present us (if fst u = LINK_ADD then insert (link_of_update u) E else E - {link_of_update u})"

lemma ok_route_mono: "ok_route E r \<Longrightarrow> E \<subseteq> E' \<Longrightarrow> ok_route E' r"
  by (auto simp: ok_route_def)

lemma all_entries_mono: "all_entries P m \<Longrightarrow> (\<And>k v. P k v \<Longrightarrow> Q k v) \<Longrightarrow> all_entries Q m"
  by (fastforce simp: all_entries_def)

lemma routing_inv_mono:
  assumes "routing_inv E st" and "E \<subseteq> E'"
  shows "routing_inv E' st"
proof -
  have ok: "ok_route E r \<Longrightarrow> ok_route E' r" for r by (rule ok_route_mono [OF _ assms(2)])
  show ?thesis
    using assms(1) unfolding routing_inv_def
    by (intro conjI) (auto elim!: all_entries_mono dest!: ok)
qed

lemma link_change_ok:
  assumes "finite E" and "routing_inv E st" and "action = LINK_ADD \<Longrightarrow> (src, \<lparr>h_dst = dst, h_outport = sport, h_inport = dport\<rparr>) \<in> E"
  shows "\<exists>st'. link_change first ch action (link_route src dst sport dport) st = Some st' \<and> routing_inv E st'"
proof (cases action)
  case LINK_ADD
  let ?r = "link_route src dst sport dport"
  have r: "ok_route E ?r" using assms(3) [OF LINK_ADD] by (simp add: ok_route_def link_route_def)
  have sub: "right_sub ?r = \<lparr>r_src = r_dst ?r, r_dst = r_dst ?r, r_path = []\<rparr>"
    "left_sub ?r = \<lparr>r_src = r_src ?r, r_dst = r_src ?r, r_path = []\<rparr>"
    by (simp_all add: set_subpath_def link_route_def)
  have "routing_inv E (st\<lparr>local_routes := add_local ?r (local_routes st),
      left_local := add_extension ?r \<lparr>r_src = r_dst ?r, r_dst = r_dst ?r, r_path = []\<rparr> (left_local st),
      right_local := add_extension ?r \<lparr>r_src = r_src ?r, r_dst = r_src ?r, r_path = []\<rparr> (right_local st)\<rparr>)"
    using assms(2) r sub unfolding routing_inv_def
    by (auto intro!: all_entries_add_local all_entries_add_extension nonempty_add_local)
  from fixup_loop_returns [OF assms(1) this, of "[?r]" 0 first ch] r show ?thesis
    using LINK_ADD by (simp add: link_change_def fixup_def)
next
  case LINK_REMOVE
  let ?st = "cleanup first (link_route src dst sport dport) True st"
  have inv: "routing_inv E ?st" by (rule inv_cleanup [OF assms(2)])
  have "ok_route E r" if "r \<in> set (map (\<lambda>(i, rs). hd rs) (local_routes ?st))" for r
  proof -
    from that obtain i rs where i: "(i, rs) \<in> set (local_routes ?st)" "r = hd rs" by auto
    then have "rs \<noteq> []" "\<forall>x \<in> set rs. ok_route E x" using inv by (auto simp: routing_inv_def all_nonempty_def all_entries_def)
    then show ?thesis using i by simp
  qed
  then have "\<forall>r \<in> set (map (\<lambda>(i, rs). hd rs) (local_routes ?st)). ok_route E r \<and> 0 \<le> hops r" by blast
  from fixup_loop_returns [OF assms(1) inv this, of first ch] show ?thesis
    using LINK_REMOVE by (simp add: link_change_def fixup_def)
qed

lemma added_Cons: "added (u # us) = (if fst u = LINK_ADD then insert (link_of_update u) (added us) else added us)"
  by (auto simp: added_def)

lemma run_links_ok:
  assumes "finite E" and "routing_inv E st" and "added us \<subseteq> E"
  shows "\<exists>st'. run_links first ch us st = Some st' \<and> routing_inv E st'"
  using assms(2,3)
proof (induction us arbitrary: st)
  case (Cons u us)
  obtain action src dst sport dport where u: "u = (action, src, dst, sport, dport)" by (cases u)
  have "action = LINK_ADD \<Longrightarrow> (src, \<lparr>h_dst = dst, h_outport = sport, h_inport = dport\<rparr>) \<in> E"
    using Cons.prems(2) u by (simp add: added_Cons link_of_update_def)
  from link_change_ok [OF assms(1) Cons.prems(1) this] obtain st1 where
    1: "link_change first ch action (link_route src dst sport dport) st = Some st1" "routing_inv E st1" by blast
  have "added us \<subseteq> E" using Cons.prems(2) by (simp add: added_Cons split: if_splits)
  from Cons.IH [OF 1(2) this] 1(1) u show ?case by simp
qed simp

lemma finite_added: "finite (added us)"
  by (simp add: added_def)

section \<open>Properties\<close>

text \<open>
  C25: after any sequence of link events, however equal candidates are ordered, the search has ended, and a route between two
  datapaths is empty when they are the same one and otherwise a path of links from the first to the second, each of which
  was added by one of the events.
\<close>

theorem routes_are_paths:
  "\<exists>st. run_links first ch us new_routing = Some st \<and>
     (\<forall>i r. get_route i st = Some r \<longrightarrow>
        route_id r = i \<and>
        (if fst i = snd i then r_path r = []
         else r_path r \<noteq> [] \<and> h_dst (last (r_path r)) = snd i \<and> set (steps (fst i) (r_path r)) \<subseteq> added us))"
proof -
  have "routing_inv (added us) new_routing"
    by (simp add: routing_inv_def new_routing_def all_nonempty_def all_entries_def)
  from run_links_ok [OF finite_added this subset_refl] obtain st where
    st: "run_links first ch us new_routing = Some st" "routing_inv (added us) st" by blast
  have "ok_route (added us) r \<and> route_id r = i \<and> r_src r \<noteq> r_dst r" if "map_of (shortest st) i = Some r" for i r
    using st(2) map_of_SomeD [OF that] by (auto simp: routing_inv_def)
  then show ?thesis
    using st(1) by (fastforce simp: get_route_def ok_route_def split: option.splits if_splits)
qed

text \<open>Eight datapaths, and links between them that are added one after the other; then one of them is removed.\<close>

datatype eight = D0 | D1 | D2 | D3 | D4 | D5 | D6 | D7

definition diamond :: "(eight, unit) link_update list" where
  "diamond =
     [(LINK_ADD, D5, D7, (), ()), (LINK_ADD, D3, D6, (), ()), (LINK_ADD, D1, D3, (), ()), (LINK_ADD, D4, D6, (), ()),
      (LINK_ADD, D6, D7, (), ()), (LINK_ADD, D3, D5, (), ()), (LINK_ADD, D0, D1, (), ()), (LINK_ADD, D0, D2, (), ()),
      (LINK_ADD, D2, D3, (), ()), (LINK_ADD, D2, D4, (), ()), (LINK_ADD, D1, D4, (), ()), (LINK_REMOVE, D3, D6, (), ())]"

definition to_eight :: "eight \<Rightarrow> (eight, unit) hop" where
  "to_eight d = \<lparr>h_dst = d, h_outport = (), h_inport = ()\<rparr>"

theorem routes_are_paths_witness:
  "\<exists>st r. run_links (\<lambda>_. 0) (\<lambda>_. 0) (take 4 diamond) new_routing = Some st \<and> get_route (D1, D6) st = Some r \<and>
     r_path r = [to_eight D3, to_eight D6] \<and> set (steps D1 (r_path r)) \<subseteq> added (take 4 diamond)"
proof -
  have "map_option (\<lambda>st. map_option r_path (get_route (D1, D6) st)) (run_links (\<lambda>_. 0) (\<lambda>_. 0) (take 4 diamond) new_routing) =
      Some (Some [to_eight D3, to_eight D6])"
    by code_simp
  then obtain st r where st: "run_links (\<lambda>_. 0) (\<lambda>_. 0) (take 4 diamond) new_routing = Some st" "get_route (D1, D6) st = Some r"
      "r_path r = [to_eight D3, to_eight D6]"
    by auto
  from routes_are_paths [of "\<lambda>_. 0" "\<lambda>_. 0" "take 4 diamond"] obtain st' where
    st': "run_links (\<lambda>_. 0) (\<lambda>_. 0) (take 4 diamond) new_routing = Some st'"
      "\<forall>i r. get_route i st' = Some r \<longrightarrow> route_id r = i \<and> (if fst i = snd i then r_path r = []
         else r_path r \<noteq> [] \<and> h_dst (last (r_path r)) = snd i \<and> set (steps (fst i) (r_path r)) \<subseteq> added (take 4 diamond))"
    by (elim exE conjE) (rule that)
  have "set (steps D1 (r_path r)) \<subseteq> added (take 4 diamond)"
    using st'(2) [THEN spec [of _ "(D1, D6)"], THEN spec [of _ r]] st(1,2) st'(1) by simp
  with st show ?thesis by blast
qed


end
