(* ===== verification/Spec2Isabelle.thy ===== *)
theory Spec2Isabelle
  imports Nox_Expr Nox_Wire Nox_Of_Event Nox_Switch Nox_Timer Nox_Event_Dispatch Nox_Routing
begin

text \<open>
  A model of the core of the OpenFlow controller NOX (\<^verbatim>\<open>src/src\<close>), with proofs.

  The controller talks OpenFlow with switches.  Messages from a switch are decoded into events, a packet that a switch does
  not know is parsed into a flow, and the flow is looked up in a classifier, whose rules say which handlers want it.
  Answers are packed into messages again.  The theories follow that path from the bytes up.

  \<^bold>\<open>Conventions.\<close>  Memory is a list of bytes; a machine integer is a word of its width, and the host is little-endian, so
  \<open>load16\<close>, \<open>load32\<close>, \<open>load64\<close> and \<open>store16\<close> ... read and write the low byte first and \<open>htons\<close>, \<open>htonl\<close>, \<open>htonll\<close> swap.  A
  failed assertion, an uncaught exception and a read outside of an object are \<open>None\<close>; an error the code reports is a value
  of a sum or option type.  Objects that are shared by pointer (the rules of a classifier and the nodes of its tree) are
  kept by address.

  \<^item> \<open>Nox_Prelude\<close>: byte order (\<^verbatim>\<open>xtoxll.h\<close>), memory access, words, sorted lists.

  \<^item> \<open>Nox_Cnode\<close>, \<open>Nox_Cnode_Inv\<close>, \<open>Nox_Cnode_Upd\<close> (\<^verbatim>\<open>include/cnode.hh\<close>, \<^verbatim>\<open>rule.hh\<close>): the classifier tree with node addresses and
  the node pointers of the rules, every operation on it, and its invariant: lists sorted by priority, each rule in the one
  bucket its field value selects, each rule pointing to the node that holds it.  \<^verbatim>\<open>build\<close> ends because each split uses a
  field that is not yet on the path.

  \<^item> \<open>Nox_Cnode_Result\<close>, \<open>Nox_Traverse\<close> (\<^verbatim>\<open>cnode-result.hh\<close>, \<^verbatim>\<open>Cnode::traverse\<close>): the search.  The locale for the data of a
  search states what the tree relies on: a rule that matches has, in every field that is split on, the value or the wildcard
  that the search follows.

  \<^item> \<open>Nox_Classifier\<close> (\<^verbatim>\<open>classifier.hh\<close>): ids, insertion, change of priority, deletion by id and by expression, building.
  \<open>reachable\<close> are the classifiers that sequences of public operations make; every operation refines an operation on a map
  from ids to priority, expression and action.

  \<^item> \<open>Nox_Buffer\<close> (\<^verbatim>\<open>buffer.hh\<close>, \<^verbatim>\<open>buffer.cc\<close>), \<open>Nox_Netaddr\<close> (\<^verbatim>\<open>netinet++/ethernetaddr\<close>, \<^verbatim>\<open>ipaddr\<close>, \<^verbatim>\<open>cidr\<close>, \<^verbatim>\<open>datapathid\<close>):
  buffers as windows into an array, addresses with their operators, parsing and printing.

  \<^item> \<open>Nox_Flow\<close> (\<^verbatim>\<open>flow.cc\<close>): the parser of packet headers against reference encoders of Ethernet, VLAN, ARP, IPv4, TCP, UDP and
  ICMP, conversion from and to matches, text and hash code.

  \<^item> \<open>Nox_Expr\<close> (\<^verbatim>\<open>expr.cc\<close>): packet expressions, and the interpretations of the classifier's locale for searches by flow and by
  expression.

  \<^item> \<open>Nox_Ofpack\<close>, \<open>Nox_Ofpack_Action\<close>, \<open>Nox_Ofpack_Stats\<close>, \<open>Nox_Ofpack_Msg\<close>, \<open>Nox_Wire\<close> (\<^verbatim>\<open>openflow-pack-raw.cc\<close>,
  \<^verbatim>\<open>openflow.h\<close>): the codecs of all 41 wire structures, each an interpretation of \<open>wire_codec\<close> or \<open>wire_bijection\<close>.

  \<^item> \<open>Nox_Openflow_Pack\<close> (\<^verbatim>\<open>openflow-pack.cc\<close>, \<^verbatim>\<open>openflow-action.cc\<close>): transaction ids, actions and action lists.

  \<^item> \<open>Nox_Stats_In\<close> (\<^verbatim>\<open>port.hh\<close>, \<^verbatim>\<open>flow-stats-in.cc\<close>, \<^verbatim>\<open>queue-stats-in.cc\<close>, \<^verbatim>\<open>queue-config-in.cc\<close> ...), \<open>Nox_Of_Event\<close>
  (\<^verbatim>\<open>openflow-event.cc\<close>): the events that messages become, the decoder with all of its handlers, and which messages make
  it read outside of the message or loop.

  \<^item> \<open>Nox_Timeval\<close> (\<^verbatim>\<open>timeval.cc\<close>), \<open>Nox_Stream\<close> (\<^verbatim>\<open>async_io.cc\<close>, \<^verbatim>\<open>Openflow_stream_connection\<close>): times, and messages on byte
  streams.  The locales \<open>byte_stream\<close> and \<open>out_stream\<close> state what a socket promises; the messages that are received and sent
  do not depend on how the bytes are cut.

  \<^item> \<open>Nox_Connection\<close> (\<^verbatim>\<open>openflow.cc\<close>): handshake, inactivity probe, the messages a connection sends, reconnection with
  backoff, names of connections.

  \<^item> \<open>Nox_Timer\<close> (\<^verbatim>\<open>timer-dispatcher.cc\<close>), \<open>Nox_Event_Dispatch\<close> (\<^verbatim>\<open>event-dispatcher.cc\<close>, \<^verbatim>\<open>event-dispatcher-component.cc\<close>): the
  two dispatchers, with callbacks and handlers as parameters under the contracts \<open>timer_client\<close> and \<open>posting_handlers\<close>.

  \<^item> \<open>Nox_Switch\<close> (\<^verbatim>\<open>hub.cc\<close>, \<^verbatim>\<open>switch.cc\<close>), \<open>Nox_Topology\<close> (\<^verbatim>\<open>topology.cc\<close>), \<open>Nox_Routing\<close> (\<^verbatim>\<open>routing.cc\<close>): applications.  The
  learning switch sends a packet where its destination was last seen, the topology is a multiset of links, and the routing
  keeps paths of links between datapaths; it can miss a route after a removal.

  This theory holds the properties of the classifier with packet expressions, which span the components.

  \<^bold>\<open>Termination.\<close>  Loops are structural recursion or functions with a measure; the loops of a search, which the code bounds
  only through its invariant, are partial functions, and the properties state that they return.  No fuel is used.

  \<^bold>\<open>Not modelled.\<close>  Logging and printing to streams; name resolution, MD5 and the operating system, which are parameters where
  they are used; threads, sockets, TLS, netlink and the poll loop, whose behaviour is that of the kernel; the Python
  runtime and the applications in Python; the applications that are mainly glue to storage and web services.
\<close>

section \<open>A small classifier\<close>

text \<open>A classifier with a rule for TCP packets and one for every packet.\<close>

definition two_ops :: "(packet_expr, string) classifier_op list" where
  "two_ops = [Add_rule 20 any_expr ''any'', Add_rule 10 tcp_expr ''tcp'', Build]"

definition two_rules :: "(packet_expr, string) classifier" where
  "two_rules =
     classifier_build packet_expr_ops (snd (classifier_add_rule packet_expr_ops 10 tcp_expr ''tcp''
       (snd (classifier_add_rule packet_expr_ops 20 any_expr ''any'' new_classifier))))"

lemma two_rules_reachable:
  assumes "\<And>op. op \<in> set two_ops \<Longrightarrow> P op"
  shows "reachable packet_expr_ops P two_rules"
proof -
  let ?c1 = "snd (classifier_add_rule packet_expr_ops 20 any_expr ''any'' new_classifier)"
  let ?c2 = "snd (classifier_add_rule packet_expr_ops 10 tcp_expr ''tcp'' ?c1)"
  have "reachable packet_expr_ops P ?c1"
    by (rule reachable.step [OF reachable.start, of _ "Add_rule 20 any_expr ''any''"]) (auto simp: two_ops_def intro: assms)
  then have "reachable packet_expr_ops P ?c2"
    by (rule reachable.step [of _ _ _ "Add_rule 10 tcp_expr ''tcp''"]) (auto simp: two_ops_def intro: assms)
  then show ?thesis
    unfolding two_rules_def by (rule reachable.step [of _ _ _ Build]) (auto simp: two_ops_def intro: assms)
qed

section \<open>Looking up a packet\<close>

text \<open>
  C1: looking a flow up in any classifier built by a sequence of public operations ends without an assertion
  failure, and yields every rule that matches the flow exactly once and no other, in ascending priority.
\<close>

theorem flow_lookup:
  assumes "reachable packet_expr_ops (op_ok flow_expr (\<lambda>f. f \<noteq> AP_DST)) c"
  shows "\<exists>tv rs. classifier_get_rules flow_data d c [] = Some tv \<and>
    drain (rule_matches flow_data d (rules c)) (rules c) tv = Some rs \<and>
    distinct rs \<and> set rs = matching_rules flow_data d c \<and> sorted (map (prio (rules c)) rs)"
  by (rule flows.search [OF flows.reachable_searchable [OF assms]])

theorem flow_lookup_witness:
  "reachable packet_expr_ops (op_ok flow_expr (\<lambda>f. f \<noteq> AP_DST)) two_rules \<and>
   (\<exists>tv rs. classifier_get_rules flow_data Flow_empty two_rules [] = Some tv \<and>
    drain (rule_matches flow_data Flow_empty (rules two_rules)) (rules two_rules) tv = Some rs \<and>
    distinct rs \<and> set rs = matching_rules flow_data Flow_empty two_rules \<and> sorted (map (prio (rules two_rules)) rs))"
proof -
  have r: "reachable packet_expr_ops (op_ok flow_expr (\<lambda>f. f \<noteq> AP_DST)) two_rules"
    by (rule two_rules_reachable) (auto simp: two_ops_def op_ok_def flow_expr_small)
  with flow_lookup [OF r] show ?thesis by blast
qed

text \<open>
  C3: rebuilding, flattening or cleaning the tree never changes the answer to a lookup: the same rules come out,
  with the same sequence of priorities.
\<close>

theorem build_same_answer:
  assumes "reachable packet_expr_ops (op_ok flow_expr (\<lambda>f. f \<noteq> AP_DST)) c"
    and "op \<in> {Build, Unbuild, Clean}" and "run_op packet_expr_ops op c = Some c'"
  shows "\<exists>tv rs tv' rs'.
    classifier_get_rules flow_data d c [] = Some tv \<and>
    drain (rule_matches flow_data d (rules c)) (rules c) tv = Some rs \<and>
    classifier_get_rules flow_data d c' [] = Some tv' \<and>
    drain (rule_matches flow_data d (rules c')) (rules c') tv' = Some rs' \<and>
    set rs' = set rs \<and> map (prio (rules c')) rs' = map (prio (rules c)) rs"
proof (rule flows.search_same_contents)
  show "flows.searchable c" by (rule flows.reachable_searchable [OF assms(1)])
  show "flows.searchable c'"
    by (rule flows.reachable_searchable [OF reachable.step [OF assms(1) _ assms(3)]])
      (use assms(2) in \<open>auto simp: op_ok_def\<close>)
  show "contents c' = contents c"
    using run_op_refines(2) [OF reachable_classifier_ok [OF assms(1)] assms(3)] assms(2) by auto
qed

theorem build_same_answer_witness:
  "reachable packet_expr_ops (op_ok flow_expr (\<lambda>f. f \<noteq> AP_DST)) two_rules \<and>
   run_op packet_expr_ops Unbuild two_rules = Some (classifier_unbuild two_rules) \<and>
   (\<exists>tv rs tv' rs'.
    classifier_get_rules flow_data Flow_empty two_rules [] = Some tv \<and>
    drain (rule_matches flow_data Flow_empty (rules two_rules)) (rules two_rules) tv = Some rs \<and>
    classifier_get_rules flow_data Flow_empty (classifier_unbuild two_rules) [] = Some tv' \<and>
    drain (rule_matches flow_data Flow_empty (rules (classifier_unbuild two_rules))) (rules (classifier_unbuild two_rules)) tv' =
      Some rs' \<and>
    set rs' = set rs \<and> map (prio (rules (classifier_unbuild two_rules))) rs' = map (prio (rules two_rules)) rs)"
proof -
  have r: "reachable packet_expr_ops (op_ok flow_expr (\<lambda>f. f \<noteq> AP_DST)) two_rules"
    by (rule two_rules_reachable) (auto simp: two_ops_def op_ok_def flow_expr_small)
  have u: "run_op packet_expr_ops Unbuild two_rules = Some (classifier_unbuild two_rules)" by simp
  from r u build_same_answer [OF r _ u] show ?thesis by blast
qed

section \<open>The rules of a classifier\<close>

text \<open>
  C2: every public operation implements its contract on the map from rule ids to priority, expression and action.
\<close>

theorem classifier_refines:
  assumes "reachable ops P c" and "run_op ops op c = Some c'"
  shows "spec_op op (contents c) (contents c')"
  by (rule run_op_refines [OF reachable_classifier_ok [OF assms(1)] assms(2)])

theorem classifier_refines_witness:
  "reachable packet_expr_ops (\<lambda>_. True) two_rules \<and>
   run_op packet_expr_ops (Delete_rule 1) two_rules = Some (snd (delete_rule 1 two_rules)) \<and>
   spec_op (Delete_rule 1 :: (packet_expr, string) classifier_op) (contents two_rules) (contents (snd (delete_rule 1 two_rules)))"
proof -
  have r: "reachable packet_expr_ops (\<lambda>_. True) two_rules" by (rule two_rules_reachable) simp
  have d: "run_op packet_expr_ops (Delete_rule 1) two_rules = Some (snd (delete_rule 1 two_rules))" by simp
  from r d classifier_refines [OF r d] show ?thesis by blast
qed

text \<open>
  C4: in every reachable classifier the \<^verbatim>\<open>node\<close> pointer of each rule is set and points to the one node of the
  tree that holds the rule, the tree holds no other rule, and no two nodes share an address.
\<close>

theorem classifier_pointers:
  assumes "reachable ops P c"
  shows "distinct (placements (root c)) \<and>
    set (placements (root c)) = {(r, k). \<exists>rl. rules c r = Some rl \<and> node rl = Some k} \<and>
    {r. \<exists>rl. rules c r = Some rl \<and> node rl = None} = {} \<and> distinct (addrs (root c))"
proof -
  note ok = reachable_classifier_ok [OF assms]
  then have "distinct (addrs (root c))" by (simp add: classifier_ok_def forest_ok_def)
  with placements_exact [OF ok] show ?thesis by blast
qed

theorem classifier_pointers_witness:
  "reachable packet_expr_ops (\<lambda>_. True) two_rules \<and> distinct (placements (root two_rules)) \<and>
    set (placements (root two_rules)) = {(r, k). \<exists>rl. rules two_rules r = Some rl \<and> node rl = Some k} \<and>
    {r. \<exists>rl. rules two_rules r = Some rl \<and> node rl = None} = {} \<and> distinct (addrs (root two_rules))"
proof -
  have r: "reachable packet_expr_ops (\<lambda>_. True) two_rules" by (rule two_rules_reachable) simp
  with classifier_pointers [OF r] show ?thesis by blast
qed

text \<open>
  C5: adding a rule returns a new nonzero id and stores the rule under it, or returns \<^verbatim>\<open>ENOMEM\<close> and stores nothing;
  it fails only when every nonzero id is taken.
\<close>

theorem add_rule_result:
  assumes "reachable ops P c"
  shows "case classifier_add_rule ops p e a c of
      (Inl err, c') \<Rightarrow> err = ENOMEM \<and> contents c' = contents c \<and> dom (contents c) = - {0}
    | (Inr rid, c') \<Rightarrow> rid \<noteq> 0 \<and> contents c rid = None \<and> contents c' = (contents c)(rid \<mapsto> (p, e, a))"
proof -
  note ok = reachable_classifier_ok [OF assms]
  obtain res c' where a: "classifier_add_rule ops p e a c = (res, c')" by (metis surj_pair)
  have "contents c 0 = None" using ok by (simp add: classifier_ok_def contents_def)
  with classifier_add_rule_ok [OF ok a] a show ?thesis by (cases res) (auto simp: dom_def)
qed

theorem add_rule_result_witness:
  "reachable packet_expr_ops (\<lambda>_. True) two_rules \<and>
    (case classifier_add_rule packet_expr_ops 5 tcp_expr ''x'' two_rules of
      (Inl err, c') \<Rightarrow> err = ENOMEM \<and> contents c' = contents two_rules \<and> dom (contents two_rules) = - {0}
    | (Inr rid, c') \<Rightarrow> rid \<noteq> 0 \<and> contents two_rules rid = None \<and>
        contents c' = (contents two_rules)(rid \<mapsto> (5, tcp_expr, ''x'')))"
proof -
  have r: "reachable packet_expr_ops (\<lambda>_. True) two_rules" by (rule two_rules_reachable) simp
  with add_rule_result [OF r, of 5 tcp_expr "''x''"] show ?thesis by blast
qed

text \<open>
  C6: deleting by an expression removes exactly the rules whose expression it covers, returns their number,
  and leaves the classifier well-formed.
\<close>

theorem delete_matching:
  assumes "reachable packet_expr_ops (op_ok (\<lambda>_. True) (\<lambda>_. True)) c"
  shows "\<exists>c'. delete_rules expr_data m c = Some (of_nat (card (matching_rules expr_data m c)), c') \<and>
    classifier_ok packet_expr_ops c' \<and>
    contents c' = (\<lambda>r. if r \<in> matching_rules expr_data m c then None else contents c r)"
  using exprs.delete_rules_correct [OF exprs.reachable_searchable [OF assms]]
  by (auto simp: exprs.searchable_def)

theorem delete_matching_witness:
  "reachable packet_expr_ops (op_ok (\<lambda>_. True) (\<lambda>_. True)) two_rules \<and>
   (\<exists>c'. delete_rules expr_data tcp_expr two_rules =
      Some (of_nat (card (matching_rules expr_data tcp_expr two_rules)), c') \<and>
    classifier_ok packet_expr_ops c' \<and>
    contents c' = (\<lambda>r. if r \<in> matching_rules expr_data tcp_expr two_rules then None else contents two_rules r))"
proof -
  have r: "reachable packet_expr_ops (op_ok (\<lambda>_. True) (\<lambda>_. True)) two_rules"
    by (rule two_rules_reachable) (auto simp: two_ops_def op_ok_def)
  with delete_matching [OF r] show ?thesis by blast
qed

end
